(* ===== verification/Prelude.thy ===== *)
theory Prelude
  imports Main "HOL-Library.Word"
begin

text \<open>
  Shared vocabulary of the development: the number and byte types of the C++ sources, the
  exceptions they throw as an error type, results as a sum type with its sequencing
  combinator, spans and their bounds, and the generic list, map and word lemmas the
  components use.
\<close>

section \<open>Types\<close>

type_synonym byte = "8 word"
type_synonym bytes = "8 word list"
type_synonym Address = "8 word list"
type_synonym Hash = "8 word list"
type_synonym uint8 = "8 word"
type_synonym uint16 = "16 word"
type_synonym uint32 = "32 word"
type_synonym uint64 = "64 word"
type_synonym uint112 = "112 word"
type_synonym uint128 = "128 word"
type_synonym uint160 = "160 word"
type_synonym uint224 = "224 word"
type_synonym uint256 = "256 word"

text \<open>
  A C++ exception is a value of \<open>error\<close>, one constructor per exception class that the
  modelled code throws. \<open>NumericError\<close> is an exception raised by a checked
  fixed-precision integer of boost::multiprecision (the source's typedefs choose
  \<^verbatim>\<open>cpp_int_check_type::checked\<close>); \<open>UndefinedBehaviour\<close> marks a step the language gives no
  meaning to, such as reading a span outside its bounds.
\<close>

datatype error =
    RuntimeError string
  | OverflowError string
  | UnderflowError string
  | DomainError string
  | OutOfRange string
  | InvalidArgument string
  | NumericError
  | UndefinedBehaviour

type_synonym 'a res = "error + 'a"

section \<open>Sequencing of fallible steps\<close>

text \<open>\<open>bindR m f\<close> runs \<open>f\<close> on the value of \<open>m\<close>; an exception skips the rest.\<close>

definition bindR :: "'a res \<Rightarrow> ('a \<Rightarrow> 'b res) \<Rightarrow> 'b res" where
  "bindR m f = (case m of Inl e \<Rightarrow> Inl e | Inr a \<Rightarrow> f a)"

named_theorems res_simps \<open>rewriting of fallible computations\<close>

lemma bindR_Inr [simp]: "bindR (Inr a) f = f a"
  by (simp add: bindR_def)

lemma bindR_Inl [simp]: "bindR (Inl e) f = Inl e"
  by (simp add: bindR_def)

lemma bindR_eq_Inr [res_simps]: "bindR m f = Inr b \<longleftrightarrow> (\<exists>a. m = Inr a \<and> f a = Inr b)"
  by (cases m) auto

lemma bindR_eq_Inl [res_simps]:
  "bindR m f = Inl e \<longleftrightarrow> m = Inl e \<or> (\<exists>a. m = Inr a \<and> f a = Inl e)"
  by (cases m) auto

lemma bindR_assoc: "bindR (bindR m f) g = bindR m (\<lambda>a. bindR (f a) g)"
  by (cases m) auto

lemma bindR_cong [fundef_cong]:
  "m = m' \<Longrightarrow> (\<And>a. m' = Inr a \<Longrightarrow> f a = g a) \<Longrightarrow> bindR m f = bindR m' g"
  by (cases m') auto

definition okR :: "'a res \<Rightarrow> bool" where
  "okR m = (case m of Inl _ \<Rightarrow> False | Inr _ \<Rightarrow> True)"

lemma okR_simps [simp]: "okR (Inr a)" "\<not> okR (Inl e)"
  by (simp_all add: okR_def)

text \<open>
  The steps of a state-changing function, run until the first exception; the state an exception
  leaves behind is part of the result.
\<close>

definition andThen :: "'s \<times> error option \<Rightarrow> ('s \<Rightarrow> 's \<times> error option) \<Rightarrow> 's \<times> error option" where
  "andThen r f = (case snd r of Some e \<Rightarrow> r | None \<Rightarrow> f (fst r))"

lemma andThen_simps [simp]:
  "andThen (s, None) f = f s" "andThen (s, Some e) f = (s, Some e)"
  by (simp_all add: andThen_def)

lemma snd_andThen_None [res_simps]:
  "snd (andThen r f) = None \<longleftrightarrow> snd r = None \<and> snd (f (fst r)) = None"
  by (auto simp: andThen_def split: option.splits)

lemma fst_andThen_None: "snd r = None \<Longrightarrow> andThen r f = f (fst r)"
  by (simp add: andThen_def)

text \<open>Functions that change a state and return a value or throw.\<close>

type_synonym ('s, 'a) sres = "'s \<Rightarrow> 's \<times> 'a res"

definition bindS :: "('s, 'a) sres \<Rightarrow> ('a \<Rightarrow> ('s, 'b) sres) \<Rightarrow> ('s, 'b) sres" where
  "bindS m f s = (case m s of (s', Inl e) \<Rightarrow> (s', Inl e) | (s', Inr a) \<Rightarrow> f a s')"

definition retS :: "'a \<Rightarrow> ('s, 'a) sres" where
  "retS a s = (s, Inr a)"

definition throwS :: "error \<Rightarrow> ('s, 'a) sres" where
  "throwS e s = (s, Inl e)"

definition liftS :: "'a res \<Rightarrow> ('s, 'a) sres" where
  "liftS r s = (s, r)"

definition readS :: "('s \<Rightarrow> 'a) \<Rightarrow> ('s, 'a) sres" where
  "readS f s = (s, Inr (f s))"

lemma bindS_Inr [res_simps]:
  "bindS m f s = (s', Inr b) \<longleftrightarrow> (\<exists>s1 a. m s = (s1, Inr a) \<and> f a s1 = (s', Inr b))"
  by (auto simp: bindS_def split: prod.splits sum.splits)

lemma bindS_eval: "m s = (s1, Inr a) \<Longrightarrow> bindS m f s = f a s1"
  "m s = (s1, Inl e) \<Longrightarrow> bindS m f s = (s1, Inl e)"
  by (simp_all add: bindS_def)

lemma retS_Inr [res_simps]: "retS a s = (s', Inr b) \<longleftrightarrow> s' = s \<and> b = a"
  by (auto simp: retS_def)

lemma throwS_Inr [res_simps]: "throwS e s = (s', Inr b) \<longleftrightarrow> False"
  by (auto simp: throwS_def)

lemma throwS_guard [res_simps]:
  "(if b then throwS e else m) s = (s', Inr x) \<longleftrightarrow> \<not> b \<and> m s = (s', Inr x)"
  by (auto simp: throwS_def)

lemma liftS_Inr [res_simps]: "liftS r s = (s', Inr b) \<longleftrightarrow> s' = s \<and> r = Inr b"
  by (auto simp: liftS_def)

lemma readS_Inr [res_simps]: "readS f s = (s', Inr b) \<longleftrightarrow> s' = s \<and> b = f s"
  by (auto simp: readS_def)

text \<open>
  \<^verbatim>\<open>catch (const std::exception& e) { throw std::runtime_error(e.what()); }\<close>. The text of a
  boost exception is not modelled (the empty string stands for it); undefined behaviour is no exception.
\<close>

fun rethrow :: "error \<Rightarrow> error" where
  "rethrow (RuntimeError m) = RuntimeError m"
| "rethrow (OverflowError m) = RuntimeError m"
| "rethrow (UnderflowError m) = RuntimeError m"
| "rethrow (DomainError m) = RuntimeError m"
| "rethrow (OutOfRange m) = RuntimeError m"
| "rethrow (InvalidArgument m) = RuntimeError m"
| "rethrow NumericError = RuntimeError []"
| "rethrow UndefinedBehaviour = UndefinedBehaviour"

section \<open>Spans\<close>

text \<open>
  \<^verbatim>\<open>std::span::subspan\<close>, indexing and iterator ranges are defined only inside the span.
\<close>

definition subspan :: "'a list \<Rightarrow> nat \<Rightarrow> nat \<Rightarrow> 'a list res" where
  "subspan xs off cnt =
     (if off + cnt \<le> length xs then Inr (take cnt (drop off xs)) else Inl UndefinedBehaviour)"

definition subspan_from :: "'a list \<Rightarrow> nat \<Rightarrow> 'a list res" where
  "subspan_from xs off =
     (if off \<le> length xs then Inr (drop off xs) else Inl UndefinedBehaviour)"

definition at_idx :: "'a list \<Rightarrow> nat \<Rightarrow> 'a res" where
  "at_idx xs i = (if i < length xs then Inr (xs ! i) else Inl UndefinedBehaviour)"

lemma subspan_eq_Inr [res_simps]:
  "subspan xs off cnt = Inr ys \<longleftrightarrow> off + cnt \<le> length xs \<and> ys = take cnt (drop off xs)"
  by (auto simp: subspan_def)

lemma subspan_from_eq_Inr [res_simps]:
  "subspan_from xs off = Inr ys \<longleftrightarrow> off \<le> length xs \<and> ys = drop off xs"
  by (auto simp: subspan_from_def)

lemma at_idx_eq_Inr [res_simps]: "at_idx xs i = Inr x \<longleftrightarrow> i < length xs \<and> x = xs ! i"
  by (auto simp: at_idx_def)

lemma subspan_append:
  "length xs = off \<Longrightarrow> length ys = cnt \<Longrightarrow> subspan (xs @ ys @ zs) off cnt = Inr ys"
  by (auto simp: subspan_def)

lemma at_idx_append: "length xs = i \<Longrightarrow> at_idx (xs @ y # zs) i = Inr y"
  by (auto simp: at_idx_def)

lemma length_subspan: "subspan xs off cnt = Inr ys \<Longrightarrow> length ys = cnt"
  by (auto simp: res_simps)

section \<open>Words\<close>

text \<open>The largest value of a width, \<^verbatim>\<open>std::numeric_limits<T>::max()\<close>.\<close>

definition max_of :: "'n::len word" where
  "max_of = - 1"

lemma unat_max_of: "unat (max_of :: 'n::len word) = 2 ^ LENGTH('n) - 1"
  by (simp add: max_of_def unsigned_minus_1_eq_mask mask_eq_exp_minus_1)

lemma le_max_of [simp]: "x \<le> max_of"
  by (simp add: max_of_def)

lemma unat_max_minus: "unat (max_of - x) = 2 ^ LENGTH('n) - 1 - unat x" for x :: "'n::len word"
  by (simp add: unat_sub unat_max_of)

lemma unat_add_no_wrap:
  "unat x + unat y < 2 ^ LENGTH('n) \<Longrightarrow> unat (x + y) = unat x + unat y" for x y :: "'n::len word"
  by (simp add: unat_word_ariths)

lemma unat_mult_no_wrap:
  "unat x * unat y < 2 ^ LENGTH('n) \<Longrightarrow> unat (x * y) = unat x * unat y" for x y :: "'n::len word"
  by (simp add: unat_word_ariths)

lemma unat_of_nat_eq: "n < 2 ^ LENGTH('n) \<Longrightarrow> unat (of_nat n :: 'n::len word) = n"
  by (simp add: unat_of_nat)

lemma unat_bound: "unat x < 2 ^ LENGTH('n)" for x :: "'n::len word"
  by (rule unsigned_less)

text \<open>The guard \<^verbatim>\<open>a > max - b\<close> is exactly overflow of the unsigned sum.\<close>

lemma add_guard: "max_of - y < x \<longleftrightarrow> 2 ^ LENGTH('n) \<le> unat x + unat y" for x y :: "'n::len word"
proof -
  have "max_of - y < x \<longleftrightarrow> 2 ^ LENGTH('n) - 1 - unat y < unat x"
    by (simp add: word_less_nat_alt unat_max_minus)
  also have "\<dots> \<longleftrightarrow> 2 ^ LENGTH('n) \<le> unat x + unat y"
    using unat_bound [of y] by linarith
  finally show ?thesis .
qed

text \<open>The guard \<^verbatim>\<open>a > max / b\<close> is, for nonzero \<open>b\<close>, exactly overflow of the product.\<close>

lemma mult_guard:
  fixes x y :: "'n::len word"
  assumes "y \<noteq> 0"
  shows "max_of div y < x \<longleftrightarrow> 2 ^ LENGTH('n) \<le> unat x * unat y"
proof -
  have pos: "0 < unat y" using assms by (simp add: unat_gt_0)
  have "max_of div y < x \<longleftrightarrow> (2 ^ LENGTH('n) - 1) div unat y < unat x"
    by (simp add: word_less_nat_alt unat_div unat_max_of)
  also have "\<dots> \<longleftrightarrow> 2 ^ LENGTH('n) - 1 < unat x * unat y"
    using pos by (simp add: div_less_iff_less_mult)
  also have "\<dots> \<longleftrightarrow> 2 ^ LENGTH('n) \<le> unat x * unat y"
    by (simp add: Suc_le_eq [symmetric] Suc_diff_1)
  finally show ?thesis .
qed

lemma unat_sub_no_wrap: "y \<le> x \<Longrightarrow> unat (x - y) = unat x - unat y" for x y :: "'n::len word"
  by (rule unat_sub)

section \<open>Checked fixed-precision arithmetic\<close>

text \<open>
  The operators of the checked fixed-width integers (\<^verbatim>\<open>uint112_t\<close> to \<^verbatim>\<open>uint256_t\<close>): the exact
  result when it is representable, an exception otherwise; division by zero throws.
\<close>

definition checked_add :: "'n::len word \<Rightarrow> 'n word \<Rightarrow> 'n word res" where
  "checked_add x y = (if unat x + unat y < 2 ^ LENGTH('n) then Inr (x + y) else Inl NumericError)"

definition checked_sub :: "'n::len word \<Rightarrow> 'n word \<Rightarrow> 'n word res" where
  "checked_sub x y = (if y \<le> x then Inr (x - y) else Inl NumericError)"

definition checked_mult :: "'n::len word \<Rightarrow> 'n word \<Rightarrow> 'n word res" where
  "checked_mult x y = (if unat x * unat y < 2 ^ LENGTH('n) then Inr (x * y) else Inl NumericError)"

definition checked_div :: "'n::len word \<Rightarrow> 'n word \<Rightarrow> 'n word res" where
  "checked_div x y = (if y = 0 then Inl NumericError else Inr (x div y))"

text \<open>Explicit conversion to a narrower checked type throws when the value does not fit.\<close>

definition checked_conv :: "'m::len word \<Rightarrow> 'n::len word res" where
  "checked_conv x = (if unat x < 2 ^ LENGTH('n) then Inr (ucast x) else Inl NumericError)"

lemma checked_add_Inr [res_simps]:
  "checked_add x y = Inr z \<longleftrightarrow> unat x + unat y < 2 ^ LENGTH('n) \<and> z = x + y"
  for x y :: "'n::len word"
  by (auto simp: checked_add_def)

lemma checked_sub_Inr [res_simps]: "checked_sub x y = Inr z \<longleftrightarrow> y \<le> x \<and> z = x - y"
  by (auto simp: checked_sub_def)

lemma checked_mult_Inr [res_simps]:
  "checked_mult x y = Inr z \<longleftrightarrow> unat x * unat y < 2 ^ LENGTH('n) \<and> z = x * y"
  for x y :: "'n::len word"
  by (auto simp: checked_mult_def)

lemma checked_div_Inr [res_simps]: "checked_div x y = Inr z \<longleftrightarrow> y \<noteq> 0 \<and> z = x div y"
  by (auto simp: checked_div_def)

lemma checked_conv_Inr [res_simps]:
  "(checked_conv x :: 'n::len word res) = Inr z \<longleftrightarrow> unat x < 2 ^ LENGTH('n) \<and> z = ucast x"
  by (auto simp: checked_conv_def)

lemma checked_unat:
  "checked_add x y = Inr z \<Longrightarrow> unat z = unat x + unat y"
  "checked_sub x y = Inr z \<Longrightarrow> unat z = unat x - unat y"
  "checked_mult x y = Inr z \<Longrightarrow> unat z = unat x * unat y"
  "checked_div x y = Inr z \<Longrightarrow> unat z = unat x div unat y"
  by (auto simp: res_simps unat_add_no_wrap unat_mult_no_wrap unat_sub unat_div)

lemma checked_conv_unat: "(checked_conv x :: 'n::len word res) = Inr z \<Longrightarrow> unat z = unat x"
  by (auto simp: res_simps unsigned_ucast_eq take_bit_eq_mod)

end
