(* ===== verification/Utils.thy ===== *)
theory Utils
  imports Prelude
begin

unbundle bit_operations_syntax

text \<open>
  The byte conversions of \<^verbatim>\<open>utils/utils.cpp\<close> and \<^verbatim>\<open>utils/utils.h\<close>: big-endian encodings of the
  integer types at fixed width and without padding, their decoders, and byte padding. The
  specification of all of them is \<open>be_val\<close>, the number a byte string denotes in base 256.
\<close>

section \<open>Definitions\<close>

subsection \<open>Templates of utils.h\<close>

text \<open>\<open>fromBigEndian\<close> at a built-in unsigned type: the shift drops the high bits.\<close>

definition fromBigEndian :: "bytes \<Rightarrow> 'n::len word" where
  "fromBigEndian bs = foldl (\<lambda>ret i. push_bit 8 ret OR ucast i) 0 bs"

text \<open>
  \<open>fromBigEndian\<close> at a checked fixed-precision type: a shift that would drop bits throws.
\<close>

fun fromBigEndian_loop :: "'n::len word \<Rightarrow> bytes \<Rightarrow> 'n word res" where
  "fromBigEndian_loop ret [] = Inr ret"
| "fromBigEndian_loop ret (i # is) =
     (if unat ret * 256 < 2 ^ LENGTH('n) then fromBigEndian_loop (push_bit 8 ret OR ucast i) is
      else Inl NumericError)"

definition fromBigEndian_checked :: "bytes \<Rightarrow> 'n::len word res" where
  "fromBigEndian_checked bs = fromBigEndian_loop 0 bs"

lemma unat_drop_bit_8: "unat (drop_bit 8 i) = unat i div 256" for i :: "'n::len word"
  unfolding unsigned_drop_bit_eq by (simp add: drop_bit_eq_div take_bit_nat_eq_self)

lemma drop_bit_8_less: "i \<noteq> 0 \<Longrightarrow> unat (drop_bit 8 i) < unat i" for i :: "'n::len word"
  unfolding unat_drop_bit_8 by (simp add: unat_gt_0)

function bytesRequired :: "'n::len word \<Rightarrow> nat" where
  "bytesRequired i = (if i \<noteq> 0 then Suc (bytesRequired (drop_bit 8 i)) else 0)"
  by pat_completeness auto
termination by (relation "measure unat") (simp_all add: drop_bit_8_less)

text \<open>
  \<open>uintToBytes\<close> writes the low byte at the end of a vector of \<open>bytesRequired i\<close> bytes and moves
  backwards; \<open>pos\<close> is one past the pointer of the source. For \<open>i = 0\<close> the vector is empty and the loop does not
  run (the source still forms a pointer to \<^verbatim>\<open>ret.back()\<close>, which it never dereferences).
\<close>

function uintToBytes_loop :: "bytes \<Rightarrow> nat \<Rightarrow> 'n::len word \<Rightarrow> bytes" where
  "uintToBytes_loop ret pos i =
     (if i \<noteq> 0 then uintToBytes_loop (ret[pos - 1 := ucast (i AND 255)]) (pos - 1) (drop_bit 8 i)
      else ret)"
  by pat_completeness auto
termination by (relation "measure (\<lambda>(_, _, i). unat i)") (simp_all add: drop_bit_8_less)

definition uintToBytes :: "'n::len word \<Rightarrow> bytes" where
  "uintToBytes i =
     (let ret = replicate (bytesRequired i) 0 in uintToBytes_loop ret (length ret) i)"

declare bytesRequired.simps [simp del] uintToBytes_loop.simps [simp del]

definition appendBytes :: "bytes \<Rightarrow> bytes \<Rightarrow> bytes" where
  "appendBytes vec bs = vec @ bs"

definition create_view_span :: "bytes \<Rightarrow> nat \<Rightarrow> nat \<Rightarrow> bytes res" where
  "create_view_span str start sz =
     (if length str < start + sz then Inl (RuntimeError ''Invalid range for span'')
      else Inr (take sz (drop start str)))"

subsection \<open>Fixed-precision integers\<close>

text \<open>
  \<^verbatim>\<open>boost::multiprecision::export_bits\<close> at chunks of eight bits, most significant first (zero is
  one chunk), and \<^verbatim>\<open>import_bits\<close>.
\<close>

definition export_bits :: "'n::len word \<Rightarrow> bytes" where
  "export_bits i = (if i = 0 then [0] else uintToBytes i)"

definition import_bits :: "bytes \<Rightarrow> 'n::len word" where
  "import_bits bs = fromBigEndian bs"

text \<open>
  The copy loop shared by the encoders: \<open>tmp\<close> is written right-aligned over \<open>ret\<close>.
\<close>

definition right_align :: "bytes \<Rightarrow> bytes \<Rightarrow> bytes" where
  "right_align ret tmp =
     foldl (\<lambda>r ii. r[length ret - 1 - ii := tmp ! (length tmp - ii - 1)]) ret [0..<length tmp]"

definition uint256ToBytes :: "uint256 \<Rightarrow> bytes" where
  "uint256ToBytes i = right_align (replicate 32 0x00) (export_bits i)"

definition bytesToUint256 :: "bytes \<Rightarrow> uint256 res" where
  "bytesToUint256 b = (if length b \<noteq> 32 then Inl (RuntimeError ''bytesToUint256: Invalid bytes size'')
     else Inr (import_bits b))"

text \<open>
  \<open>uint128ToBytes\<close> and \<open>uint112ToBytes\<close> do not fill the array before the copy loop: \<open>ret\<close> is
  the indeterminate content of the uninitialised array, an argument of the model.
\<close>

definition uint128ToBytes :: "bytes \<Rightarrow> uint128 \<Rightarrow> bytes" where
  "uint128ToBytes ret i = right_align ret (export_bits i)"

definition bytesToUint128 :: "bytes \<Rightarrow> uint128 res" where
  "bytesToUint128 b = (if length b \<noteq> 16 then Inl (RuntimeError ''bytesToUint128: Invalid bytes size'')
     else Inr (import_bits b))"

definition uint112ToBytes :: "bytes \<Rightarrow> uint112 \<Rightarrow> bytes" where
  "uint112ToBytes ret i = right_align ret (export_bits i)"

definition bytesToUint112 :: "bytes \<Rightarrow> uint112 res" where
  "bytesToUint112 b = (if length b \<noteq> 14 then Inl (RuntimeError ''bytesToUint112: Invalid bytes size'')
     else Inr (import_bits b))"

definition uint160ToBytes :: "uint160 \<Rightarrow> bytes" where
  "uint160ToBytes i = right_align (replicate 20 0x00) (export_bits i)"

definition bytesToUint160 :: "bytes \<Rightarrow> uint160 res" where
  "bytesToUint160 b = (if length b \<noteq> 20 then Inl (RuntimeError ''bytesToUint160: Invalid bytes size'')
     else Inr (import_bits b))"

subsection \<open>Built-in integers\<close>

text \<open>
  The object representation of an integer on the little-endian hosts the build targets, read and
  written by \<^verbatim>\<open>std::memcpy\<close>, and the compiler's byte swap.
\<close>

definition memcpy_to :: "nat \<Rightarrow> 'n::len word \<Rightarrow> bytes" where
  "memcpy_to n i = map (\<lambda>k. ucast (drop_bit (8 * k) i)) [0..<n]"

definition memcpy_from :: "bytes \<Rightarrow> 'n::len word" where
  "memcpy_from bs = foldr (\<lambda>b r. push_bit 8 r OR ucast b) bs 0"

definition bswap :: "nat \<Rightarrow> 'n::len word \<Rightarrow> 'n word" where
  "bswap n w = memcpy_from (rev (memcpy_to n w))"

definition uint64ToBytes :: "uint64 \<Rightarrow> bytes" where
  "uint64ToBytes i = rev (memcpy_to 8 i)"

definition bytesToUint64 :: "bytes \<Rightarrow> uint64 res" where
  "bytesToUint64 b = (if length b \<noteq> 8 then Inl (RuntimeError ''bytesToUint64: Invalid bytes size'')
     else Inr (bswap 8 (memcpy_from b)))"

definition uint32ToBytes :: "uint32 \<Rightarrow> bytes" where
  "uint32ToBytes i = rev (memcpy_to 4 i)"

definition bytesToUint32 :: "bytes \<Rightarrow> uint32 res" where
  "bytesToUint32 b = (if length b \<noteq> 4 then Inl (RuntimeError ''bytesToUint32: Invalid bytes size'')
     else Inr (bswap 4 (memcpy_from b)))"

definition uint16ToBytes :: "uint16 \<Rightarrow> bytes" where
  "uint16ToBytes i = rev (memcpy_to 2 i)"

definition bytesToUint16 :: "bytes \<Rightarrow> uint16 res" where
  "bytesToUint16 b = (if length b \<noteq> 2 then Inl (RuntimeError ''bytesToUint16: Invalid bytes size'')
     else Inr (bswap 2 (memcpy_from b)))"

definition uint8ToBytes :: "uint8 \<Rightarrow> bytes" where
  "uint8ToBytes i = memcpy_to 1 i"

definition bytesToUint8 :: "bytes \<Rightarrow> uint8 res" where
  "bytesToUint8 b = (if length b \<noteq> 1 then Inl (RuntimeError ''bytesToUint8: Invalid bytes size'')
     else Inr (b ! 0))"

subsection \<open>Padding\<close>

definition padLeftBytes :: "bytes \<Rightarrow> nat \<Rightarrow> uint8 \<Rightarrow> bytes" where
  "padLeftBytes bs charAmount sign =
     (let padding = (if charAmount > length bs then charAmount - length bs else 0);
          padded = (if padding \<noteq> 0 then replicate padding sign else [])
      in padded @ bs)"

definition padRightBytes :: "bytes \<Rightarrow> nat \<Rightarrow> uint8 \<Rightarrow> bytes" where
  "padRightBytes bs charAmount sign =
     (let padding = (if charAmount > length bs then charAmount - length bs else 0);
          padded = (if padding \<noteq> 0 then replicate padding sign else [])
      in bs @ padded)"

definition hasPrefix0x :: "string \<Rightarrow> bool" where
  "hasPrefix0x str \<longleftrightarrow> take 2 str = ''0x'' \<or> take 2 str = ''0X''"

definition padLeft :: "string \<Rightarrow> nat \<Rightarrow> char \<Rightarrow> string" where
  "padLeft str charAmount sign =
     (let hasPrefix = hasPrefix0x str;
          str' = (if hasPrefix then drop 2 str else str);
          padding = (if charAmount > length str' then charAmount - length str' else 0);
          padded = (if padding \<noteq> 0 then replicate padding sign else [])
      in (if hasPrefix then ''0x'' else []) @ padded @ str')"

definition padRight :: "string \<Rightarrow> nat \<Rightarrow> char \<Rightarrow> string" where
  "padRight str charAmount sign =
     (let hasPrefix = hasPrefix0x str;
          str' = (if hasPrefix then drop 2 str else str);
          padding = (if charAmount > length str' then charAmount - length str' else 0);
          padded = (if padding \<noteq> 0 then replicate padding sign else [])
      in (if hasPrefix then ''0x'' else []) @ str' @ padded)"

section \<open>Specification: the number denoted by a byte string\<close>

definition be_val :: "bytes \<Rightarrow> nat" where
  "be_val bs = foldl (\<lambda>a b. a * 256 + unat b) 0 bs"

lemma be_val_Nil [simp]: "be_val [] = 0"
  by (simp add: be_val_def)

lemma be_val_snoc [simp]: "be_val (bs @ [b]) = be_val bs * 256 + unat b"
  by (simp add: be_val_def)

lemma be_val_append: "be_val (xs @ ys) = be_val xs * 256 ^ length ys + be_val ys"
proof (induction ys rule: rev_induct)
  case (snoc y ys)
  have "be_val (xs @ ys @ [y]) = be_val ((xs @ ys) @ [y])" by simp
  also have "\<dots> = be_val (xs @ ys) * 256 + unat y" by (rule be_val_snoc)
  finally show ?case using snoc.IH by (simp add: algebra_simps)
qed simp

lemma be_val_single [simp]: "be_val [b] = unat b"
  by (simp add: be_val_def)

lemma be_val_Cons: "be_val (b # bs) = unat b * 256 ^ length bs + be_val bs"
  using be_val_append [of "[b]" bs] by simp

lemma be_val_replicate_0 [simp]: "be_val (replicate n 0) = 0"
  by (induction n) (simp_all add: be_val_Cons)

lemma byte_bound: "unat (b :: byte) < 256"
  using unsigned_less [of b] by simp

lemma be_val_bound: "be_val bs < 256 ^ length bs"
proof (induction bs rule: rev_induct)
  case (snoc b bs)
  then show ?case using byte_bound [of b] by simp
qed simp

lemma be_val_inj: "length xs = length ys \<Longrightarrow> be_val xs = be_val ys \<Longrightarrow> xs = ys"
proof (induction xs arbitrary: ys rule: rev_induct)
  case (snoc x xs)
  obtain zs z where ys: "ys = zs @ [z]" using snoc.prems(1) by (cases ys rule: rev_cases) auto
  have eq: "be_val xs * 256 + unat x = be_val zs * 256 + unat z"
    using snoc.prems(2) ys by simp
  have "unat x = (be_val xs * 256 + unat x) mod 256" using byte_bound [of x] by simp
  also have "\<dots> = unat z" using byte_bound [of z] by (simp add: eq)
  finally have "x = z" by (simp add: word_unat_eq_iff)
  moreover have "be_val xs = be_val zs" using eq \<open>x = z\<close> by simp
  ultimately show ?case using snoc.IH [of zs] snoc.prems(1) ys by simp
qed simp

section \<open>The templates denote big-endian numbers\<close>

lemma shift_or_byte: "push_bit 8 r OR ucast b = r * 256 + of_nat (unat b)"
  for r :: "'n::len word" and b :: byte
proof -
  have "push_bit 8 r AND ucast b = 0"
    by (rule bit_word_eqI) (auto simp: bit_simps dest: bit_imp_le_length)
  then have "push_bit 8 r OR ucast b = push_bit 8 r + ucast b"
    by (simp add: disjunctive_add_eq_or)
  then show ?thesis by (simp add: push_bit_eq_mult mult.commute)
qed

lemma fromBigEndian_Nil [simp]: "fromBigEndian [] = 0"
  by (simp add: fromBigEndian_def)

lemma fromBigEndian_of_nat: "fromBigEndian bs = (of_nat (be_val bs) :: 'n::len word)"
proof (induction bs rule: rev_induct)
  case (snoc b bs)
  have "fromBigEndian (bs @ [b]) = push_bit 8 (fromBigEndian bs :: 'n word) OR ucast b"
    by (simp add: fromBigEndian_def)
  also have "\<dots> = of_nat (be_val (bs @ [b]))"
    by (simp add: snoc.IH shift_or_byte)
  finally show ?case .
qed simp

lemma unat_fromBigEndian: "unat (fromBigEndian bs :: 'n::len word) = be_val bs mod 2 ^ LENGTH('n)"
  by (simp add: fromBigEndian_of_nat unat_of_nat)

lemma fromBigEndian_loop_spec:
  fixes ret :: "'n::len word"
  assumes "8 \<le> LENGTH('n)"
  shows "fromBigEndian_loop ret bs =
    (if unat ret * 256 ^ length bs + be_val bs < 2 ^ LENGTH('n)
     then Inr (of_nat (unat ret * 256 ^ length bs + be_val bs)) else Inl NumericError)"
proof (induction bs arbitrary: ret)
  case (Cons b bs)
  let ?r = "push_bit 8 ret OR ucast b"
  show ?case
  proof (cases "unat ret * 256 < 2 ^ LENGTH('n)")
    case True
    obtain k where k: "LENGTH('n) = 8 + k" using le_Suc_ex [OF assms] by blast
    have "unat ret < 2 ^ k" using True by (simp add: k power_add)
    then have "unat ret * 256 + unat b < 2 ^ LENGTH('n)"
      using byte_bound [of b] by (simp add: k power_add)
    moreover have "?r = of_nat (unat ret * 256 + unat b)" by (simp add: shift_or_byte)
    ultimately have "unat ?r = unat ret * 256 + unat b" by (simp only: unat_of_nat mod_less)
    then show ?thesis using Cons.IH [of ?r] True
      by (simp add: be_val_Cons algebra_simps)
  next
    case False
    have "2 ^ LENGTH('n) \<le> unat ret * 256 * 256 ^ length bs"
      using False mult_le_mono [of "2 ^ LENGTH('n)" "unat ret * 256" 1 "256 ^ length bs"] by simp
    then show ?thesis using False by (simp add: algebra_simps)
  qed
qed (simp add: unat_bound)

lemma fromBigEndian_checked_spec:
  assumes "8 \<le> LENGTH('n::len)"
  shows "(fromBigEndian_checked bs :: 'n word res) =
    (if be_val bs < 2 ^ LENGTH('n) then Inr (of_nat (be_val bs)) else Inl NumericError)"
  using fromBigEndian_loop_spec [OF assms, of 0 bs] by (simp add: fromBigEndian_checked_def)

lemma bytesRequired_0 [simp]: "bytesRequired 0 = 0"
  by (simp add: bytesRequired.simps)

lemma bytesRequired_step: "i \<noteq> 0 \<Longrightarrow> bytesRequired i = Suc (bytesRequired (drop_bit 8 i))"
  by (subst bytesRequired.simps) simp

lemma bytesRequired_upper: "unat i < 256 ^ bytesRequired i"
proof (induction i rule: bytesRequired.induct)
  case (1 i)
  show ?case
  proof (cases "i = 0")
    case False
    have "unat i div 256 < 256 ^ bytesRequired (drop_bit 8 i)"
      using "1.IH" [OF False] by (simp add: unat_drop_bit_8)
    then show ?thesis by (simp add: bytesRequired_step [OF False] div_less_iff_less_mult mult.commute)
  qed simp
qed

lemma bytesRequired_lower: "i \<noteq> 0 \<Longrightarrow> 256 ^ (bytesRequired i - 1) \<le> unat i"
proof (induction i rule: bytesRequired.induct)
  case (1 i)
  show ?case
  proof (cases "drop_bit 8 i = 0")
    case True
    then show ?thesis using "1.prems" by (simp add: bytesRequired_step unat_gt_0 Suc_leI)
  next
    case False
    have "256 ^ (bytesRequired (drop_bit 8 i) - 1) \<le> unat i div 256"
      using "1.IH" [OF "1.prems" False] by (simp add: unat_drop_bit_8)
    then have "256 ^ (bytesRequired (drop_bit 8 i) - 1) * 256 \<le> unat i"
      using div_times_less_eq_dividend [of "unat i" 256] by linarith
    moreover have "bytesRequired (drop_bit 8 i) = Suc (bytesRequired (drop_bit 8 i) - 1)"
      using bytesRequired_step [OF False] by simp
    ultimately show ?thesis
      using bytesRequired_step [OF "1.prems"] power_Suc2 [of "256::nat" "bytesRequired (drop_bit 8 i) - 1"]
      by simp
  qed
qed

lemma bytesRequired_le: "unat i < 256 ^ n \<Longrightarrow> bytesRequired i \<le> n"
proof (rule ccontr)
  assume "unat i < 256 ^ n" "\<not> bytesRequired i \<le> n"
  then have "i \<noteq> 0" "(256::nat) ^ n \<le> 256 ^ (bytesRequired i - 1)" by (auto intro: power_increasing)
  then show False using bytesRequired_lower [of i] \<open>unat i < 256 ^ n\<close> by linarith
qed

lemma uintToBytes_loop_spec:
  assumes "pos = bytesRequired i" "length (xs :: bytes) = pos"
  shows "\<exists>ds. uintToBytes_loop (xs @ ys) pos i = ds @ ys \<and> length ds = pos \<and> be_val ds = unat i"
  using assms
proof (induction i arbitrary: xs ys pos rule: bytesRequired.induct)
  case (1 i)
  show ?case
  proof (cases "i = 0")
    case True
    then show ?thesis using "1.prems" by (simp add: uintToBytes_loop.simps)
  next
    case False
    define b :: byte where "b = ucast (i AND 255)"
    obtain zs z where xs: "xs = zs @ [z]" and len: "length zs = bytesRequired (drop_bit 8 i)"
      using "1.prems" bytesRequired_step [OF False] by (cases xs rule: rev_cases) auto
    have pos: "pos = Suc (length zs)" using "1.prems" xs by simp
    have step: "uintToBytes_loop (xs @ ys) pos i = uintToBytes_loop (zs @ b # ys) (length zs) (drop_bit 8 i)"
      using False by (subst uintToBytes_loop.simps) (simp add: pos xs b_def list_update_append)
    obtain ds where ds: "uintToBytes_loop (zs @ b # ys) (length zs) (drop_bit 8 i) = ds @ b # ys"
      "length ds = length zs" "be_val ds = unat i div 256"
      using "1.IH" [OF False len refl, of "b # ys"] len unat_drop_bit_8 [of i] by auto
    have "i AND 255 = take_bit 8 i" by (simp add: take_bit_eq_mask mask_eq_exp_minus_1)
    then have "unat b = unat (ucast (take_bit 8 i) :: byte)" by (simp only: b_def)
    also have "\<dots> = unat i mod 256"
      unfolding unsigned_ucast_eq unsigned_take_bit_eq by (simp add: take_bit_eq_mod)
    finally have "unat b = unat i mod 256" .
    then have "be_val (ds @ [b]) = unat i" using ds(3) by simp
    then show ?thesis using step ds xs "1.prems" by (intro exI [of _ "ds @ [b]"]) simp
  qed
qed

lemma length_uintToBytes [simp]: "length (uintToBytes i) = bytesRequired i"
  and be_val_uintToBytes [simp]: "be_val (uintToBytes i) = unat i"
  using uintToBytes_loop_spec [of "bytesRequired i" i "replicate (bytesRequired i) 0" "[]"]
  by (auto simp: uintToBytes_def)

lemma uintToBytes_0 [simp]: "uintToBytes 0 = []"
  by (simp flip: length_0_conv)

lemma uintToBytes_Nil_iff [simp]: "uintToBytes i = [] \<longleftrightarrow> i = 0"
  using be_val_uintToBytes [of i] by (auto simp del: be_val_uintToBytes simp: unat_eq_zero)

lemma uintToBytes_no_leading_zero: "i \<noteq> 0 \<Longrightarrow> hd (uintToBytes i) \<noteq> 0"
proof
  assume i: "i \<noteq> 0" and "hd (uintToBytes i) = 0"
  then obtain bs where bs: "uintToBytes i = 0 # bs" by (cases "uintToBytes i") auto
  have len: "bytesRequired i - 1 = length bs"
    using length_uintToBytes [of i] by (simp add: bs del: length_uintToBytes)
  have "be_val bs = unat i"
    using be_val_uintToBytes [of i] by (simp add: bs be_val_Cons del: be_val_uintToBytes)
  then have "unat i < 256 ^ (bytesRequired i - 1)"
    using be_val_bound [of bs] by (simp only: len)
  then show False using bytesRequired_lower [OF i] by simp
qed

section \<open>Fixed-width encoders and decoders\<close>

lemma right_align_loop:
  assumes "k \<le> length tmp" "length tmp \<le> length ret"
  shows "foldl (\<lambda>r ii. r[length ret - 1 - ii := tmp ! (length tmp - ii - 1)]) ret [0..<k]
    = take (length ret - k) ret @ drop (length tmp - k) tmp"
  using assms(1)
proof (induction k)
  case (Suc k)
  let ?n = "length ret - Suc k" and ?m = "length tmp - Suc k"
  have n: "length ret - k = Suc ?n" "length ret - 1 - k = ?n" "length tmp - k - 1 = ?m"
    using Suc.prems assms(2) by auto
  have "take (Suc ?n) ret = take ?n ret @ [ret ! ?n]"
    using Suc.prems assms(2) by (simp add: take_Suc_conv_app_nth)
  moreover have "drop ?m tmp = tmp ! ?m # drop (length tmp - k) tmp"
    using Suc.prems by (subst Cons_nth_drop_Suc [symmetric]) (simp_all add: Suc_diff_Suc)
  ultimately show ?case using Suc.IH Suc.prems assms(2) by (simp add: n list_update_append)
qed simp

lemma right_align_eq:
  "length tmp \<le> length ret \<Longrightarrow> right_align ret tmp = take (length ret - length tmp) ret @ tmp"
  using right_align_loop [of "length tmp" tmp ret] by (simp add: right_align_def)

lemma be_val_export_bits [simp]: "be_val (export_bits i) = unat i"
  by (simp add: export_bits_def)

lemma length_export_bits: "unat i < 256 ^ n \<Longrightarrow> 0 < n \<Longrightarrow> length (export_bits i) \<le> n"
  by (simp add: export_bits_def bytesRequired_le)

lemma right_align_export:
  assumes "unat i < 256 ^ length ret" "ret \<noteq> []"
  shows "length (right_align ret (export_bits i)) = length ret"
    and "right_align ret (export_bits i)
          = take (length ret - length (export_bits i)) ret @ export_bits i"
  using length_export_bits [OF assms(1)] assms(2) by (simp_all add: right_align_eq)

lemma be_val_right_align_zero:
  "unat i < 256 ^ n \<Longrightarrow> 0 < n \<Longrightarrow> be_val (right_align (replicate n 0) (export_bits i)) = unat i"
  using right_align_export(2) [of i "replicate n 0"] by (simp add: be_val_append)

lemma import_bits_eq: "import_bits bs = of_nat (be_val bs)"
  by (simp add: import_bits_def fromBigEndian_of_nat)

lemma memcpy_from_eq: "memcpy_from bs = of_nat (be_val (rev bs))"
  by (simp add: memcpy_from_def foldr_conv_foldl fromBigEndian_def [symmetric] fromBigEndian_of_nat)

lemma length_memcpy_to [simp]: "length (memcpy_to n i) = n"
  by (simp add: memcpy_to_def)

lemma be_val_rev_memcpy_to: "be_val (rev (memcpy_to n i)) = unat i mod 256 ^ n"
proof (induction n)
  case (Suc n)
  have "rev (memcpy_to (Suc n) i) = ucast (drop_bit (8 * n) i) # rev (memcpy_to n i)"
    by (simp add: memcpy_to_def)
  moreover have "unat (ucast (drop_bit (8 * n) i) :: byte) = unat i div 256 ^ n mod 256"
    unfolding unsigned_ucast_eq unsigned_drop_bit_eq
    by (simp add: take_bit_nat_eq_self) (simp add: take_bit_eq_mod drop_bit_eq_div power_mult)
  ultimately show ?case
    using Suc.IH by (simp add: be_val_Cons mod_mult2_eq mult.commute [of 256])
qed (simp add: memcpy_to_def)

lemma rev_memcpy_to_of_be_val:
  assumes "length bs = n" "8 * n \<le> LENGTH('n::len)"
  shows "rev (memcpy_to n (of_nat (be_val bs) :: 'n word)) = bs"
proof (rule be_val_inj)
  have "(256::nat) ^ n = 2 ^ (8 * n)" by (simp add: power_mult)
  then have "be_val bs < 2 ^ LENGTH('n)"
    using be_val_bound [of bs] assms power_increasing [of "8 * n" "LENGTH('n)" "2::nat"]
    by (simp del: power_increasing_iff)
  then show "be_val (rev (memcpy_to n (of_nat (be_val bs) :: 'n word))) = be_val bs"
    using be_val_bound [of bs] assms(1) by (simp add: be_val_rev_memcpy_to unat_of_nat)
qed (simp add: assms)

lemma bswap_memcpy_from:
  assumes "length bs = n" "8 * n \<le> LENGTH('n::len)"
  shows "bswap n (memcpy_from bs :: 'n word) = of_nat (be_val bs)"
proof -
  have "rev (memcpy_to n (memcpy_from bs :: 'n word)) = rev bs"
    unfolding memcpy_from_eq using assms by (intro rev_memcpy_to_of_be_val) simp_all
  then show ?thesis by (simp add: bswap_def memcpy_from_eq)
qed

section \<open>The contract of a fixed-width codec\<close>

text \<open>
  What the callers of an encoder and its decoder rely on: every value has one encoding of the
  given width, every string of that width is the encoding of its value, and any other length
  throws.
\<close>

locale fixed_codec =
  fixes enc :: "'a \<Rightarrow> bytes" and dec :: "bytes \<Rightarrow> 'a res" and width :: nat
  assumes enc_length: "length (enc x) = width"
    and dec_enc: "dec (enc x) = Inr x"
    and dec_total: "length b = width \<Longrightarrow> \<exists>x. dec b = Inr x \<and> enc x = b"
    and dec_wrong_length: "length b \<noteq> width \<Longrightarrow> \<exists>m. dec b = Inl (RuntimeError m)"
begin

lemma enc_inj: "enc x = enc y \<longleftrightarrow> x = y"
  using dec_enc [of x] dec_enc [of y] by (metis Inr_inject)

lemma dec_ok_iff: "dec b = Inr x \<longleftrightarrow> b = enc x"
proof
  assume *: "dec b = Inr x"
  have "length b = width"
  proof (rule ccontr)
    assume "length b \<noteq> width"
    then show False using dec_wrong_length [of b] * by simp
  qed
  then obtain y where "dec b = Inr y" "enc y = b" using dec_total [of b] by blast
  then show "b = enc x" using * by simp
qed (simp add: dec_enc)

lemma dec_field: "length pre = off \<Longrightarrow> bindR (subspan (pre @ enc x @ post) off width) dec = Inr x"
  by (simp add: subspan_append enc_length dec_enc)

end

lemma fixed_codec_right_align:
  assumes "LENGTH('n::len) = 8 * n" "0 < n"
    and enc: "\<And>i. enc i = right_align (replicate n 0) (export_bits (i :: 'n word))"
    and dec: "\<And>b. dec b = (if length b \<noteq> n then Inl (RuntimeError m) else Inr (import_bits b))"
  shows "fixed_codec enc dec n"
proof
  have pow: "(256::nat) ^ n = 2 ^ LENGTH('n)" by (simp add: assms power_mult)
  fix x :: "'n word" and b :: bytes
  have x: "unat x < 256 ^ n" using unat_bound [of x] by (simp only: pow)
  show len: "length (enc x) = n"
    using right_align_export(1) [of x "replicate n 0"] x assms(2) by (simp add: enc)
  have "be_val (enc x) = unat x" using be_val_right_align_zero [OF x assms(2)] by (simp add: enc)
  then show "dec (enc x) = Inr x" using len by (simp add: dec import_bits_eq)
  show "\<exists>m. dec b = Inl (RuntimeError m)" if "length b \<noteq> n" using that by (simp add: dec)
  show "\<exists>y. dec b = Inr y \<and> enc y = b" if b: "length b = n"
  proof -
    let ?y = "of_nat (be_val b) :: 'n word"
    have y: "unat ?y = be_val b" using be_val_bound [of b] by (simp add: b pow unat_of_nat)
    then have "unat ?y < 256 ^ n" using be_val_bound [of b] by (simp add: b)
    then have "enc ?y = b"
      using be_val_right_align_zero [of ?y n] right_align_export(1) [of ?y "replicate n 0"] assms(2) b y
      by (intro be_val_inj) (simp_all add: enc)
    then show ?thesis using b by (simp add: dec import_bits_eq)
  qed
qed

lemma fixed_codec_memcpy:
  assumes "LENGTH('n::len) = 8 * n"
    and enc: "\<And>i. enc i = rev (memcpy_to n (i :: 'n word))"
    and dec: "\<And>b. dec b = (if length b \<noteq> n then Inl (RuntimeError m) else Inr (bswap n (memcpy_from b)))"
  shows "fixed_codec enc dec n"
proof
  have pow: "(256::nat) ^ n = 2 ^ LENGTH('n)" by (simp add: assms power_mult)
  fix x :: "'n word" and b :: bytes
  show len: "length (enc x) = n" by (simp add: enc)
  have "be_val (enc x) = unat x" using unat_bound [of x] by (simp add: enc be_val_rev_memcpy_to pow)
  then show "dec (enc x) = Inr x"
    using bswap_memcpy_from [OF len, where 'n = 'n] len assms(1) by (simp add: dec)
  show "\<exists>m. dec b = Inl (RuntimeError m)" if "length b \<noteq> n" using that by (simp add: dec)
  show "\<exists>y. dec b = Inr y \<and> enc y = b" if b: "length b = n"
    using bswap_memcpy_from [OF b, where 'n = 'n] rev_memcpy_to_of_be_val [OF b, where 'n = 'n] b assms(1)
    by (simp add: dec enc)
qed

interpretation c256: fixed_codec uint256ToBytes bytesToUint256 32
  by (rule fixed_codec_right_align [OF _ _ uint256ToBytes_def bytesToUint256_def]) simp_all

interpretation c160: fixed_codec uint160ToBytes bytesToUint160 20
  by (rule fixed_codec_right_align [OF _ _ uint160ToBytes_def bytesToUint160_def]) simp_all

interpretation c64: fixed_codec uint64ToBytes bytesToUint64 8
  by (rule fixed_codec_memcpy [OF _ uint64ToBytes_def bytesToUint64_def]) simp_all

interpretation c32: fixed_codec uint32ToBytes bytesToUint32 4
  by (rule fixed_codec_memcpy [OF _ uint32ToBytes_def bytesToUint32_def]) simp_all

interpretation c16: fixed_codec uint16ToBytes bytesToUint16 2
  by (rule fixed_codec_memcpy [OF _ uint16ToBytes_def bytesToUint16_def]) simp_all

lemma uint8ToBytes_eq: "uint8ToBytes i = [i]"
  by (simp add: uint8ToBytes_def memcpy_to_def)

interpretation c8: fixed_codec uint8ToBytes bytesToUint8 1
proof
  fix b :: bytes
  show "\<exists>x. bytesToUint8 b = Inr x \<and> uint8ToBytes x = b" if "length b = 1"
    using that by (cases b) (simp_all add: bytesToUint8_def uint8ToBytes_eq)
qed (simp_all add: uint8ToBytes_eq bytesToUint8_def)

lemma bytesToUint_ok_iff:
  "bytesToUint256 b = Inr x256 \<longleftrightarrow> b = uint256ToBytes x256"
  "bytesToUint160 b = Inr x160 \<longleftrightarrow> b = uint160ToBytes x160"
  "bytesToUint64 b = Inr x64 \<longleftrightarrow> b = uint64ToBytes x64"
  "bytesToUint32 b = Inr x32 \<longleftrightarrow> b = uint32ToBytes x32"
  "bytesToUint16 b = Inr x16 \<longleftrightarrow> b = uint16ToBytes x16"
  "bytesToUint8 b = Inr x8 \<longleftrightarrow> b = uint8ToBytes x8"
  by (rule c256.dec_ok_iff c160.dec_ok_iff c64.dec_ok_iff c32.dec_ok_iff c16.dec_ok_iff c8.dec_ok_iff)+

section \<open>Properties\<close>

text \<open>
  C27. The fixed-width encoders and decoders of the 256, 160, 64, 32, 16 and 8 bit integers are
  mutually inverse: a decoder accepts a byte string with value \<open>x\<close> exactly when the string is the
  encoding of \<open>x\<close>. So every encoded value decodes to itself, no two values share an encoding,
  and every accepted string is canonical.
\<close>

theorem fixed_width_codecs_bijective:
  "(bytesToUint256 b = Inr x256 \<longleftrightarrow> b = uint256ToBytes x256) \<and>
   (bytesToUint160 b = Inr x160 \<longleftrightarrow> b = uint160ToBytes x160) \<and>
   (bytesToUint64 b = Inr x64 \<longleftrightarrow> b = uint64ToBytes x64) \<and>
   (bytesToUint32 b = Inr x32 \<longleftrightarrow> b = uint32ToBytes x32) \<and>
   (bytesToUint16 b = Inr x16 \<longleftrightarrow> b = uint16ToBytes x16) \<and>
   (bytesToUint8 b = Inr x8 \<longleftrightarrow> b = uint8ToBytes x8)"
  by (intro conjI bytesToUint_ok_iff)

text \<open>
  \<open>uintToBytes\<close> is the shortest big-endian encoding: \<open>fromBigEndian\<close> reads the value back (at a
  checked 256-bit integer without throwing, at a 64-bit integer without losing bits), its length
  is the least number of bytes that can hold the value, and it is empty exactly for zero.
\<close>

theorem uintToBytes_minimal_roundtrip:
  "fromBigEndian_checked (uintToBytes i) = Inr (i :: uint256) \<and>
   fromBigEndian (uintToBytes j) = (j :: uint64) \<and>
   length (uintToBytes i) = bytesRequired i \<and>
   bytesRequired i = (LEAST n. unat i < 256 ^ n) \<and>
   (uintToBytes i = [] \<longleftrightarrow> i = 0)"
proof -
  have "bytesRequired i = (LEAST n. unat i < 256 ^ n)"
    by (rule Least_equality [symmetric]) (simp_all add: bytesRequired_upper bytesRequired_le)
  then show ?thesis
    using unat_bound [of i] by (simp add: fromBigEndian_checked_spec fromBigEndian_of_nat)
qed

text \<open>
  \<open>uint112ToBytes\<close> leaves the bytes in front of the significant ones as it found them in the
  uninitialised array, so the value is read back exactly when that garbage happens to be zero.
\<close>

theorem uint112ToBytes_roundtrip_iff_zeroed:
  assumes "length ret = 14"
  shows "bytesToUint112 (uint112ToBytes ret i) = Inr i \<longleftrightarrow>
    take (14 - length (export_bits i)) ret = replicate (14 - length (export_bits i)) 0"
proof -
  let ?k = "14 - length (export_bits i)"
  have i: "unat i < 256 ^ 14" using unat_bound [of i] by simp
  have enc: "uint112ToBytes ret i = take ?k ret @ export_bits i" and len: "length (uint112ToBytes ret i) = 14"
    using right_align_export [of i ret] i assms unfolding uint112ToBytes_def by fastforce+
  have "be_val (uint112ToBytes ret i) < 2 ^ 112"
    using be_val_bound [of "uint112ToBytes ret i"] len by simp
  then have "bytesToUint112 (uint112ToBytes ret i) = Inr i \<longleftrightarrow> be_val (uint112ToBytes ret i) = unat i"
    using len by (auto simp: bytesToUint112_def import_bits_eq word_unat_eq_iff unat_of_nat)
  also have "\<dots> \<longleftrightarrow> be_val (take ?k ret) = 0" by (simp add: enc be_val_append)
  also have "\<dots> \<longleftrightarrow> take ?k ret = replicate ?k 0"
    using be_val_inj [of "take ?k ret" "replicate ?k 0"] assms by auto
  finally show ?thesis .
qed

theorem uint112ToBytes_roundtrip_iff_zeroed_witness:
  "bytesToUint112 (uint112ToBytes (replicate 13 0 @ [7]) 1000) = Inr 1000 \<and>
   bytesToUint112 (uint112ToBytes (replicate 14 7) 1000) \<noteq> Inr 1000"
proof -
  have "length (export_bits (1000 :: uint112)) = 2" by code_simp
  moreover have "take 12 (replicate 13 0 @ [7 :: byte]) = replicate 12 0" by code_simp
  moreover have "take 12 (replicate 14 (7 :: byte)) \<noteq> replicate 12 0" by code_simp
  ultimately show ?thesis
    using uint112ToBytes_roundtrip_iff_zeroed [of "replicate 13 0 @ [7]" 1000]
      uint112ToBytes_roundtrip_iff_zeroed [of "replicate 14 7" 1000]
    by (simp del: take_replicate)
qed

end
