(* ===== verification/SafeBase.thy ===== *)
theory SafeBase
  imports Prelude
begin

text \<open>
  The base of the safe variables (\<^verbatim>\<open>contract/variables/safebase.h\<close>) and the layout that the
  scalar ones share: a committed value and a pointer to the value of the running transaction.
  The contract of a safe variable towards the contract manager is the locale \<open>safe_variable\<close>:
  what \<open>commit\<close> and \<open>revert\<close> make of the two values. \<open>tx_variable\<close> adds the rule that
  \<^verbatim>\<open>safebase.h\<close> states for every child class: both unregister the variable.
\<close>

section \<open>State\<close>

text \<open>
  \<open>owner\<close> is the contract a variable registers with (its identity, \<open>None\<close> for
  \<^verbatim>\<open>nullptr\<close>), \<open>value\<close> the committed value and \<open>valuePtr\<close> the transaction's value.
\<close>

record 'v safe_var =
  sv_owner :: "nat option"
  sv_registered :: bool
  sv_value :: 'v
  sv_valuePtr :: "'v option"

text \<open>
  \<open>markAsUsed\<close> on the two fields of the base class: the new value of \<open>registered\<close>, and whether the
  variable is appended to the used variables of the contract manager.
\<close>

definition markAsUsed :: "nat option \<Rightarrow> bool \<Rightarrow> bool \<times> bool" where
  "markAsUsed owner registered =
     (if owner \<noteq> None \<and> \<not> registered then (True, True) else (registered, False))"

section \<open>Operations of a scalar safe variable\<close>

definition sv_new :: "nat option \<Rightarrow> 'v \<Rightarrow> 'v \<Rightarrow> 'v safe_var" where
  "sv_new owner zero v =
     \<lparr>sv_owner = owner, sv_registered = False, sv_value = zero, sv_valuePtr = Some v\<rparr>"

definition sv_check :: "'v safe_var \<Rightarrow> 'v safe_var" where
  "sv_check s = (if sv_valuePtr s = None then s\<lparr>sv_valuePtr := Some (sv_value s)\<rparr> else s)"

definition sv_get :: "'v safe_var \<Rightarrow> 'v" where
  "sv_get s = the (sv_valuePtr (sv_check s))"

definition sv_markAsUsed :: "'v safe_var \<Rightarrow> 'v safe_var" where
  "sv_markAsUsed s = s\<lparr>sv_registered := fst (markAsUsed (sv_owner s) (sv_registered s))\<rparr>"

definition sv_commit :: "'v safe_var \<Rightarrow> 'v safe_var" where
  "sv_commit s = (let s' = sv_check s in
     s'\<lparr>sv_value := the (sv_valuePtr s'), sv_valuePtr := None, sv_registered := False\<rparr>)"

definition sv_revert :: "'v safe_var \<Rightarrow> 'v safe_var" where
  "sv_revert s = s\<lparr>sv_valuePtr := None, sv_registered := False\<rparr>"

text \<open>
  The shape of every assignment operator: \<open>check\<close>, \<open>markAsUsed\<close>, then a computation on the
  transaction's value that may throw. The variable as the exception leaves it is part of the
  result.
\<close>

definition sv_assign :: "('v \<Rightarrow> 'v res) \<Rightarrow> 'v safe_var \<Rightarrow> 'v safe_var \<times> error option" where
  "sv_assign f s = (let s' = sv_markAsUsed (sv_check s) in
     case f (the (sv_valuePtr s')) of
       Inl e \<Rightarrow> (s', Some e)
     | Inr x \<Rightarrow> (s'\<lparr>sv_valuePtr := Some x\<rparr>, None))"

section \<open>Lemmas\<close>

named_theorems sv_simps \<open>observations of scalar safe variables\<close>

lemma sv_get_eq: "sv_get s = (case sv_valuePtr s of None \<Rightarrow> sv_value s | Some v \<Rightarrow> v)"
  by (auto simp: sv_get_def sv_check_def split: option.split)

lemma sv_new_get [sv_simps]: "sv_get (sv_new w z v) = v"
  by (simp add: sv_get_eq sv_new_def)

lemma sv_check_fields [sv_simps]:
  "sv_value (sv_check s) = sv_value s"
  "sv_owner (sv_check s) = sv_owner s"
  "sv_registered (sv_check s) = sv_registered s"
  "sv_valuePtr (sv_check s) = Some (sv_get s)"
  by (auto simp: sv_get_def sv_check_def)

text \<open>Filling the pointer, which \<open>const\<close> operations do, is not observable.\<close>

lemma sv_check_unobservable [sv_simps]:
  "sv_get (sv_check s) = sv_get s"
  "sv_commit (sv_check s) = sv_commit s"
  "sv_revert (sv_check s) = sv_revert s"
  by (auto simp: sv_get_def sv_check_def sv_commit_def sv_revert_def Let_def)

lemma sv_markAsUsed_fields [sv_simps]:
  "sv_value (sv_markAsUsed s) = sv_value s"
  "sv_owner (sv_markAsUsed s) = sv_owner s"
  "sv_valuePtr (sv_markAsUsed s) = sv_valuePtr s"
  "sv_registered (sv_markAsUsed s) = (sv_registered s \<or> sv_owner s \<noteq> None)"
  "sv_get (sv_markAsUsed s) = sv_get s"
  by (auto simp: sv_markAsUsed_def markAsUsed_def sv_get_eq split: option.split)

lemma sv_commit_fields [sv_simps]:
  "sv_value (sv_commit s) = sv_get s"
  "sv_get (sv_commit s) = sv_get s"
  "sv_owner (sv_commit s) = sv_owner s"
  "\<not> sv_registered (sv_commit s)"
  by (auto simp: sv_commit_def Let_def sv_get_eq sv_check_def split: option.splits)

lemma sv_revert_fields [sv_simps]:
  "sv_value (sv_revert s) = sv_value s"
  "sv_get (sv_revert s) = sv_value s"
  "sv_owner (sv_revert s) = sv_owner s"
  "\<not> sv_registered (sv_revert s)"
  by (auto simp: sv_revert_def sv_get_eq)

lemma sv_assign_fields [sv_simps]:
  "sv_value (fst (sv_assign f s)) = sv_value s"
  "sv_owner (fst (sv_assign f s)) = sv_owner s"
  "sv_registered (fst (sv_assign f s)) = (sv_registered s \<or> sv_owner s \<noteq> None)"
  "sv_get (fst (sv_assign f s)) = (case f (sv_get s) of Inl _ \<Rightarrow> sv_get s | Inr x \<Rightarrow> x)"
  "snd (sv_assign f s) = (case f (sv_get s) of Inl e \<Rightarrow> Some e | Inr _ \<Rightarrow> None)"
  by (simp_all add: sv_assign_def Let_def sv_simps sv_get_eq split: sum.split)

section \<open>The contract of a safe variable\<close>

locale safe_variable =
  fixes view :: "'s \<Rightarrow> 'v" and committed :: "'s \<Rightarrow> 'v" and commit revert :: "'s \<Rightarrow> 's"
    and wf :: "'s \<Rightarrow> bool"
  assumes wf_commit: "wf s \<Longrightarrow> wf (commit s)"
    and wf_revert: "wf s \<Longrightarrow> wf (revert s)"
    and view_commit: "wf s \<Longrightarrow> view (commit s) = view s"
    and committed_commit: "wf s \<Longrightarrow> committed (commit s) = view s"
    and view_revert: "wf s \<Longrightarrow> view (revert s) = committed s"
    and committed_revert: "wf s \<Longrightarrow> committed (revert s) = committed s"
begin

text \<open>A variable is clean when its transaction's value is the committed one.\<close>

definition clean :: "'s \<Rightarrow> bool" where
  "clean s \<longleftrightarrow> view s = committed s"

lemma clean_commit: "wf s \<Longrightarrow> clean (commit s)"
  by (simp add: clean_def view_commit committed_commit)

lemma clean_revert: "wf s \<Longrightarrow> clean (revert s)"
  by (simp add: clean_def view_revert committed_revert)

lemma commit_then_revert: "wf s \<Longrightarrow> view (revert (commit s)) = view s"
  by (simp add: wf_commit view_revert committed_commit)

lemma revert_then_commit: "wf s \<Longrightarrow> view (commit (revert s)) = committed s"
  by (simp add: wf_revert view_commit view_revert)

end

locale tx_variable = safe_variable view committed commit revert wf
  for view :: "'s \<Rightarrow> 'v" and committed :: "'s \<Rightarrow> 'v" and commit revert :: "'s \<Rightarrow> 's"
    and wf :: "'s \<Rightarrow> bool" +
  fixes registered :: "'s \<Rightarrow> bool"
  assumes unregistered_commit: "wf s \<Longrightarrow> \<not> registered (commit s)"
    and unregistered_revert: "wf s \<Longrightarrow> \<not> registered (revert s)"
begin

text \<open>
  The state the contract manager relies on between transactions: an unregistered variable has no
  pending change.
\<close>

definition settled :: "'s \<Rightarrow> bool" where
  "settled s \<longleftrightarrow> wf s \<and> \<not> registered s \<and> clean s"

lemma settled_commit: "wf s \<Longrightarrow> settled (commit s)"
  by (simp add: settled_def wf_commit unregistered_commit clean_commit)

lemma settled_revert: "wf s \<Longrightarrow> settled (revert s)"
  by (simp add: settled_def wf_revert unregistered_revert clean_revert)

end

interpretation scalar: tx_variable sv_get sv_value sv_commit sv_revert "\<lambda>_. True" sv_registered
  by unfold_locales (simp_all add: sv_simps)

end
