(* ===== verification/SafeArray.thy ===== *)
theory SafeArray
  imports SafeBase
begin

text \<open>
  \<^verbatim>\<open>contract/variables/safearray.h\<close>: an array of fixed size and an ordered map of the entries the running transaction has touched.
  The elements of the committed array are optional: \<open>None\<close> is an element that was never written, which is undefined to
  read when the element type has no default constructor. The size of the array is the length of the list.
\<close>

section \<open>State\<close>

record 'a safe_arr =
  ar_owner :: "nat option"
  ar_registered :: bool
  ar_array :: "'a option list"
  ar_tmp :: "(nat \<rightharpoonup> 'a) option"

section \<open>Operations\<close>

definition ar_check :: "'a safe_arr \<Rightarrow> 'a safe_arr" where
  "ar_check s = (if ar_tmp s = None then s\<lparr>ar_tmp := Some Map.empty\<rparr> else s)"

definition ar_ptr :: "'a safe_arr \<Rightarrow> nat \<rightharpoonup> 'a" where
  "ar_ptr s = (case ar_tmp s of None \<Rightarrow> Map.empty | Some t \<Rightarrow> t)"

definition ar_markAsUsed :: "'a safe_arr \<Rightarrow> 'a safe_arr" where
  "ar_markAsUsed s = s\<lparr>ar_registered := fst (markAsUsed (ar_owner s) (ar_registered s))\<rparr>"

text \<open>Writing one entry of the temporary map, also through a reference that an accessor returned.\<close>

definition ar_write :: "'a safe_arr \<Rightarrow> nat \<Rightarrow> 'a \<Rightarrow> 'a safe_arr" where
  "ar_write s i v = s\<lparr>ar_tmp := Some ((ar_ptr s)(i \<mapsto> v))\<rparr>"

definition ar_checkIndexAndCopy :: "'a safe_arr \<Rightarrow> nat \<Rightarrow> 'a safe_arr \<times> error option" where
  "ar_checkIndexAndCopy s0 index =
     (let s = ar_check s0 in
      if index \<ge> length (ar_array s) then (s, Some (OutOfRange ''Index out of range''))
      else case ar_ptr s index of
        Some _ \<Rightarrow> (s, None)
      | None \<Rightarrow> (case ar_array s ! index of
            None \<Rightarrow> (s, Some UndefinedBehaviour)
          | Some v \<Rightarrow> (ar_write s index v, None)))"

text \<open>
  The constructors: \<open>dflt\<close> is what default initialization gives an element of the committed array, which the constructor
  does not write.
\<close>

definition ar_new :: "'a option \<Rightarrow> nat option \<Rightarrow> 'a list \<Rightarrow> 'a safe_arr" where
  "ar_new dflt owner a = \<lparr>ar_owner = owner, ar_registered = False, ar_array = replicate (length a) dflt,
     ar_tmp = Some (map_of (zip [0..<length a] a))\<rparr>"

text \<open>\<open>at\<close> and \<open>operator[]\<close>, which check the bounds alike.\<close>

definition ar_at :: "'a safe_arr \<Rightarrow> nat \<Rightarrow> 'a safe_arr \<times> 'a res" where
  "ar_at s pos =
     (case ar_checkIndexAndCopy s pos of
        (s', Some e) \<Rightarrow> (s', Inl e)
      | (s', None) \<Rightarrow> (ar_markAsUsed s', Inr (the (ar_ptr s' pos))))"

text \<open>An assignment to the element that an accessor returned.\<close>

definition ar_set :: "'a safe_arr \<Rightarrow> nat \<Rightarrow> 'a \<Rightarrow> 'a safe_arr \<times> unit res" where
  "ar_set s pos v = (case ar_at s pos of (s', Inl e) \<Rightarrow> (s', Inl e) | (s', Inr _) \<Rightarrow> (ar_write s' pos v, Inr ()))"

definition ar_empty :: "'a safe_arr \<Rightarrow> bool" where
  "ar_empty s \<longleftrightarrow> length (ar_array s) = 0"

definition ar_size :: "'a safe_arr \<Rightarrow> nat" where
  "ar_size s = length (ar_array s)"

text \<open>\<open>fill\<close> and \<open>commit\<close> dereference the temporary map without \<open>check\<close>.\<close>

definition ar_fill :: "'a safe_arr \<Rightarrow> 'a \<Rightarrow> 'a safe_arr \<times> unit res" where
  "ar_fill s v =
     (case ar_tmp s of
        None \<Rightarrow> (s, if ar_array s = [] then Inr () else Inl UndefinedBehaviour)
      | Some t \<Rightarrow> (s\<lparr>ar_tmp := Some (\<lambda>i. if i < length (ar_array s) then Some v else t i)\<rparr>, Inr ()))"

definition ar_commit :: "'a safe_arr \<Rightarrow> 'a safe_arr \<times> unit res" where
  "ar_commit s =
     (case ar_tmp s of
        None \<Rightarrow> (s, Inl UndefinedBehaviour)
      | Some t \<Rightarrow> (s\<lparr>ar_array := map (\<lambda>i. case t i of Some v \<Rightarrow> Some v | None \<Rightarrow> ar_array s ! i) [0..<length (ar_array s)]\<rparr>, Inr ()))"

definition ar_revert :: "'a safe_arr \<Rightarrow> 'a safe_arr" where
  "ar_revert s = s\<lparr>ar_tmp := None\<rparr>"

section \<open>Lemmas\<close>

text \<open>What a contract sees: the temporary entries over the committed elements.\<close>

definition ar_view :: "'a safe_arr \<Rightarrow> 'a option list" where
  "ar_view s = map (\<lambda>i. case ar_ptr s i of Some v \<Rightarrow> Some v | None \<Rightarrow> ar_array s ! i) [0..<length (ar_array s)]"

named_theorems ar_simps \<open>observations of safe arrays\<close>

lemma ar_view_length [ar_simps]: "length (ar_view s) = length (ar_array s)"
  by (simp add: ar_view_def)

lemma ar_view_nth: "i < length (ar_array s) \<Longrightarrow> ar_view s ! i = (case ar_ptr s i of Some v \<Rightarrow> Some v | None \<Rightarrow> ar_array s ! i)"
  by (simp add: ar_view_def split: option.split)

lemma ar_check_obs [ar_simps]: "ar_ptr (ar_check s) = ar_ptr s" "ar_array (ar_check s) = ar_array s" "ar_view (ar_check s) = ar_view s"
  "ar_owner (ar_check s) = ar_owner s" "ar_registered (ar_check s) = ar_registered s" "ar_tmp (ar_check s) \<noteq> None"
  by (auto simp: ar_check_def ar_ptr_def ar_view_def cong: option.case_cong)

lemma ar_mark_obs [ar_simps]: "ar_ptr (ar_markAsUsed s) = ar_ptr s" "ar_array (ar_markAsUsed s) = ar_array s" "ar_view (ar_markAsUsed s) = ar_view s"
  "ar_tmp (ar_markAsUsed s) = ar_tmp s"
  by (simp_all add: ar_markAsUsed_def ar_ptr_def ar_view_def cong: option.case_cong)

lemma ar_write_obs [ar_simps]: "ar_ptr (ar_write s i v) = (ar_ptr s)(i \<mapsto> v)" "ar_array (ar_write s i v) = ar_array s"
  "ar_tmp (ar_write s i v) \<noteq> None" "ar_view (ar_write s i v) = (ar_view s)[i := Some v]"
  by (auto simp: ar_write_def ar_ptr_def ar_view_def nth_list_update split: option.split intro!: nth_equalityI)

lemma ar_checkIndexAndCopy_obs:
  assumes "i < length (ar_array s)" "ar_view s ! i = Some v"
  shows "\<exists>s'. ar_checkIndexAndCopy s i = (s', None) \<and> ar_ptr s' i = Some v \<and> ar_view s' = ar_view s \<and> ar_array s' = ar_array s \<and> ar_tmp s' \<noteq> None"
proof (cases "ar_ptr s i")
  case None
  then have "ar_array s ! i = Some v" using assms by (simp add: ar_view_nth)
  moreover have "(ar_view s)[i := Some v] = ar_view s" using assms(2) by (metis list_update_id)
  ultimately show ?thesis using assms(1) None by (simp add: ar_checkIndexAndCopy_def Let_def ar_simps del: not_None_eq)
next
  case (Some w)
  then show ?thesis using assms by (simp add: ar_checkIndexAndCopy_def Let_def ar_simps ar_view_nth del: not_None_eq)
qed

lemma ar_commit_obs:
  "ar_tmp s \<noteq> None \<Longrightarrow> ar_array (fst (ar_commit s)) = ar_view s \<and> ar_view (fst (ar_commit s)) = ar_view s \<and> ar_tmp (fst (ar_commit s)) \<noteq> None"
  by (auto simp: ar_commit_def ar_view_def ar_ptr_def split: option.splits intro!: nth_equalityI)

text \<open>
  The array as a list: an element that has a value is read and written like an element of a list, \<open>fill\<close> writes all of
  them, and an index behind the end throws.
\<close>

lemma safe_array_refines_list:
  "i < length (ar_array s) \<Longrightarrow> ar_view s ! i = Some v \<Longrightarrow> snd (ar_at s i) = Inr v \<and> ar_view (fst (ar_at s i)) = ar_view s"
  "i < length (ar_array s) \<Longrightarrow> ar_view s ! i = Some v \<Longrightarrow> snd (ar_set s i w) = Inr () \<and> ar_view (fst (ar_set s i w)) = (ar_view s)[i := Some w]"
  "ar_tmp s \<noteq> None \<Longrightarrow> snd (ar_fill s w) = Inr () \<and> ar_view (fst (ar_fill s w)) = replicate (ar_size s) (Some w)"
  "length (ar_array s) \<le> i \<Longrightarrow> snd (ar_at s i) = Inl (OutOfRange ''Index out of range'') \<and> ar_view (fst (ar_at s i)) = ar_view s"
proof -
  assume "i < length (ar_array s)" "ar_view s ! i = Some v"
  from ar_checkIndexAndCopy_obs [OF this]
  show "snd (ar_at s i) = Inr v \<and> ar_view (fst (ar_at s i)) = ar_view s" by (auto simp: ar_at_def ar_simps)
next
  assume "i < length (ar_array s)" "ar_view s ! i = Some v"
  from ar_checkIndexAndCopy_obs [OF this]
  show "snd (ar_set s i w) = Inr () \<and> ar_view (fst (ar_set s i w)) = (ar_view s)[i := Some w]" by (auto simp: ar_set_def ar_at_def ar_simps)
next
  assume "ar_tmp s \<noteq> None"
  then show "snd (ar_fill s w) = Inr () \<and> ar_view (fst (ar_fill s w)) = replicate (ar_size s) (Some w)"
    by (auto simp: ar_fill_def ar_view_def ar_ptr_def ar_size_def intro!: nth_equalityI)
next
  assume "length (ar_array s) \<le> i"
  then show "snd (ar_at s i) = Inl (OutOfRange ''Index out of range'') \<and> ar_view (fst (ar_at s i)) = ar_view s"
    by (simp add: ar_at_def ar_checkIndexAndCopy_def Let_def ar_simps)
qed

text \<open>
  Commit keeps what the contract sees, and a later revert goes back to it. The temporary map exists after every access;
  without it, \<open>commit\<close> dereferences a null pointer.
\<close>

lemma safe_array_commit_revert:
  assumes "ar_tmp s \<noteq> None"
  shows "snd (ar_commit s) = Inr () \<and> ar_view (fst (ar_commit s)) = ar_view s \<and> ar_view (ar_revert (fst (ar_commit s))) = ar_view s \<and>
    ar_view (ar_revert s) = ar_array s"
proof -
  have revert: "ar_view (ar_revert s) = ar_array s" for s :: "'a safe_arr" by (auto simp: ar_view_def ar_revert_def ar_ptr_def intro: nth_equalityI)
  have "snd (ar_commit s) = Inr ()" using assms by (auto simp: ar_commit_def)
  then show ?thesis using ar_commit_obs [OF assms] by (simp add: revert)
qed

lemma safe_array_commit_after_revert: "snd (ar_commit (ar_revert s)) = Inl UndefinedBehaviour"
  by (simp add: ar_commit_def ar_revert_def)

text \<open>\<open>fill\<close> does not register the array with the contract manager: a transaction that only fills it is neither committed nor reverted.\<close>

lemma safe_array_fill_unregistered: "ar_registered (fst (ar_fill s v)) = ar_registered s"
  by (simp add: ar_fill_def split: option.splits)

end
