(* ===== verification/SafeUint.thy ===== *)
theory SafeUint
  imports SafeBase
begin

unbundle bit_operations_syntax

text \<open>
  The safe unsigned integers. \<^verbatim>\<open>safeuint8_t.h\<close>, \<^verbatim>\<open>safeuint16_t.h\<close>, \<^verbatim>\<open>safeuint32_t.h\<close> and
  \<^verbatim>\<open>safeuint64_t.h\<close> are one text at four widths and are modelled once, at any width \<open>'n\<close>;
  so are \<^verbatim>\<open>safeuint112_t.h\<close> to \<^verbatim>\<open>safeuint256_t.h\<close>, whose values are checked
  fixed-precision integers. Each operator comes with the value computation (\<open>uint_add\<close> and so
  on, with the source's guards and exceptions), the \<open>const\<close> operator that wraps the result in a
  new local variable, and the assignment operator. An overload that takes a safe variable reads it
  with \<open>get\<close> first.
\<close>

section \<open>Value computations with their guards\<close>

definition uint_add :: "'n::len word \<Rightarrow> 'n word \<Rightarrow> 'n word res" where
  "uint_add val other =
     (if val > max_of - other then Inl (OverflowError ''Overflow in addition operation'')
      else Inr (val + other))"

definition uint_sub :: "'n::len word \<Rightarrow> 'n word \<Rightarrow> 'n word res" where
  "uint_sub val other =
     (if val < other then Inl (UnderflowError ''Underflow in subtraction operation'')
      else Inr (val - other))"

definition uint_mul :: "'n::len word \<Rightarrow> 'n word \<Rightarrow> 'n word res" where
  "uint_mul val other =
     (if other = 0 \<or> val = 0 then Inl (DomainError ''Multiplication by zero'')
      else if val > max_of div other then Inl (OverflowError ''Overflow in multiplication operation'')
      else Inr (val * other))"

definition uint_div :: "'n::len word \<Rightarrow> 'n word \<Rightarrow> 'n word res" where
  "uint_div val other =
     (if val = 0 \<or> other = 0 then Inl (DomainError ''Division by zero'') else Inr (val div other))"

definition uint_mod :: "'n::len word \<Rightarrow> 'n word \<Rightarrow> 'n word res" where
  "uint_mod val other =
     (if val = 0 \<or> other = 0 then Inl (DomainError ''Modulo by zero'') else Inr (val mod other))"

text \<open>
  Shifts of the small types happen at the promoted type (32 bits for the widths up to 32, 64
  bits at 64), where a count that is not below the width is undefined; the result is truncated.
\<close>

definition promoted_bits :: "'n::len itself \<Rightarrow> nat" where
  "promoted_bits _ = max 32 LENGTH('n)"

definition uint_shl :: "'n::len word \<Rightarrow> 'n word \<Rightarrow> 'n word res" where
  "uint_shl val other =
     (if unat other < promoted_bits TYPE('n) then Inr (push_bit (unat other) val)
      else Inl UndefinedBehaviour)"

definition uint_shr :: "'n::len word \<Rightarrow> 'n word \<Rightarrow> 'n word res" where
  "uint_shr val other =
     (if unat other < promoted_bits TYPE('n) then Inr (drop_bit (unat other) val)
      else Inl UndefinedBehaviour)"

definition uint_inc :: "'n::len word \<Rightarrow> 'n word res" where
  "uint_inc val =
     (if val = max_of then Inl (OverflowError ''Overflow in increment operation'') else Inr (val + 1))"

definition uint_dec :: "'n::len word \<Rightarrow> 'n word res" where
  "uint_dec val =
     (if val = 0 then Inl (UnderflowError ''Underflow in decrement operation'') else Inr (val - 1))"

section \<open>The class\<close>

definition SafeUint_new :: "nat option \<Rightarrow> 'n::len word \<Rightarrow> 'n word safe_var" where
  "SafeUint_new owner v = sv_new owner 0 v"

definition SafeUint_copy :: "'n::len word safe_var \<Rightarrow> 'n word safe_var" where
  "SafeUint_copy other = sv_new None 0 (sv_get other)"

text \<open>The \<open>const\<close> operators return a new local variable.\<close>

definition local_res :: "'n::len word res \<Rightarrow> 'n word safe_var res" where
  "local_res r = bindR r (\<lambda>x. Inr (SafeUint_new None x))"

definition op_add :: "'n::len word safe_var \<Rightarrow> 'n word \<Rightarrow> 'n word safe_var res" where
  "op_add s other = local_res (uint_add (sv_get s) other)"

definition op_sub :: "'n::len word safe_var \<Rightarrow> 'n word \<Rightarrow> 'n word safe_var res" where
  "op_sub s other = local_res (uint_sub (sv_get s) other)"

definition op_mul :: "'n::len word safe_var \<Rightarrow> 'n word \<Rightarrow> 'n word safe_var res" where
  "op_mul s other = local_res (uint_mul (sv_get s) other)"

definition op_div :: "'n::len word safe_var \<Rightarrow> 'n word \<Rightarrow> 'n word safe_var res" where
  "op_div s other = local_res (uint_div (sv_get s) other)"

definition op_mod :: "'n::len word safe_var \<Rightarrow> 'n word \<Rightarrow> 'n word safe_var res" where
  "op_mod s other = local_res (uint_mod (sv_get s) other)"

definition op_and :: "'n::len word safe_var \<Rightarrow> 'n word \<Rightarrow> 'n word safe_var res" where
  "op_and s other = local_res (Inr (sv_get s AND other))"

definition op_or :: "'n::len word safe_var \<Rightarrow> 'n word \<Rightarrow> 'n word safe_var res" where
  "op_or s other = local_res (Inr (sv_get s OR other))"

definition op_xor :: "'n::len word safe_var \<Rightarrow> 'n word \<Rightarrow> 'n word safe_var res" where
  "op_xor s other = local_res (Inr (sv_get s XOR other))"

definition op_shl :: "'n::len word safe_var \<Rightarrow> 'n word \<Rightarrow> 'n word safe_var res" where
  "op_shl s other = local_res (uint_shl (sv_get s) other)"

definition op_shr :: "'n::len word safe_var \<Rightarrow> 'n word \<Rightarrow> 'n word safe_var res" where
  "op_shr s other = local_res (uint_shr (sv_get s) other)"

definition op_not :: "'n::len word safe_var \<Rightarrow> bool" where
  "op_not s \<longleftrightarrow> sv_get s = 0"

definition op_land :: "'n::len word safe_var \<Rightarrow> 'n word \<Rightarrow> bool" where
  "op_land s other \<longleftrightarrow> sv_get s \<noteq> 0 \<and> other \<noteq> 0"

definition op_lor :: "'n::len word safe_var \<Rightarrow> 'n word \<Rightarrow> bool" where
  "op_lor s other \<longleftrightarrow> sv_get s \<noteq> 0 \<or> other \<noteq> 0"

definition op_eq :: "'n::len word safe_var \<Rightarrow> 'n word \<Rightarrow> bool" where
  "op_eq s other \<longleftrightarrow> sv_get s = other"

definition op_ne :: "'n::len word safe_var \<Rightarrow> 'n word \<Rightarrow> bool" where
  "op_ne s other \<longleftrightarrow> sv_get s \<noteq> other"

definition op_lt :: "'n::len word safe_var \<Rightarrow> 'n word \<Rightarrow> bool" where
  "op_lt s other \<longleftrightarrow> sv_get s < other"

definition op_le :: "'n::len word safe_var \<Rightarrow> 'n word \<Rightarrow> bool" where
  "op_le s other \<longleftrightarrow> sv_get s \<le> other"

definition op_gt :: "'n::len word safe_var \<Rightarrow> 'n word \<Rightarrow> bool" where
  "op_gt s other \<longleftrightarrow> sv_get s > other"

definition op_ge :: "'n::len word safe_var \<Rightarrow> 'n word \<Rightarrow> bool" where
  "op_ge s other \<longleftrightarrow> sv_get s \<ge> other"

text \<open>The assignment operators.\<close>

definition op_assign :: "'n::len word safe_var \<Rightarrow> 'n word \<Rightarrow> 'n word safe_var \<times> error option" where
  "op_assign s other = sv_assign (\<lambda>_. Inr other) s"

definition op_add_assign :: "'n::len word safe_var \<Rightarrow> 'n word \<Rightarrow> 'n word safe_var \<times> error option" where
  "op_add_assign s other = sv_assign (\<lambda>v. uint_add v other) s"

definition op_sub_assign :: "'n::len word safe_var \<Rightarrow> 'n word \<Rightarrow> 'n word safe_var \<times> error option" where
  "op_sub_assign s other = sv_assign (\<lambda>v. uint_sub v other) s"

definition op_mul_assign :: "'n::len word safe_var \<Rightarrow> 'n word \<Rightarrow> 'n word safe_var \<times> error option" where
  "op_mul_assign s other = sv_assign (\<lambda>v. uint_mul v other) s"

definition op_div_assign :: "'n::len word safe_var \<Rightarrow> 'n word \<Rightarrow> 'n word safe_var \<times> error option" where
  "op_div_assign s other = sv_assign (\<lambda>v. uint_div v other) s"

definition op_mod_assign :: "'n::len word safe_var \<Rightarrow> 'n word \<Rightarrow> 'n word safe_var \<times> error option" where
  "op_mod_assign s other = sv_assign (\<lambda>v. uint_mod v other) s"

definition op_and_assign :: "'n::len word safe_var \<Rightarrow> 'n word \<Rightarrow> 'n word safe_var \<times> error option" where
  "op_and_assign s other = sv_assign (\<lambda>v. Inr (v AND other)) s"

definition op_or_assign :: "'n::len word safe_var \<Rightarrow> 'n word \<Rightarrow> 'n word safe_var \<times> error option" where
  "op_or_assign s other = sv_assign (\<lambda>v. Inr (v OR other)) s"

definition op_xor_assign :: "'n::len word safe_var \<Rightarrow> 'n word \<Rightarrow> 'n word safe_var \<times> error option" where
  "op_xor_assign s other = sv_assign (\<lambda>v. Inr (v XOR other)) s"

definition op_shl_assign :: "'n::len word safe_var \<Rightarrow> 'n word \<Rightarrow> 'n word safe_var \<times> error option" where
  "op_shl_assign s other = sv_assign (\<lambda>v. uint_shl v other) s"

definition op_shr_assign :: "'n::len word safe_var \<Rightarrow> 'n word \<Rightarrow> 'n word safe_var \<times> error option" where
  "op_shr_assign s other = sv_assign (\<lambda>v. uint_shr v other) s"

definition op_inc :: "'n::len word safe_var \<Rightarrow> 'n word safe_var \<times> error option" where
  "op_inc s = sv_assign uint_inc s"

definition op_dec :: "'n::len word safe_var \<Rightarrow> 'n word safe_var \<times> error option" where
  "op_dec s = sv_assign uint_dec s"

section \<open>Checked fixed-precision values\<close>

text \<open>
  In \<^verbatim>\<open>safeuint112_t.h\<close> to \<^verbatim>\<open>safeuint256_t.h\<close> every operator of the value type, those inside the guards
  included, is one of the checked integer type.
\<close>

definition big_add :: "'n::len word \<Rightarrow> 'n word \<Rightarrow> 'n word res" where
  "big_add val other =
     bindR (checked_sub max_of other) (\<lambda>m.
     if val > m then Inl (OverflowError ''Overflow in addition operation'')
     else checked_add val other)"

definition big_sub :: "'n::len word \<Rightarrow> 'n word \<Rightarrow> 'n word res" where
  "big_sub val other =
     (if val < other then Inl (UnderflowError ''Underflow in subtraction operation'')
      else checked_sub val other)"

definition big_mul :: "'n::len word \<Rightarrow> 'n word \<Rightarrow> 'n word res" where
  "big_mul val other =
     (if other = 0 \<or> val = 0 then Inl (DomainError ''Multiplication by zero'')
      else bindR (checked_div max_of other) (\<lambda>m.
        if val > m then Inl (OverflowError ''Overflow in multiplication operation'')
        else checked_mult val other))"

definition big_div :: "'n::len word \<Rightarrow> 'n word \<Rightarrow> 'n word res" where
  "big_div val other =
     (if val = 0 \<or> other = 0 then Inl (DomainError ''Division by zero'') else checked_div val other)"

definition big_inc :: "'n::len word \<Rightarrow> 'n word res" where
  "big_inc val =
     (if val = max_of then Inl (OverflowError ''Overflow in increment operation'')
      else checked_add val 1)"

definition big_dec :: "'n::len word \<Rightarrow> 'n word res" where
  "big_dec val =
     (if val = 0 then Inl (UnderflowError ''Underflow in decrement operation'')
      else checked_sub val 1)"

text \<open>
  The operators of the wide classes; the overload at \<^verbatim>\<open>uint64_t\<close> converts its argument, which the
  checked type represents exactly.
\<close>

definition big_op_add :: "'n::len word safe_var \<Rightarrow> 'n word \<Rightarrow> 'n word safe_var res" where
  "big_op_add s other = local_res (big_add (sv_get s) other)"

definition big_op_add_u64 :: "'n::len word safe_var \<Rightarrow> uint64 \<Rightarrow> 'n word safe_var res" where
  "big_op_add_u64 s other = local_res (big_add (sv_get s) (ucast other))"

definition big_op_sub :: "'n::len word safe_var \<Rightarrow> 'n word \<Rightarrow> 'n word safe_var res" where
  "big_op_sub s other = local_res (big_sub (sv_get s) other)"

definition big_op_sub_u64 :: "'n::len word safe_var \<Rightarrow> uint64 \<Rightarrow> 'n word safe_var res" where
  "big_op_sub_u64 s other = local_res (big_sub (sv_get s) (ucast other))"

definition big_op_mul :: "'n::len word safe_var \<Rightarrow> 'n word \<Rightarrow> 'n word safe_var res" where
  "big_op_mul s other = local_res (big_mul (sv_get s) other)"

definition big_op_mul_u64 :: "'n::len word safe_var \<Rightarrow> uint64 \<Rightarrow> 'n word safe_var res" where
  "big_op_mul_u64 s other = local_res (big_mul (sv_get s) (ucast other))"

definition big_op_div :: "'n::len word safe_var \<Rightarrow> 'n word \<Rightarrow> 'n word safe_var res" where
  "big_op_div s other = local_res (big_div (sv_get s) other)"

definition big_op_add_assign :: "'n::len word safe_var \<Rightarrow> 'n word \<Rightarrow> 'n word safe_var \<times> error option" where
  "big_op_add_assign s other = sv_assign (\<lambda>v. big_add v other) s"

definition big_op_sub_assign :: "'n::len word safe_var \<Rightarrow> 'n word \<Rightarrow> 'n word safe_var \<times> error option" where
  "big_op_sub_assign s other = sv_assign (\<lambda>v. big_sub v other) s"

definition big_op_mul_assign :: "'n::len word safe_var \<Rightarrow> 'n word \<Rightarrow> 'n word safe_var \<times> error option" where
  "big_op_mul_assign s other = sv_assign (\<lambda>v. big_mul v other) s"

definition big_op_div_assign :: "'n::len word safe_var \<Rightarrow> 'n word \<Rightarrow> 'n word safe_var \<times> error option" where
  "big_op_div_assign s other = sv_assign (\<lambda>v. big_div v other) s"

definition big_op_inc :: "'n::len word safe_var \<Rightarrow> 'n word safe_var \<times> error option" where
  "big_op_inc s = sv_assign big_inc s"

definition big_op_dec :: "'n::len word safe_var \<Rightarrow> 'n word safe_var \<times> error option" where
  "big_op_dec s = sv_assign big_dec s"

section \<open>Lemmas\<close>

lemma sv_assign_cong: "(\<And>v. f v = g v) \<Longrightarrow> s = t \<Longrightarrow> sv_assign f s = sv_assign g t"
  by (auto simp: sv_assign_def Let_def)

lemma uint_add_spec:
  fixes a b :: "'n::len word"
  shows "uint_add a b = (if unat a + unat b < 2 ^ LENGTH('n) then Inr (a + b)
    else Inl (OverflowError ''Overflow in addition operation''))"
  by (auto simp: uint_add_def add_guard)

lemma uint_mul_spec:
  fixes a b :: "'n::len word"
  shows "uint_mul a b =
    (if a = 0 \<or> b = 0 then Inl (DomainError ''Multiplication by zero'')
     else if unat a * unat b < 2 ^ LENGTH('n) then Inr (a * b)
     else Inl (OverflowError ''Overflow in multiplication operation''))"
  by (auto simp: uint_mul_def mult_guard)

lemma uint_unat:
  "uint_add a b = Inr c \<Longrightarrow> unat c = unat a + unat b"
  "uint_sub a b = Inr c \<Longrightarrow> unat c = unat a - unat b \<and> b \<le> a"
  "uint_mul a b = Inr c \<Longrightarrow> unat c = unat a * unat b"
  by (auto simp: uint_add_spec uint_sub_def uint_mul_spec unat_add_no_wrap unat_mult_no_wrap unat_sub
      split: if_splits)

lemma big_eq_uint:
  "big_add a b = uint_add a b"
  "big_sub a b = uint_sub a b"
  "big_mul a b = uint_mul a b"
  "big_div a b = uint_div a b"
  by (auto simp: big_add_def uint_add_def big_sub_def uint_sub_def big_mul_def uint_mul_def big_div_def
      uint_div_def checked_sub_def checked_add_def checked_mult_def checked_div_def add_guard mult_guard
      not_less)

lemma big_inc_eq: "big_inc a = uint_inc a" for a :: "'n::len word"
proof -
  have "Suc (unat a) < 2 ^ LENGTH('n) \<longleftrightarrow> a \<noteq> max_of"
    using unat_bound [of a] unfolding word_unat_eq_iff [of a max_of] unat_max_of by linarith
  then show ?thesis by (simp add: big_inc_def uint_inc_def checked_add_def)
qed

lemma big_dec_eq: "big_dec a = uint_dec a"
  by (auto simp: big_dec_def uint_dec_def checked_sub_def word_le_nat_alt Suc_leI unat_gt_0)

section \<open>Properties\<close>

text \<open>
  C23. The arithmetic operators of the safe integers are exact at every width: addition,
  subtraction and multiplication return the mathematical result whenever it is representable and the source's
  operands are allowed, and otherwise throw the documented exception; nothing wraps around.
\<close>

theorem SafeUint_arith_exact:
  fixes s :: "'n::len word safe_var"
  shows "(case op_add s x of
            Inl e \<Rightarrow> e = OverflowError ''Overflow in addition operation'' \<and> 2 ^ LENGTH('n) \<le> unat (sv_get s) + unat x
          | Inr r \<Rightarrow> unat (sv_get r) = unat (sv_get s) + unat x) \<and>
         (case op_sub s x of
            Inl e \<Rightarrow> e = UnderflowError ''Underflow in subtraction operation'' \<and> unat (sv_get s) < unat x
          | Inr r \<Rightarrow> unat (sv_get r) + unat x = unat (sv_get s)) \<and>
         (case op_mul s x of
            Inl e \<Rightarrow> (e = DomainError ''Multiplication by zero'' \<and> unat (sv_get s) * unat x = 0) \<or>
                     (e = OverflowError ''Overflow in multiplication operation'' \<and>
                      2 ^ LENGTH('n) \<le> unat (sv_get s) * unat x)
          | Inr r \<Rightarrow> unat (sv_get r) = unat (sv_get s) * unat x)"
proof (intro conjI, goal_cases)
  case 1
  then show ?case
    by (simp add: op_add_def local_res_def SafeUint_new_def sv_simps uint_add_spec unat_add_no_wrap)
next
  case 2
  then show ?case
    by (simp add: op_sub_def local_res_def SafeUint_new_def sv_simps uint_sub_def unat_sub not_less
        word_less_nat_alt word_le_nat_alt)
next
  case 3
  then show ?case
    by (auto simp: op_mul_def local_res_def SafeUint_new_def sv_simps uint_mul_spec unat_mult_no_wrap
        not_less)
qed

text \<open>
  An assignment operator that throws leaves the variable's value and its committed value
  as they were and still registers an owned variable; one that succeeds changes the transaction's value only,
  so reverting restores the committed value and committing keeps the new one.
\<close>

theorem SafeUint_assign_transactional:
  fixes s :: "'n::len word safe_var"
  shows "let r = op_sub_assign s x in
    (snd r = (if sv_get s < x then Some (UnderflowError ''Underflow in subtraction operation'') else None)) \<and>
    sv_get (fst r) = (if sv_get s < x then sv_get s else sv_get s - x) \<and>
    sv_get (sv_revert (fst r)) = sv_value s \<and>
    sv_value (sv_commit (fst r)) = sv_get (fst r) \<and>
    sv_registered (fst r) = (if sv_owner s = None then sv_registered s else True)"
  by (simp add: Let_def op_sub_assign_def sv_simps uint_sub_def)

text \<open>
  In the wide classes the guards make the checked integer operators unreachable at their
  exceptions: each operator behaves as the one of the built-in classes, so callers only ever see the
  documented exceptions.
\<close>

theorem wide_SafeUint_guards_suffice:
  "big_op_add s x = op_add s x \<and> big_op_sub s x = op_sub s x \<and> big_op_mul s x = op_mul s x \<and>
   big_op_div s x = op_div s x \<and> big_op_add_u64 s y = op_add s (ucast y) \<and>
   big_op_sub_u64 s y = op_sub s (ucast y) \<and> big_op_mul_u64 s y = op_mul s (ucast y) \<and>
   big_op_add_assign s x = op_add_assign s x \<and> big_op_sub_assign s x = op_sub_assign s x \<and>
   big_op_mul_assign s x = op_mul_assign s x \<and> big_op_div_assign s x = op_div_assign s x \<and>
   big_op_inc s = op_inc s \<and> big_op_dec s = op_dec s"
  by (simp add: big_op_add_def op_add_def big_op_sub_def op_sub_def big_op_mul_def op_mul_def
      big_op_div_def op_div_def big_op_add_u64_def big_op_sub_u64_def big_op_mul_u64_def
      big_op_add_assign_def op_add_assign_def big_op_sub_assign_def op_sub_assign_def
      big_op_mul_assign_def op_mul_assign_def big_op_div_assign_def op_div_assign_def
      big_op_inc_def op_inc_def big_op_dec_def op_dec_def big_eq_uint big_inc_eq big_dec_eq fun_eq_iff
      cong: sv_assign_cong)

end
