(* ===== verification/SafeScalars.thy ===== *)
theory SafeScalars
  imports SafeBase
begin

text \<open>
  \<^verbatim>\<open>safebool.h\<close>, \<^verbatim>\<open>safeaddress.h\<close> and \<^verbatim>\<open>reentrancyguard.h\<close> of \<^verbatim>\<open>contract/variables\<close>. A safe bool is a
  scalar safe variable as the integers are; a safe address differs in its constructors and in
  that \<open>commit\<close> and \<open>revert\<close> keep it registered.
\<close>

section \<open>SafeBool\<close>

definition SafeBool_new :: "nat option \<Rightarrow> bool \<Rightarrow> bool safe_var" where
  "SafeBool_new owner v = sv_new owner False v"

definition SafeBool_copy :: "bool safe_var \<Rightarrow> bool safe_var" where
  "SafeBool_copy other = sv_new None (sv_value other) (sv_get other)"

definition SafeBool_get :: "bool safe_var \<Rightarrow> bool" where
  "SafeBool_get s = sv_get s"

definition SafeBool_commit :: "bool safe_var \<Rightarrow> bool safe_var" where
  "SafeBool_commit s = sv_commit s"

definition SafeBool_revert :: "bool safe_var \<Rightarrow> bool safe_var" where
  "SafeBool_revert s = sv_revert s"

definition SafeBool_assign :: "bool safe_var \<Rightarrow> bool \<Rightarrow> bool safe_var" where
  "SafeBool_assign s v = fst (sv_assign (\<lambda>_. Inr v) s)"

section \<open>SafeAddress\<close>

definition SafeAddress_new :: "nat option \<Rightarrow> Address \<Rightarrow> Address safe_var" where
  "SafeAddress_new owner address = sv_new owner address address"

definition SafeAddress_new_local :: "Address \<Rightarrow> Address safe_var" where
  "SafeAddress_new_local address = sv_new None (replicate 20 0) address"

text \<open>The copy constructor checks the new object, not the one whose pointer it dereferences.\<close>

definition SafeAddress_copy :: "Address safe_var \<Rightarrow> Address safe_var res" where
  "SafeAddress_copy other =
     (case sv_valuePtr other of
        None \<Rightarrow> Inl UndefinedBehaviour
      | Some a \<Rightarrow> Inr (sv_new None (sv_value other) a))"

definition SafeAddress_get :: "Address safe_var \<Rightarrow> Address" where
  "SafeAddress_get s = sv_get s"

definition SafeAddress_commit :: "Address safe_var \<Rightarrow> Address safe_var" where
  "SafeAddress_commit s = (let s' = sv_check s in
     s'\<lparr>sv_value := the (sv_valuePtr s'), sv_valuePtr := None\<rparr>)"

definition SafeAddress_revert :: "Address safe_var \<Rightarrow> Address safe_var" where
  "SafeAddress_revert s = s\<lparr>sv_valuePtr := None\<rparr>"

definition SafeAddress_assign :: "Address safe_var \<Rightarrow> Address \<Rightarrow> Address safe_var" where
  "SafeAddress_assign s address = fst (sv_assign (\<lambda>_. Inr address) s)"

definition SafeAddress_eq :: "Address safe_var \<Rightarrow> Address \<Rightarrow> bool" where
  "SafeAddress_eq s other \<longleftrightarrow> sv_get s = other"

definition SafeAddress_ne :: "Address safe_var \<Rightarrow> Address \<Rightarrow> bool" where
  "SafeAddress_ne s other \<longleftrightarrow> sv_get s \<noteq> other"

section \<open>SafeString\<close>

text \<open>
  The lifecycle of a safe string; its other members apply a \<^verbatim>\<open>std::string\<close> operation to the
  transaction's value after \<open>check\<close> and \<open>markAsUsed\<close>. Its \<open>commit\<close> keeps the pointer.
\<close>

definition SafeString_new :: "nat option \<Rightarrow> string \<Rightarrow> string safe_var" where
  "SafeString_new owner str = sv_new owner [] str"

definition SafeString_copy :: "string safe_var \<Rightarrow> string safe_var" where
  "SafeString_copy other = sv_new None [] (sv_get other)"

definition SafeString_get :: "string safe_var \<Rightarrow> string" where
  "SafeString_get s = sv_get s"

definition SafeString_commit :: "string safe_var \<Rightarrow> string safe_var" where
  "SafeString_commit s = (let s' = sv_check s in
     s'\<lparr>sv_value := the (sv_valuePtr s'), sv_registered := False\<rparr>)"

definition SafeString_revert :: "string safe_var \<Rightarrow> string safe_var" where
  "SafeString_revert s = s\<lparr>sv_valuePtr := None, sv_registered := False\<rparr>"

definition SafeString_assign :: "string safe_var \<Rightarrow> string \<Rightarrow> string safe_var" where
  "SafeString_assign s str = fst (sv_assign (\<lambda>_. Inr str) s)"

section \<open>ReentrancyGuard\<close>

text \<open>
  A guarded function: the constructor throws when the lock is taken, otherwise takes it; the
  destructor releases it on every exit from the body, also by an exception.
\<close>

definition with_guard :: "(bool \<times> 's \<Rightarrow> (bool \<times> 's) \<times> 'a res) \<Rightarrow> bool \<times> 's \<Rightarrow> (bool \<times> 's) \<times> 'a res" where
  "with_guard body st =
     (if fst st then (st, Inl (RuntimeError ''ReentrancyGuard: reentrancy attack detected''))
      else (case body (True, snd st) of ((_, s), r) \<Rightarrow> ((False, s), r)))"

section \<open>Lemmas\<close>

lemma SafeAddress_commit_fields [sv_simps]:
  "sv_value (SafeAddress_commit s) = sv_get s" "sv_get (SafeAddress_commit s) = sv_get s"
  "sv_owner (SafeAddress_commit s) = sv_owner s" "sv_registered (SafeAddress_commit s) = sv_registered s"
  by (simp_all add: SafeAddress_commit_def Let_def sv_simps sv_get_eq [of "_ \<lparr>sv_valuePtr := None\<rparr>"])

lemma SafeAddress_revert_fields [sv_simps]:
  "sv_value (SafeAddress_revert s) = sv_value s" "sv_get (SafeAddress_revert s) = sv_value s"
  "sv_owner (SafeAddress_revert s) = sv_owner s" "sv_registered (SafeAddress_revert s) = sv_registered s"
  by (simp_all add: SafeAddress_revert_def sv_get_eq)

lemma SafeString_commit_fields [sv_simps]:
  "sv_value (SafeString_commit s) = sv_get s" "sv_get (SafeString_commit s) = sv_get s"
  "sv_owner (SafeString_commit s) = sv_owner s" "\<not> sv_registered (SafeString_commit s)"
  by (simp_all add: SafeString_commit_def Let_def sv_simps sv_get_eq [of "_ \<lparr>sv_registered := False\<rparr>"])

lemma SafeString_revert_eq [sv_simps]: "SafeString_revert s = sv_revert s"
  by (simp add: SafeString_revert_def sv_revert_def)

interpretation string_var: tx_variable SafeString_get sv_value SafeString_commit SafeString_revert "\<lambda>_. True" sv_registered
  by unfold_locales (simp_all add: SafeString_get_def sv_simps)

interpretation bool_var: tx_variable SafeBool_get sv_value SafeBool_commit SafeBool_revert "\<lambda>_. True" sv_registered
  by unfold_locales (simp_all add: SafeBool_get_def SafeBool_commit_def SafeBool_revert_def sv_simps)

interpretation address_var: safe_variable SafeAddress_get sv_value SafeAddress_commit SafeAddress_revert "\<lambda>_. True"
  by unfold_locales (simp_all add: SafeAddress_get_def sv_simps)

text \<open>A guarded body cannot be entered again while it runs, however deep the call.\<close>

lemma with_guard_reentry: "snd (with_guard body (True, s)) = Inl (RuntimeError ''ReentrancyGuard: reentrancy attack detected'')"
  by (simp add: with_guard_def)

lemma with_guard_releases: "\<not> l \<Longrightarrow> \<not> fst (fst (with_guard body (l, s)))"
  by (simp add: with_guard_def split: prod.split)

section \<open>Properties\<close>


end
