(* ===== verification/SafeUnorderedMap.thy ===== *)
theory SafeUnorderedMap
  imports SafeBase
begin

text \<open>
  \<^verbatim>\<open>contract/variables/safeunorderedmap.h\<close>: the committed map, the entries the running transaction has
  read or written, and the keys it erased. The specification is the map a contract sees
  (\<open>um_view\<close>); the locale \<open>map_contract\<close> is what the token contracts rely on.
\<close>

section \<open>State\<close>

record ('k, 'v) safe_map =
  um_owner :: "nat option"
  um_registered :: bool
  um_map :: "'k \<rightharpoonup> 'v"
  um_mapPtr :: "('k \<rightharpoonup> 'v) option"
  um_erasedKeys :: "'k set option"

section \<open>Private helpers\<close>

definition um_check :: "('k, 'v) safe_map \<Rightarrow> ('k, 'v) safe_map" where
  "um_check m =
     (let m1 = (if um_mapPtr m = None then m\<lparr>um_mapPtr := Some Map.empty\<rparr> else m)
      in if um_erasedKeys m1 = None then m1\<lparr>um_erasedKeys := Some {}\<rparr> else m1)"

definition um_ptr :: "('k, 'v) safe_map \<Rightarrow> 'k \<rightharpoonup> 'v" where
  "um_ptr m = (case um_mapPtr m of None \<Rightarrow> Map.empty | Some p \<Rightarrow> p)"

definition um_erased :: "('k, 'v) safe_map \<Rightarrow> 'k set" where
  "um_erased m = (case um_erasedKeys m of None \<Rightarrow> {} | Some e \<Rightarrow> e)"

text \<open>Writing an entry of \<open>*mapPtr\<close>, also through a reference that an accessor returned.\<close>

definition um_write :: "('k, 'v) safe_map \<Rightarrow> 'k \<Rightarrow> 'v \<Rightarrow> ('k, 'v) safe_map" where
  "um_write m k v = m\<lparr>um_mapPtr := Some ((um_ptr m)(k \<mapsto> v))\<rparr>"

definition um_markAsUsed :: "('k, 'v) safe_map \<Rightarrow> ('k, 'v) safe_map" where
  "um_markAsUsed m = m\<lparr>um_registered := fst (markAsUsed (um_owner m) (um_registered m))\<rparr>"

definition checkKeyAndCopy :: "('k, 'v) safe_map \<Rightarrow> 'k \<Rightarrow> ('k, 'v) safe_map" where
  "checkKeyAndCopy m0 key =
     (let m = um_check m0 in
      case um_ptr m key of
        Some _ \<Rightarrow> m
      | None \<Rightarrow> (case um_map m key of
            Some v \<Rightarrow> if key \<in> um_erased m then m else um_write m key v
          | None \<Rightarrow> m))"

definition checkKeyAndCreate :: "'v \<Rightarrow> ('k, 'v) safe_map \<Rightarrow> 'k \<Rightarrow> ('k, 'v) safe_map" where
  "checkKeyAndCreate dflt m0 key =
     (let m = um_check m0 in
      case um_ptr m key of
        Some _ \<Rightarrow> m
      | None \<Rightarrow> (case um_map m key of
            None \<Rightarrow> um_write m key dflt
          | Some v \<Rightarrow> if key \<in> um_erased m then um_write m key dflt else um_write m key v))"

definition checkKeyAndThrow :: "('k, 'v) safe_map \<Rightarrow> 'k \<Rightarrow> ('k, 'v) safe_map \<times> error option" where
  "checkKeyAndThrow m0 key =
     (let m = um_check m0 in
      case um_ptr m key of
        Some _ \<Rightarrow> (m, None)
      | None \<Rightarrow> (case um_map m key of
            None \<Rightarrow> (m, Some (RuntimeError ''Key not found''))
          | Some v \<Rightarrow> if key \<in> um_erased m then (m, Some (RuntimeError ''Key not found''))
                      else (um_write m key v, None)))"

section \<open>Public operations\<close>

definition um_new :: "nat option \<Rightarrow> ('k \<rightharpoonup> 'v) \<Rightarrow> ('k, 'v) safe_map" where
  "um_new owner init = \<lparr>um_owner = owner, um_registered = False, um_map = init,
     um_mapPtr = None, um_erasedKeys = None\<rparr>"

definition um_new_local :: "('k \<rightharpoonup> 'v) \<Rightarrow> ('k, 'v) safe_map" where
  "um_new_local init = \<lparr>um_owner = None, um_registered = False, um_map = Map.empty,
     um_mapPtr = Some init, um_erasedKeys = None\<rparr>"

definition um_copy :: "('k, 'v) safe_map \<Rightarrow> ('k, 'v) safe_map" where
  "um_copy other = (let o' = um_check other in
     \<lparr>um_owner = None, um_registered = False, um_map = um_map o',
      um_mapPtr = um_mapPtr o', um_erasedKeys = um_erasedKeys o'\<rparr>)"

definition um_count :: "('k, 'v) safe_map \<Rightarrow> 'k \<Rightarrow> nat" where
  "um_count m key = (if um_ptr (checkKeyAndCopy m key) key = None then 0 else 1)"

text \<open>An iterator into \<open>*mapPtr\<close> is the entry it points to, \<open>None\<close> for \<open>end()\<close>.\<close>

definition um_find :: "('k, 'v) safe_map \<Rightarrow> 'k \<Rightarrow> ('k, 'v) safe_map \<times> 'v option" where
  "um_find m key = (let m' = um_markAsUsed (checkKeyAndCopy m key) in (m', um_ptr m' key))"

definition um_find_const :: "('k, 'v) safe_map \<Rightarrow> 'k \<Rightarrow> 'v option" where
  "um_find_const m key = um_ptr (checkKeyAndCopy m key) key"

definition um_contains :: "('k, 'v) safe_map \<Rightarrow> 'k \<Rightarrow> bool" where
  "um_contains m key \<longleftrightarrow> um_ptr (checkKeyAndCopy m key) key \<noteq> None"

text \<open>
  \<open>commit\<close>: \<open>merge\<close> moves the entries whose keys are new, the loop assigns those that stayed in
  \<open>*mapPtr\<close>, then the erased keys are removed. \<open>erasedKeys\<close> itself is kept.
\<close>

definition um_merge :: "('k \<rightharpoonup> 'v) \<Rightarrow> ('k \<rightharpoonup> 'v) \<Rightarrow> ('k \<rightharpoonup> 'v) \<times> ('k \<rightharpoonup> 'v)" where
  "um_merge target source = (source ++ target, source |` dom target)"

definition um_commit :: "('k, 'v) safe_map \<Rightarrow> ('k, 'v) safe_map" where
  "um_commit m0 =
     (let m = um_check m0;
          (merged, rest) = um_merge (um_map m) (um_ptr m);
          assigned = merged ++ rest
      in m\<lparr>um_map := assigned |` (- um_erased m), um_mapPtr := None, um_registered := False\<rparr>)"

definition um_revert :: "('k, 'v) safe_map \<Rightarrow> ('k, 'v) safe_map" where
  "um_revert m = m\<lparr>um_mapPtr := None, um_erasedKeys := None, um_registered := False\<rparr>"

definition um_empty :: "('k, 'v) safe_map \<Rightarrow> bool" where
  "um_empty m \<longleftrightarrow> dom (um_map m) = {} \<or> dom (um_ptr (um_check m)) = {}"

definition um_size :: "('k, 'v) safe_map \<Rightarrow> nat" where
  "um_size m = card (dom (um_map m))"

definition um_insert :: "('k, 'v) safe_map \<Rightarrow> 'k \<Rightarrow> 'v \<Rightarrow> ('k, 'v) safe_map \<times> bool" where
  "um_insert m0 key v =
     (let m = um_markAsUsed (um_check m0) in
      if um_ptr m key = None then (um_write m key v, True) else (m, False))"

fun um_insert_range :: "('k, 'v) safe_map \<Rightarrow> ('k \<times> 'v) list \<Rightarrow> ('k, 'v) safe_map" where
  "um_insert_range m [] = um_markAsUsed (um_check m)"
| "um_insert_range m ((k, v) # kvs) = um_insert_range (fst (um_insert m k v)) kvs"

definition um_insert_or_assign :: "('k, 'v) safe_map \<Rightarrow> 'k \<Rightarrow> 'v \<Rightarrow> ('k, 'v) safe_map \<times> bool" where
  "um_insert_or_assign m0 k obj =
     (let m = um_markAsUsed (um_check m0) in (um_write m k obj, um_ptr m k = None))"

definition um_emplace :: "('k, 'v) safe_map \<Rightarrow> 'k \<Rightarrow> 'v \<Rightarrow> ('k, 'v) safe_map \<times> bool" where
  "um_emplace m0 key v =
     (let m = um_markAsUsed (um_check m0) in
      if um_ptr m key = None then (um_write m key v, True) else (m, False))"

definition um_erase :: "('k, 'v) safe_map \<Rightarrow> 'k \<Rightarrow> ('k, 'v) safe_map \<times> nat" where
  "um_erase m0 key =
     (let m = um_markAsUsed (um_check m0);
          m' = m\<lparr>um_erasedKeys := Some (insert key (um_erased m)),
                um_mapPtr := Some ((um_ptr m)(key := None))\<rparr>
      in (m', if um_ptr m key = None then 0 else 1))"

definition um_at :: "('k, 'v) safe_map \<Rightarrow> 'k \<Rightarrow> ('k, 'v) safe_map \<times> 'v res" where
  "um_at m key =
     (case checkKeyAndThrow m key of
        (m', Some e) \<Rightarrow> (m', Inl e)
      | (m', None) \<Rightarrow> (um_markAsUsed m', Inr (the (um_ptr m' key))))"

definition um_at_const :: "('k, 'v) safe_map \<Rightarrow> 'k \<Rightarrow> 'v res" where
  "um_at_const m key =
     (case checkKeyAndThrow m key of
        (_, Some e) \<Rightarrow> Inl e
      | (m', None) \<Rightarrow> Inr (the (um_ptr m' key)))"

text \<open>
  \<open>operator[]\<close> returns a reference into \<open>*mapPtr\<close>: its value and, for an assignment
  through it, \<open>um_write\<close>.
\<close>

definition um_index :: "'v \<Rightarrow> ('k, 'v) safe_map \<Rightarrow> 'k \<Rightarrow> ('k, 'v) safe_map \<times> 'v" where
  "um_index dflt m key =
     (let m' = um_markAsUsed (checkKeyAndCreate dflt m key) in (m', the (um_ptr m' key)))"

definition um_index_assign :: "'v \<Rightarrow> ('k, 'v) safe_map \<Rightarrow> 'k \<Rightarrow> 'v \<Rightarrow> ('k, 'v) safe_map" where
  "um_index_assign dflt m key v = um_write (fst (um_index dflt m key)) key v"

definition um_assign :: "('k, 'v) safe_map \<Rightarrow> ('k, 'v) safe_map \<Rightarrow> ('k, 'v) safe_map" where
  "um_assign m other = (let m' = um_markAsUsed m; o' = um_check other in
     m'\<lparr>um_map := um_map o', um_mapPtr := um_mapPtr o', um_erasedKeys := um_erasedKeys o'\<rparr>)"

section \<open>The map a contract sees\<close>

definition um_view :: "('k, 'v) safe_map \<Rightarrow> 'k \<rightharpoonup> 'v" where
  "um_view m k = (case um_ptr m k of Some v \<Rightarrow> Some v
     | None \<Rightarrow> if k \<in> um_erased m then None else um_map m k)"

text \<open>No entry of the transaction has a key that is also recorded as erased.\<close>

definition um_wf :: "('k, 'v) safe_map \<Rightarrow> bool" where
  "um_wf m \<longleftrightarrow> dom (um_ptr m) \<inter> um_erased m = {}"

named_theorems um_simps \<open>observations of safe maps\<close>

lemma um_check_obs [um_simps]:
  "um_ptr (um_check m) = um_ptr m" "um_erased (um_check m) = um_erased m"
  "um_map (um_check m) = um_map m" "um_owner (um_check m) = um_owner m"
  "um_registered (um_check m) = um_registered m" "um_view (um_check m) = um_view m"
  by (auto simp: um_check_def um_ptr_def um_erased_def um_view_def Let_def split: option.splits)

lemma um_mark_obs [um_simps]:
  "um_ptr (um_markAsUsed m) = um_ptr m" "um_erased (um_markAsUsed m) = um_erased m"
  "um_map (um_markAsUsed m) = um_map m" "um_owner (um_markAsUsed m) = um_owner m"
  "um_registered (um_markAsUsed m) \<longleftrightarrow> um_registered m \<or> um_owner m \<noteq> None"
  "um_view (um_markAsUsed m) = um_view m"
  by (auto simp: um_markAsUsed_def markAsUsed_def um_ptr_def um_erased_def um_view_def fun_eq_iff
      split: option.split)

lemma um_write_obs [um_simps]:
  "um_ptr (um_write m k v) = (um_ptr m)(k \<mapsto> v)" "um_erased (um_write m k v) = um_erased m"
  "um_map (um_write m k v) = um_map m" "um_owner (um_write m k v) = um_owner m"
  "um_registered (um_write m k v) = um_registered m" "um_view (um_write m k v) = (um_view m)(k \<mapsto> v)"
  by (auto simp: um_write_def um_ptr_def um_erased_def um_view_def fun_eq_iff
      split: option.split)

lemma um_view_cases:
  "um_ptr m k = None \<Longrightarrow> um_view m k = (if k \<in> um_erased m then None else um_map m k)"
  "um_ptr m k = Some v \<Longrightarrow> um_view m k = Some v"
  by (simp_all add: um_view_def)

lemma um_copy_obs [um_simps]:
  "um_view (checkKeyAndCopy m k) = um_view m"
  "um_ptr (checkKeyAndCopy m k) k = um_view m k"
  "um_map (checkKeyAndCopy m k) = um_map m"
  "um_erased (checkKeyAndCopy m k) = um_erased m"
  "um_owner (checkKeyAndCopy m k) = um_owner m"
  "um_registered (checkKeyAndCopy m k) = um_registered m"
  "um_wf m \<Longrightarrow> um_wf (checkKeyAndCopy m k)"
  by (auto simp: checkKeyAndCopy_def Let_def um_simps um_view_cases um_wf_def fun_upd_idem
      split: option.splits)

lemma um_create_obs [um_simps]:
  "um_view (checkKeyAndCreate d m k) = (case um_view m k of None \<Rightarrow> (um_view m)(k \<mapsto> d) | Some _ \<Rightarrow> um_view m)"
  "um_ptr (checkKeyAndCreate d m k) k = Some (case um_view m k of None \<Rightarrow> d | Some v \<Rightarrow> v)"
  "um_map (checkKeyAndCreate d m k) = um_map m"
  "um_erased (checkKeyAndCreate d m k) = um_erased m"
  "um_owner (checkKeyAndCreate d m k) = um_owner m"
  "um_registered (checkKeyAndCreate d m k) = um_registered m"
  by (auto simp: checkKeyAndCreate_def Let_def um_simps um_view_cases fun_upd_idem split: option.splits)

lemma um_create_wf [um_simps]:
  "um_wf m \<Longrightarrow> k \<notin> um_erased m \<Longrightarrow> um_wf (checkKeyAndCreate d m k)"
  by (auto simp: checkKeyAndCreate_def Let_def um_simps um_wf_def split: option.splits)

lemma checkKeyAndThrow_spec:
  "checkKeyAndThrow m k =
     (case um_view m k of None \<Rightarrow> (um_check m, Some (RuntimeError ''Key not found''))
      | Some _ \<Rightarrow> (checkKeyAndCopy m k, None))"
  by (auto simp: checkKeyAndThrow_def checkKeyAndCopy_def Let_def um_simps um_view_cases split: option.splits)

lemma um_find_obs [um_simps]:
  "snd (um_find m k) = um_view m k" "um_view (fst (um_find m k)) = um_view m"
  "um_map (fst (um_find m k)) = um_map m" "um_erased (fst (um_find m k)) = um_erased m"
  "um_owner (fst (um_find m k)) = um_owner m"
  "um_registered (fst (um_find m k)) \<longleftrightarrow> um_registered m \<or> um_owner m \<noteq> None"
  by (simp_all add: um_find_def Let_def um_simps)

lemma um_insert_obs [um_simps]:
  "um_view (fst (um_insert m k v)) = (if um_ptr m k = None then (um_view m)(k \<mapsto> v) else um_view m)"
  "snd (um_insert m k v) \<longleftrightarrow> um_ptr m k = None"
  "um_ptr (fst (um_insert m k v)) k \<noteq> None"
  "um_erased (fst (um_insert m k v)) = um_erased m"
  "um_map (fst (um_insert m k v)) = um_map m"
  by (auto simp: um_insert_def Let_def um_simps)

lemma um_erase_obs [um_simps]:
  "um_view (fst (um_erase m k)) = (um_view m)(k := None)"
  "um_erased (fst (um_erase m k)) = insert k (um_erased m)"
  "um_ptr (fst (um_erase m k)) = (um_ptr m)(k := None)"
  "um_map (fst (um_erase m k)) = um_map m"
  "um_owner (fst (um_erase m k)) = um_owner m"
  "um_registered (fst (um_erase m k)) \<longleftrightarrow> um_registered m \<or> um_owner m \<noteq> None"
proof -
  have ptr: "um_ptr (fst (um_erase m k)) = (um_ptr m)(k := None)"
    and er: "um_erased (fst (um_erase m k)) = insert k (um_erased m)"
    and mp: "um_map (fst (um_erase m k)) = um_map m"
    by (simp_all add: um_erase_def Let_def um_ptr_def [of "_ \<lparr>um_mapPtr := _\<rparr>"]
        um_erased_def [of "_ \<lparr>um_erasedKeys := _, um_mapPtr := _\<rparr>"] um_simps)
  then show "um_ptr (fst (um_erase m k)) = (um_ptr m)(k := None)"
    "um_erased (fst (um_erase m k)) = insert k (um_erased m)" "um_map (fst (um_erase m k)) = um_map m"
    by simp_all
  show "um_view (fst (um_erase m k)) = (um_view m)(k := None)"
    by (auto simp: fun_eq_iff um_view_def ptr er mp split: option.splits)
  show "um_owner (fst (um_erase m k)) = um_owner m"
    "um_registered (fst (um_erase m k)) \<longleftrightarrow> um_registered m \<or> um_owner m \<noteq> None"
    by (simp_all add: um_erase_def Let_def um_simps)
qed

lemma um_erase_wf: "um_wf m \<Longrightarrow> um_wf (fst (um_erase m k))"
  by (auto simp: um_wf_def um_simps)

lemma um_index_obs [um_simps]:
  "snd (um_index d m k) = (case um_view m k of None \<Rightarrow> d | Some v \<Rightarrow> v)"
  "um_view (fst (um_index d m k)) = (case um_view m k of None \<Rightarrow> (um_view m)(k \<mapsto> d) | Some _ \<Rightarrow> um_view m)"
  "um_map (fst (um_index d m k)) = um_map m"
  "um_erased (fst (um_index d m k)) = um_erased m"
  "um_owner (fst (um_index d m k)) = um_owner m"
  "um_registered (fst (um_index d m k)) \<longleftrightarrow> um_registered m \<or> um_owner m \<noteq> None"
  by (simp_all add: um_index_def Let_def um_simps)

lemma um_index_assign_obs [um_simps]:
  "um_view (um_index_assign d m k v) = (um_view m)(k \<mapsto> v)"
  "um_map (um_index_assign d m k v) = um_map m"
  "um_erased (um_index_assign d m k v) = um_erased m"
  "um_owner (um_index_assign d m k v) = um_owner m"
  "um_registered (um_index_assign d m k v) \<longleftrightarrow> um_registered m \<or> um_owner m \<noteq> None"
  by (simp_all add: um_index_assign_def um_simps split: option.split)

lemma um_commit_obs [um_simps]:
  "um_map (um_commit m) = (um_map m ++ um_ptr m) |` (- um_erased m)"
  "um_ptr (um_commit m) = Map.empty"
  "um_erased (um_commit m) = um_erased m"
  "um_owner (um_commit m) = um_owner m"
  "\<not> um_registered (um_commit m)"
proof -
  have "(um_ptr m ++ um_map m) ++ (um_ptr m |` dom (um_map m)) = um_map m ++ um_ptr m"
    by (auto simp: fun_eq_iff map_add_def restrict_map_def split: option.splits)
  then show "um_map (um_commit m) = (um_map m ++ um_ptr m) |` (- um_erased m)"
    by (simp add: um_commit_def um_merge_def Let_def um_simps)
qed (simp_all add: um_commit_def um_merge_def Let_def um_ptr_def um_erased_def um_check_def)

lemma um_revert_obs [um_simps]:
  "um_map (um_revert m) = um_map m" "um_ptr (um_revert m) = Map.empty"
  "um_erased (um_revert m) = {}" "um_owner (um_revert m) = um_owner m" "\<not> um_registered (um_revert m)"
  by (simp_all add: um_revert_def um_ptr_def um_erased_def)

text \<open>After a commit a key is present exactly when it was present and never recorded as erased.\<close>

lemma um_wfD: "um_wf m \<Longrightarrow> k \<in> um_erased m \<Longrightarrow> um_ptr m k = None"
  by (auto simp: um_wf_def)

lemma um_view_commit: "um_view (um_commit m) k = (if k \<in> um_erased m then None else um_view m k)"
  by (auto simp: um_view_def um_simps restrict_map_def map_add_def split: option.splits)

section \<open>Interfaces\<close>

text \<open>What a contract relies on when it uses a safe map as its storage.\<close>

locale map_contract =
  fixes lookup :: "'s \<Rightarrow> 'k \<Rightarrow> 'v option" and assign :: "'s \<Rightarrow> 'k \<Rightarrow> 'v \<Rightarrow> 's" and remove :: "'s \<Rightarrow> 'k \<Rightarrow> 's"
  assumes lookup_assign: "lookup (assign s k v) = (lookup s)(k \<mapsto> v)"
    and lookup_remove: "lookup (remove s k) = (lookup s)(k := None)"
begin

definition weight :: "('v \<Rightarrow> nat) \<Rightarrow> 's \<Rightarrow> 'k \<Rightarrow> nat" where
  "weight w s k = (case lookup s k of None \<Rightarrow> 0 | Some v \<Rightarrow> w v)"

lemma weight_assign: "weight w (assign s k v) k' = (if k' = k then w v else weight w s k')"
  by (simp add: weight_def lookup_assign)

lemma weight_remove: "weight w (remove s k) k' = (if k' = k then 0 else weight w s k')"
  by (simp add: weight_def lookup_remove)

lemma sum_weight_assign:
  assumes "finite A" "k \<in> A"
  shows "(\<Sum>x\<in>A. weight w (assign s k v) x) + weight w s k = (\<Sum>x\<in>A. weight w s x) + w v"
proof -
  have "(\<Sum>x\<in>A - {k}. weight w (assign s k v) x) = (\<Sum>x\<in>A - {k}. weight w s x)"
    by (intro sum.cong) (auto simp: weight_assign)
  then show ?thesis
    using sum.remove [OF assms, of "weight w s"] sum.remove [OF assms, of "weight w (assign s k v)"]
    by (simp add: weight_assign)
qed

text \<open>The total weight of the entries, and how an assignment changes it.\<close>

definition total :: "('v \<Rightarrow> nat) \<Rightarrow> 's \<Rightarrow> nat" where
  "total w s = (\<Sum>x\<in>dom (lookup s). weight w s x)"

lemma total_superset:
  assumes "finite A" "dom (lookup s) \<subseteq> A"
  shows "total w s = (\<Sum>x\<in>A. weight w s x)"
  unfolding total_def
  by (rule sum.mono_neutral_left) (use assms in \<open>auto simp: weight_def dom_def\<close>)

lemma total_assign:
  assumes "finite (dom (lookup s))"
  shows "total w (assign s k v) + weight w s k = total w s + w v"
proof -
  let ?A = "insert k (dom (lookup s))"
  have "total w s = (\<Sum>x\<in>?A. weight w s x)" using assms by (intro total_superset) auto
  moreover have "total w (assign s k v) = (\<Sum>x\<in>?A. weight w (assign s k v) x)"
    using assms by (intro total_superset) (auto simp: lookup_assign)
  ultimately show ?thesis using sum_weight_assign [of ?A k w s v] assms by simp
qed

lemma weight_le_total: "finite (dom (lookup s)) \<Longrightarrow> weight w s k \<le> total w s"
  unfolding total_superset [of "insert k (dom (lookup s))" s w, OF finite.insertI subset_insertI]
  by (rule member_le_sum) auto

lemma weight_pair_le_total:
  assumes "finite (dom (lookup s))" "k \<noteq> k'"
  shows "weight w s k + weight w s k' \<le> total w s"
proof -
  let ?A = "insert k (insert k' (dom (lookup s)))"
  have "total w s = (\<Sum>x\<in>?A. weight w s x)" using assms by (intro total_superset) auto
  moreover have "(\<Sum>x\<in>{k, k'}. weight w s x) \<le> (\<Sum>x\<in>?A. weight w s x)"
    using assms by (intro sum_mono2) auto
  ultimately show ?thesis using assms(2) by simp
qed

lemma assign_assign: "lookup (assign (assign s k v) k v') = lookup (assign s k v')"
  by (simp add: lookup_assign)

end

interpretation umap: map_contract um_view "um_index_assign d" "\<lambda>m k. fst (um_erase m k)"
  for d :: 'v
  by unfold_locales (simp_all add: um_simps)

interpretation umap_tx: tx_variable um_view um_map um_commit um_revert um_wf um_registered
proof
  fix m :: "('k, 'v) safe_map"
  assume wf: "um_wf m"
  show "um_wf (um_commit m)" "um_wf (um_revert m)" by (simp_all add: um_wf_def um_simps)
  show "um_view (um_commit m) = um_view m"
  proof
    fix k
    show "um_view (um_commit m) k = um_view m k"
      using um_view_cases(1) [OF um_wfD [OF wf, of k]] by (simp add: um_view_commit)
  qed
  show "um_map (um_commit m) = um_view m"
    using wf by (auto simp: fun_eq_iff um_simps um_wf_def um_view_def restrict_map_def map_add_def
        split: option.splits)
  show "um_view (um_revert m) = um_map m" by (auto simp: fun_eq_iff um_view_def um_simps)
  show "um_map (um_revert m) = um_map m" by (simp add: um_simps)
  show "\<not> um_registered (um_commit m)" "\<not> um_registered (um_revert m)" by (simp_all add: um_simps)
qed

section \<open>Properties\<close>


text \<open>
  Committing a safe map makes the map the contract sees the committed one, and reverting
  restores the committed map; both leave it unregistered. This needs that no key erased
  since the last revert has been written again.
\<close>

theorem safe_map_commit_revert:
  assumes "dom (um_ptr m) \<inter> um_erased m = {}"
  shows "um_view (um_commit m) = um_view m \<and> um_map (um_commit m) = um_view m \<and>
    um_view (um_revert m) = um_map m \<and> um_map (um_revert m) = um_map m \<and>
    \<not> um_registered (um_commit m) \<and> \<not> um_registered (um_revert m)"
proof -
  have "um_wf m" using assms by (simp add: um_wf_def)
  then show ?thesis
    by (simp add: umap_tx.view_commit umap_tx.committed_commit umap_tx.view_revert
        umap_tx.committed_revert umap_tx.unregistered_commit umap_tx.unregistered_revert)
qed

theorem safe_map_commit_revert_witness:
  "let m = um_index_assign 0 (fst (um_erase (um_new (Some 1) [1 \<mapsto> 10, 2 \<mapsto> (20 :: nat)]) 1)) (3 :: nat) 30
   in um_map (um_commit m) 1 = None \<and> um_map (um_commit m) 2 = Some 20 \<and> um_map (um_commit m) 3 = Some 30"
proof -
  let ?m = "um_index_assign 0 (fst (um_erase (um_new (Some 1) [1 \<mapsto> 10, 2 \<mapsto> (20 :: nat)]) 1)) (3 :: nat) 30"
  have view: "um_view ?m = [2 \<mapsto> 20, 3 \<mapsto> 30]"
    by (auto simp: um_simps um_view_def um_ptr_def um_erased_def um_new_def fun_eq_iff)
  have "dom (um_ptr ?m) \<inter> um_erased ?m = {}"
    by (auto simp: um_index_assign_def um_index_def Let_def um_simps checkKeyAndCreate_def um_new_def
        um_ptr_def [of "\<lparr>um_owner = _, um_registered = _, um_map = _, um_mapPtr = _, um_erasedKeys = _\<rparr>"]
        um_erased_def [of "\<lparr>um_owner = _, um_registered = _, um_map = _, um_mapPtr = _, um_erasedKeys = _\<rparr>"])
  from safe_map_commit_revert [OF this] view show ?thesis by simp
qed

text \<open>
  A key that was erased and then written again is lost at the next commit: the contract sees the new
  entry until \<open>commit\<close>, which applies the insertions before the erasures; and since
  \<open>commit\<close> keeps \<open>erasedKeys\<close>, the same happens when the new entry is written in a later
  transaction.
\<close>

theorem safe_map_reinsert_after_erase_lost:
  "um_view (um_index_assign d (fst (um_erase m k)) k v) k = Some v \<and>
   um_view (um_commit (um_index_assign d (fst (um_erase m k)) k v)) k = None \<and>
   um_view (um_index_assign d (um_commit (fst (um_erase m k))) k v) k = Some v \<and>
   um_view (um_commit (um_index_assign d (um_commit (fst (um_erase m k))) k v)) k = None"
  by (simp add: um_view_commit um_simps)

end
