(* ===== verification/Erc20.thy ===== *)
theory Erc20
  imports SafeUint SafeScalars SafeUnorderedMap
begin

text \<open>
  The ERC-20 token contract (\<^verbatim>\<open>contract/erc20.cpp\<close>) over its safe variables. The invariant is that the
  balances add up to the total supply; the locale \<open>token_contract\<close> is what other contracts (wrapper,
  exchange) rely on when they call a token.
\<close>

section \<open>State\<close>

record erc20 =
  e_name :: "string safe_var"
  e_symbol :: "string safe_var"
  e_decimals :: "8 word safe_var"
  e_totalSupply :: "256 word safe_var"
  e_balances :: "(Address, uint256) safe_map"
  e_allowed :: "(Address, Address \<rightharpoonup> uint256) safe_map"

section \<open>Compound assignment through references\<close>

text \<open>\<open>m[key] += value\<close> and \<open>m[key] -= value\<close> on a safe map of checked integers.\<close>

definition map_add_assign ::
  "('k, uint256) safe_map \<Rightarrow> 'k \<Rightarrow> uint256 \<Rightarrow> ('k, uint256) safe_map \<times> error option" where
  "map_add_assign m key v =
     (let (m', cur) = um_index 0 m key in
      case checked_add cur v of Inl e \<Rightarrow> (m', Some e) | Inr x \<Rightarrow> (um_write m' key x, None))"

definition map_sub_assign ::
  "('k, uint256) safe_map \<Rightarrow> 'k \<Rightarrow> uint256 \<Rightarrow> ('k, uint256) safe_map \<times> error option" where
  "map_sub_assign m key v =
     (let (m', cur) = um_index 0 m key in
      case checked_sub cur v of Inl e \<Rightarrow> (m', Some e) | Inr x \<Rightarrow> (um_write m' key x, None))"

text \<open>\<open>m[key][inner] -= value\<close>: indexing the inner map creates a zero entry.\<close>

definition nested_index ::
  "('k, 'i \<rightharpoonup> uint256) safe_map \<Rightarrow> 'k \<Rightarrow> 'i \<Rightarrow> ('k, 'i \<rightharpoonup> uint256) safe_map \<times> uint256" where
  "nested_index m key i =
     (let (m', im) = um_index Map.empty m key in
      case im i of Some x \<Rightarrow> (m', x) | None \<Rightarrow> (um_write m' key (im(i \<mapsto> 0)), 0))"

definition nested_write ::
  "('k, 'i \<rightharpoonup> uint256) safe_map \<Rightarrow> 'k \<Rightarrow> 'i \<Rightarrow> uint256 \<Rightarrow> ('k, 'i \<rightharpoonup> uint256) safe_map" where
  "nested_write m key i v = um_write m key ((case um_ptr m key of None \<Rightarrow> Map.empty | Some im \<Rightarrow> im)(i \<mapsto> v))"

definition nested_sub_assign ::
  "('k, 'i \<rightharpoonup> uint256) safe_map \<Rightarrow> 'k \<Rightarrow> 'i \<Rightarrow> uint256 \<Rightarrow> ('k, 'i \<rightharpoonup> uint256) safe_map \<times> error option" where
  "nested_sub_assign m key i v =
     (let (m', cur) = nested_index m key i in
      case checked_sub cur v of Inl e \<Rightarrow> (m', Some e) | Inr x \<Rightarrow> (nested_write m' key i x, None))"

definition nested_add_assign ::
  "('k, 'i \<rightharpoonup> uint256) safe_map \<Rightarrow> 'k \<Rightarrow> 'i \<Rightarrow> uint256 \<Rightarrow> ('k, 'i \<rightharpoonup> uint256) safe_map \<times> error option" where
  "nested_add_assign m key i v =
     (let (m', cur) = nested_index m key i in
      case checked_add cur v of Inl e \<Rightarrow> (m', Some e) | Inr x \<Rightarrow> (nested_write m' key i x, None))"

definition nested_assign ::
  "('k, 'i \<rightharpoonup> uint256) safe_map \<Rightarrow> 'k \<Rightarrow> 'i \<Rightarrow> uint256 \<Rightarrow> ('k, 'i \<rightharpoonup> uint256) safe_map" where
  "nested_assign m key i v = nested_write (fst (nested_index m key i)) key i v"

section \<open>Lifting a field operation to the contract\<close>

definition on_balances ::
  "((Address, uint256) safe_map \<Rightarrow> (Address, uint256) safe_map \<times> error option) \<Rightarrow> erc20 \<Rightarrow> erc20 \<times> error option" where
  "on_balances f t = (case f (e_balances t) of (m, r) \<Rightarrow> (t\<lparr>e_balances := m\<rparr>, r))"

definition on_allowed ::
  "((Address, Address \<rightharpoonup> uint256) safe_map \<Rightarrow> (Address, Address \<rightharpoonup> uint256) safe_map \<times> error option)
    \<Rightarrow> erc20 \<Rightarrow> erc20 \<times> error option" where
  "on_allowed f t = (case f (e_allowed t) of (m, r) \<Rightarrow> (t\<lparr>e_allowed := m\<rparr>, r))"

definition on_totalSupply ::
  "(256 word safe_var \<Rightarrow> 256 word safe_var \<times> error option) \<Rightarrow> erc20 \<Rightarrow> erc20 \<times> error option" where
  "on_totalSupply f t = (case f (e_totalSupply t) of (v, r) \<Rightarrow> (t\<lparr>e_totalSupply := v\<rparr>, r))"

section \<open>The contract's functions\<close>

definition mintValue :: "Address \<Rightarrow> uint256 \<Rightarrow> erc20 \<Rightarrow> erc20 \<times> error option" where
  "mintValue address v t =
     andThen (on_balances (\<lambda>m. map_add_assign m address v) t)
             (on_totalSupply (\<lambda>s. big_op_add_assign s v))"

definition burnValue :: "Address \<Rightarrow> uint256 \<Rightarrow> erc20 \<Rightarrow> erc20 \<times> error option" where
  "burnValue address v t =
     andThen (on_balances (\<lambda>m. map_sub_assign m address v) t)
             (on_totalSupply (\<lambda>s. big_op_sub_assign s v))"

definition erc20_name :: "erc20 \<Rightarrow> string" where
  "erc20_name t = SafeString_get (e_name t)"

definition erc20_symbol :: "erc20 \<Rightarrow> string" where
  "erc20_symbol t = SafeString_get (e_symbol t)"

definition erc20_decimals :: "erc20 \<Rightarrow> uint8" where
  "erc20_decimals t = sv_get (e_decimals t)"

definition totalSupply :: "erc20 \<Rightarrow> uint256" where
  "totalSupply t = sv_get (e_totalSupply t)"

definition balanceOf :: "erc20 \<Rightarrow> Address \<Rightarrow> uint256" where
  "balanceOf t owner = (case um_find_const (e_balances t) owner of None \<Rightarrow> 0 | Some x \<Rightarrow> x)"

definition transfer :: "Address \<Rightarrow> Address \<Rightarrow> uint256 \<Rightarrow> erc20 \<Rightarrow> erc20 \<times> error option" where
  "transfer caller to v t =
     andThen (on_balances (\<lambda>m. map_sub_assign m caller v) t)
             (on_balances (\<lambda>m. map_add_assign m to v))"

definition approve :: "Address \<Rightarrow> Address \<Rightarrow> uint256 \<Rightarrow> erc20 \<Rightarrow> erc20 \<times> error option" where
  "approve caller spender v t = (t\<lparr>e_allowed := nested_assign (e_allowed t) caller spender v\<rparr>, None)"

definition allowance :: "erc20 \<Rightarrow> Address \<Rightarrow> Address \<Rightarrow> uint256" where
  "allowance t owner spender =
     (case um_find_const (e_allowed t) owner of
        None \<Rightarrow> 0
      | Some im \<Rightarrow> (case im spender of None \<Rightarrow> 0 | Some x \<Rightarrow> x))"

definition transferFrom :: "Address \<Rightarrow> Address \<Rightarrow> Address \<Rightarrow> uint256 \<Rightarrow> erc20 \<Rightarrow> erc20 \<times> error option" where
  "transferFrom caller from to v t =
     andThen (andThen (on_allowed (\<lambda>m. nested_sub_assign m from caller v) t)
                      (on_balances (\<lambda>m. map_sub_assign m from v)))
             (on_balances (\<lambda>m. map_add_assign m to v))"

text \<open>
  The constructor of a new token: all variables owned by the contract \<open>self\<close>; the supply goes
  to the creator. Only the three descriptive variables are committed here, the others with the
  creating transaction.
\<close>

definition erc20_new :: "nat \<Rightarrow> string \<Rightarrow> string \<Rightarrow> uint8 \<Rightarrow> uint256 \<Rightarrow> Address \<Rightarrow> erc20 \<times> error option" where
  "erc20_new self nam symb dec mint creator =
     (let t0 = \<lparr>e_name = SafeString_assign (SafeString_new (Some self) []) nam,
                e_symbol = SafeString_assign (SafeString_new (Some self) []) symb,
                e_decimals = fst (op_assign (SafeUint_new (Some self) 0) dec),
                e_totalSupply = SafeUint_new (Some self) 0,
                e_balances = um_new (Some self) Map.empty,
                e_allowed = um_new (Some self) Map.empty\<rparr>
      in andThen (mintValue creator mint t0)
           (\<lambda>t. (t\<lparr>e_name := SafeString_commit (e_name t), e_symbol := SafeString_commit (e_symbol t),
                   e_decimals := sv_commit (e_decimals t)\<rparr>, None)))"

text \<open>Commit and revert of all variables of the contract.\<close>

definition erc20_commit :: "erc20 \<Rightarrow> erc20" where
  "erc20_commit t =
     \<lparr>e_name = SafeString_commit (e_name t), e_symbol = SafeString_commit (e_symbol t),
      e_decimals = sv_commit (e_decimals t), e_totalSupply = sv_commit (e_totalSupply t),
      e_balances = um_commit (e_balances t), e_allowed = um_commit (e_allowed t)\<rparr>"

definition erc20_revert :: "erc20 \<Rightarrow> erc20" where
  "erc20_revert t =
     \<lparr>e_name = SafeString_revert (e_name t), e_symbol = SafeString_revert (e_symbol t),
      e_decimals = sv_revert (e_decimals t), e_totalSupply = sv_revert (e_totalSupply t),
      e_balances = um_revert (e_balances t), e_allowed = um_revert (e_allowed t)\<rparr>"

section \<open>Lemmas: one reference assignment\<close>

definition bal :: "('k, uint256) safe_map \<Rightarrow> 'k \<Rightarrow> uint256" where
  "bal m k = (case um_view m k of None \<Rightarrow> 0 | Some x \<Rightarrow> x)"

abbreviation total_bal :: "('k, uint256) safe_map \<Rightarrow> nat" where
  "total_bal m \<equiv> umap.total unat m"

lemma weight_bal: "umap.weight unat m k = unat (bal m k)"
  by (simp add: umap.weight_def bal_def split: option.split)

lemma bal_assign [simp]: "bal (um_index_assign d m k x) k' = (if k' = k then x else bal m k')"
  by (simp add: bal_def um_simps)

lemma map_add_assign_spec:
  "map_add_assign m k v = (if unat (bal m k) + unat v < 2 ^ 256
     then (um_index_assign 0 m k (bal m k + v), None) else (fst (um_index 0 m k), Some NumericError))"
proof -
  have "snd (um_index 0 m k) = bal m k" by (simp add: um_simps bal_def)
  then show ?thesis
    by (cases "um_index 0 m k") (simp add: map_add_assign_def um_index_assign_def checked_add_def)
qed

lemma map_sub_assign_spec:
  "map_sub_assign m k v = (if v \<le> bal m k
     then (um_index_assign 0 m k (bal m k - v), None) else (fst (um_index 0 m k), Some NumericError))"
proof -
  have "snd (um_index 0 m k) = bal m k" by (simp add: um_simps bal_def)
  then show ?thesis
    by (cases "um_index 0 m k") (simp add: map_sub_assign_def um_index_assign_def checked_sub_def)
qed

lemma finite_view_assign [simp]:
  "finite (dom (um_view (um_index_assign d m k x))) = finite (dom (um_view m))"
  by (simp add: um_simps)

lemma total_bal_assign:
  "finite (dom (um_view m)) \<Longrightarrow> total_bal (um_index_assign 0 m k x) + unat (bal m k) = total_bal m + unat x"
  using umap.total_assign [of m unat 0 k x] by (simp add: weight_bal)

text \<open>The nested map: its view as one map on pairs.\<close>

definition nested_bal :: "('k, 'i \<rightharpoonup> uint256) safe_map \<Rightarrow> 'k \<Rightarrow> 'i \<Rightarrow> uint256" where
  "nested_bal m k i = (case um_view m k of None \<Rightarrow> 0 | Some im \<Rightarrow> (case im i of None \<Rightarrow> 0 | Some x \<Rightarrow> x))"

lemma nested_index_obs:
  "snd (nested_index m k i) = nested_bal m k i"
  "\<exists>im. um_ptr (fst (nested_index m k i)) k = Some im \<and> (\<forall>j. (case im j of None \<Rightarrow> 0 | Some x \<Rightarrow> x) = nested_bal m k j)"
  "k' \<noteq> k \<Longrightarrow> um_view (fst (nested_index m k i)) k' = um_view m k'"
  "um_map (fst (nested_index m k i)) = um_map m"
  "um_erased (fst (nested_index m k i)) = um_erased m"
  by (auto simp: nested_index_def nested_bal_def Let_def um_simps um_index_def split: option.splits prod.splits)

lemma nested_bal_write_index:
  "nested_bal (nested_write (fst (nested_index m k i)) k i v) k' j =
     (if k' = k \<and> j = i then v else nested_bal m k' j)"
proof -
  obtain im where im: "um_ptr (fst (nested_index m k i)) k = Some im"
    "\<And>j. (case im j of None \<Rightarrow> 0 | Some x \<Rightarrow> x) = nested_bal m k j"
    using nested_index_obs(2) [of m k i] by auto
  show ?thesis
  proof (cases "k' = k")
    case True
    then show ?thesis using im(2)
      by (simp add: nested_write_def nested_bal_def [of "um_write _ _ _"] um_simps im(1))
  next
    case False
    then show ?thesis using nested_index_obs(3) [of k' k m i]
      by (simp add: nested_write_def nested_bal_def um_simps)
  qed
qed

lemma nested_sub_assign_spec:
  "nested_sub_assign m k i v =
     (if v \<le> nested_bal m k i then (nested_write (fst (nested_index m k i)) k i (nested_bal m k i - v), None)
      else (fst (nested_index m k i), Some NumericError))"
  using nested_index_obs(1) [of m k i]
  by (cases "nested_index m k i") (simp add: nested_sub_assign_def checked_sub_def)

lemma nested_add_assign_spec:
  "nested_add_assign m k i v =
     (if unat (nested_bal m k i) + unat v < 2 ^ 256
      then (nested_write (fst (nested_index m k i)) k i (nested_bal m k i + v), None)
      else (fst (nested_index m k i), Some NumericError))"
  using nested_index_obs(1) [of m k i]
  by (cases "nested_index m k i") (simp add: nested_add_assign_def checked_add_def)

section \<open>Lemmas: the contract\<close>

lemma balanceOf_bal: "balanceOf t a = bal (e_balances t) a"
  by (simp add: balanceOf_def bal_def um_find_const_def um_simps)

lemma allowance_nested_bal: "allowance t a b = nested_bal (e_allowed t) a b"
  by (simp add: allowance_def nested_bal_def um_find_const_def um_simps)

lemma on_balances_simps [simp]:
  "snd (on_balances f t) = snd (f (e_balances t))"
  "fst (on_balances f t) = t\<lparr>e_balances := fst (f (e_balances t))\<rparr>"
  by (simp_all add: on_balances_def split: prod.split)

lemma on_allowed_simps [simp]:
  "snd (on_allowed f t) = snd (f (e_allowed t))"
  "fst (on_allowed f t) = t\<lparr>e_allowed := fst (f (e_allowed t))\<rparr>"
  by (simp_all add: on_allowed_def split: prod.split)

lemma on_totalSupply_simps [simp]:
  "snd (on_totalSupply f t) = snd (f (e_totalSupply t))"
  "fst (on_totalSupply f t) = t\<lparr>e_totalSupply := fst (f (e_totalSupply t))\<rparr>"
  by (simp_all add: on_totalSupply_def split: prod.split)

text \<open>The move of an amount between two entries, shared by \<open>transfer\<close> and \<open>transferFrom\<close>.\<close>

definition move :: "Address \<Rightarrow> Address \<Rightarrow> uint256 \<Rightarrow> erc20 \<Rightarrow> erc20 \<times> error option" where
  "move from to v t = andThen (on_balances (\<lambda>m. map_sub_assign m from v) t) (on_balances (\<lambda>m. map_add_assign m to v))"

lemma move_ok_iff:
  "snd (move from to v t) = None \<longleftrightarrow>
     v \<le> balanceOf t from \<and> (if from = to then True else unat (balanceOf t to) + unat v < 2 ^ 256)"
  using unat_bound [of "balanceOf t to"]
  by (auto simp: move_def res_simps map_sub_assign_spec map_add_assign_spec balanceOf_bal unat_sub
      word_le_nat_alt)

lemma move_state:
  assumes "snd (move from to v t) = None"
  shows "fst (move from to v t) = t\<lparr>e_balances :=
    um_index_assign 0 (um_index_assign 0 (e_balances t) from (balanceOf t from - v)) to
      ((if to = from then balanceOf t from - v else balanceOf t to) + v)\<rparr>"
  using assms
  by (auto simp: move_def res_simps fst_andThen_None map_sub_assign_spec map_add_assign_spec balanceOf_bal
      split: if_splits)

lemma move_balances:
  assumes "snd (move from to v t) = None"
  shows "balanceOf (fst (move from to v t)) a =
    (if from = to then balanceOf t a
     else if a = from then balanceOf t a - v
     else if a = to then balanceOf t a + v else balanceOf t a)"
  by (auto simp: move_state [OF assms] balanceOf_bal)

lemma move_total:
  assumes "snd (move from to v t) = None" "finite (dom (um_view (e_balances t)))"
  shows "finite (dom (um_view (e_balances (fst (move from to v t)))))"
    and "total_bal (e_balances (fst (move from to v t))) = total_bal (e_balances t)"
proof -
  let ?m = "e_balances t" and ?b = "balanceOf t from"
  let ?m1 = "um_index_assign 0 ?m from (?b - v)"
  let ?x = "if to = from then ?b - v else balanceOf t to"
  have v: "v \<le> ?b" and fits: "unat ?x + unat v < 2 ^ 256"
    using assms(1) unat_bound [of ?b] by (auto simp: move_ok_iff unat_sub word_le_nat_alt split: if_splits)
  have "total_bal ?m1 + unat ?b = total_bal ?m + unat (?b - v)"
    using total_bal_assign [OF assms(2), of "from" "?b - v"] by (simp add: balanceOf_bal)
  moreover have "total_bal (um_index_assign 0 ?m1 to (?x + v)) + unat ?x = total_bal ?m1 + unat (?x + v)"
    using total_bal_assign [of ?m1 to "?x + v"] assms(2) by (auto simp: balanceOf_bal)
  moreover have "unat (?x + v) = unat ?x + unat v" using fits by (intro unat_add_no_wrap) simp
  moreover have "unat (?b - v) = unat ?b - unat v" "unat v \<le> unat ?b" using v by (simp_all add: unat_sub word_le_nat_alt)
  ultimately have "total_bal (um_index_assign 0 ?m1 to (?x + v)) = total_bal ?m" by linarith
  then show "total_bal (e_balances (fst (move from to v t))) = total_bal ?m"
    by (simp add: move_state [OF assms(1)])
  show "finite (dom (um_view (e_balances (fst (move from to v t)))))"
    using assms(2) by (simp add: move_state [OF assms(1)])
qed

text \<open>The invariant: finitely many entries, which add up to the total supply.\<close>

definition erc20_inv :: "erc20 \<Rightarrow> bool" where
  "erc20_inv t \<longleftrightarrow> finite (dom (um_view (e_balances t))) \<and>
     (\<Sum>a \<in> dom (um_view (e_balances t)). unat (balanceOf t a)) = unat (totalSupply t)"

lemma erc20_inv_total:
  "erc20_inv t \<longleftrightarrow> finite (dom (um_view (e_balances t))) \<and> total_bal (e_balances t) = unat (totalSupply t)"
  by (simp add: erc20_inv_def umap.total_def weight_bal balanceOf_bal)

lemma erc20_inv_pair:
  "erc20_inv t \<Longrightarrow> a \<noteq> b \<Longrightarrow> unat (balanceOf t a) + unat (balanceOf t b) \<le> unat (totalSupply t)"
  using umap.weight_pair_le_total [of "e_balances t" a b unat]
  by (simp add: erc20_inv_total weight_bal balanceOf_bal)

lemma move_ok_iff_inv: "erc20_inv t \<Longrightarrow> snd (move from to v t) = None \<longleftrightarrow> v \<le> balanceOf t from"
  using erc20_inv_pair [of t "from" to] unat_bound [of "totalSupply t"]
  by (auto simp: move_ok_iff word_le_nat_alt)

lemma transfer_move: "transfer caller to v t = move caller to v t"
  by (simp add: transfer_def move_def)

lemma transferFrom_move:
  "transferFrom caller from to v t = andThen (on_allowed (\<lambda>m. nested_sub_assign m from caller v) t) (move from to v)"
  by (auto simp: transferFrom_def move_def andThen_def fun_eq_iff split: option.splits)

lemma on_allowed_balances [simp]:
  "balanceOf (fst (on_allowed f t)) = balanceOf t" "e_balances (fst (on_allowed f t)) = e_balances t"
  "totalSupply (fst (on_allowed f t)) = totalSupply t" "erc20_inv (fst (on_allowed f t)) = erc20_inv t"
  by (simp_all add: balanceOf_def totalSupply_def erc20_inv_def fun_eq_iff)

lemma erc20_inv_move:
  assumes "erc20_inv t" "snd (move from to v t) = None"
  shows "erc20_inv (fst (move from to v t))"
  using assms move_total [OF assms(2)] by (simp add: erc20_inv_total totalSupply_def move_state [OF assms(2)])

lemma transferFrom_ok_iff:
  assumes "erc20_inv t"
  shows "snd (transferFrom caller from to v t) = None \<longleftrightarrow> v \<le> allowance t from caller \<and> v \<le> balanceOf t from"
proof -
  have "erc20_inv (fst (on_allowed (\<lambda>m. nested_sub_assign m from caller v) t))" using assms
    by (simp add: erc20_inv_def balanceOf_def totalSupply_def)
  then show ?thesis
    by (auto simp: transferFrom_move res_simps move_ok_iff_inv nested_sub_assign_spec allowance_nested_bal
        simp del: on_allowed_simps(2))
qed

lemma transferFrom_effect:
  assumes "snd (transferFrom caller from to v t) = None"
  shows "balanceOf (fst (transferFrom caller from to v t)) a = balanceOf (fst (move from to v t)) a"
    and "snd (move from to v t) = None"
    and "allowance (fst (transferFrom caller from to v t)) b c =
      (if b = from \<and> c = caller then allowance t b c - v else allowance t b c)"
proof -
  let ?t = "fst (on_allowed (\<lambda>m. nested_sub_assign m from caller v) t)"
  have ok: "snd (on_allowed (\<lambda>m. nested_sub_assign m from caller v) t) = None" "snd (move from to v ?t) = None"
    using assms by (simp_all add: transferFrom_move res_simps)
  then show mv: "snd (move from to v t) = None" by (auto simp: move_ok_iff simp del: on_allowed_simps(2))
  have eq: "fst (transferFrom caller from to v t) = fst (move from to v ?t)"
    using ok(1) by (simp only: transferFrom_move fst_andThen_None)
  show "balanceOf (fst (transferFrom caller from to v t)) a = balanceOf (fst (move from to v t)) a"
    unfolding eq move_balances [OF ok(2)] move_balances [OF mv] by (simp del: on_allowed_simps(2))
  have "v \<le> nested_bal (e_allowed t) from caller"
    using ok(1) by (simp add: nested_sub_assign_spec split: if_splits)
  then show "allowance (fst (transferFrom caller from to v t)) b c =
      (if b = from \<and> c = caller then allowance t b c - v else allowance t b c)"
    unfolding eq allowance_nested_bal move_state [OF ok(2)]
    by (simp add: nested_sub_assign_spec nested_bal_write_index)
qed

lemma erc20_inv_transferFrom:
  assumes "erc20_inv t" "snd (transferFrom caller from to v t) = None"
  shows "erc20_inv (fst (transferFrom caller from to v t))"
proof -
  let ?t = "fst (on_allowed (\<lambda>m. nested_sub_assign m from caller v) t)"
  have ok: "snd (on_allowed (\<lambda>m. nested_sub_assign m from caller v) t) = None" "snd (move from to v ?t) = None"
    using assms(2) by (simp_all add: transferFrom_move res_simps)
  have "fst (transferFrom caller from to v t) = fst (move from to v ?t)"
    using ok(1) by (simp only: transferFrom_move fst_andThen_None)
  then show ?thesis using erc20_inv_move [OF _ ok(2)] assms(1) by (simp del: on_allowed_simps(2))
qed

lemma mint_ok_iff:
  assumes "erc20_inv t"
  shows "snd (mintValue a v t) = None \<longleftrightarrow> unat (totalSupply t) + unat v < 2 ^ 256"
proof -
  have "unat (balanceOf t a) \<le> unat (totalSupply t)"
    using umap.weight_le_total [of "e_balances t" unat a] assms
    by (simp add: erc20_inv_total weight_bal balanceOf_bal)
  then show ?thesis
    by (auto simp: mintValue_def res_simps map_add_assign_spec balanceOf_bal big_op_add_assign_def
        sv_simps big_eq_uint uint_add_spec totalSupply_def split: sum.split)
qed

lemma mint_effect:
  assumes "erc20_inv t" "snd (mintValue a v t) = None"
  shows "erc20_inv (fst (mintValue a v t))"
    and "unat (totalSupply (fst (mintValue a v t))) = unat (totalSupply t) + unat v"
    and "unat (balanceOf (fst (mintValue a v t)) b) = unat (balanceOf t b) + (if b = a then unat v else 0)"
proof -
  let ?m = "e_balances t"
  have sup: "unat (totalSupply t) + unat v < 2 ^ 256" using assms mint_ok_iff by blast
  have add: "unat (bal ?m a) + unat v < 2 ^ 256"
    using assms(2) by (auto simp: mintValue_def res_simps map_add_assign_spec split: if_splits)
  have eq: "e_balances (fst (mintValue a v t)) = um_index_assign 0 ?m a (bal ?m a + v)"
    "totalSupply (fst (mintValue a v t)) = totalSupply t + v"
    using add sup by (simp_all add: mintValue_def map_add_assign_spec fst_andThen_None totalSupply_def
        big_op_add_assign_def sv_simps big_eq_uint uint_add_spec)
  have total: "total_bal (um_index_assign 0 ?m a (bal ?m a + v)) = total_bal ?m + unat v"
    using total_bal_assign [of ?m a "bal ?m a + v"] assms(1) add
    by (simp add: erc20_inv_total unat_add_no_wrap)
  show s: "unat (totalSupply (fst (mintValue a v t))) = unat (totalSupply t) + unat v"
    using sup by (simp add: eq unat_add_no_wrap)
  show "erc20_inv (fst (mintValue a v t))"
    using assms(1) total s by (simp add: erc20_inv_total eq(1))
  show "unat (balanceOf (fst (mintValue a v t)) b) = unat (balanceOf t b) + (if b = a then unat v else 0)"
    using add by (simp add: balanceOf_bal eq(1) unat_add_no_wrap)
qed

lemma burn_effect:
  assumes "erc20_inv t" "v \<le> balanceOf t a"
  shows "snd (burnValue a v t) = None" "erc20_inv (fst (burnValue a v t))"
    and "unat (totalSupply (fst (burnValue a v t))) = unat (totalSupply t) - unat v"
    and "unat (balanceOf (fst (burnValue a v t)) b) = unat (balanceOf t b) - (if b = a then unat v else 0)"
proof -
  let ?m = "e_balances t"
  have v: "v \<le> bal ?m a" "unat v \<le> unat (bal ?m a)" using assms(2) by (simp_all add: balanceOf_bal word_le_nat_alt)
  have "unat (bal ?m a) \<le> unat (totalSupply t)"
    using umap.weight_le_total [of ?m unat a] assms(1) by (simp add: erc20_inv_total weight_bal)
  then have sup: "v \<le> totalSupply t" using v(2) by (simp add: word_le_nat_alt)
  then have sup': "\<not> sv_get (e_totalSupply t) < v" by (simp add: totalSupply_def not_less)
  then show "snd (burnValue a v t) = None"
    using v by (simp add: burnValue_def map_sub_assign_spec res_simps big_op_sub_assign_def sv_simps big_eq_uint
        uint_sub_def totalSupply_def)
  have eq: "e_balances (fst (burnValue a v t)) = um_index_assign 0 ?m a (bal ?m a - v)"
    "totalSupply (fst (burnValue a v t)) = totalSupply t - v"
    using v sup' by (simp_all add: burnValue_def map_sub_assign_spec fst_andThen_None totalSupply_def
        big_op_sub_assign_def sv_simps big_eq_uint uint_sub_def)
  have total: "total_bal (um_index_assign 0 ?m a (bal ?m a - v)) + unat v = total_bal ?m"
    using total_bal_assign [of ?m a "bal ?m a - v"] assms(1) v by (simp add: erc20_inv_total unat_sub)
  show s: "unat (totalSupply (fst (burnValue a v t))) = unat (totalSupply t) - unat v"
    using sup by (simp add: eq unat_sub)
  show "erc20_inv (fst (burnValue a v t))"
    using assms(1) total s by (simp add: erc20_inv_total eq(1))
  show "unat (balanceOf (fst (burnValue a v t)) b) = unat (balanceOf t b) - (if b = a then unat v else 0)"
    using v by (simp add: balanceOf_bal eq(1) unat_sub)
qed

lemma approve_effect:
  "balanceOf (fst (approve caller spender v t)) = balanceOf t"
  "erc20_inv (fst (approve caller spender v t)) = erc20_inv t"
  "allowance (fst (approve caller spender v t)) a b =
     (if a = caller \<and> b = spender then v else allowance t a b)"
  by (simp_all add: approve_def balanceOf_def fun_eq_iff erc20_inv_def totalSupply_def allowance_nested_bal
      nested_assign_def nested_bal_write_index)

section \<open>The contract of a token\<close>

locale token_contract =
  fixes inv :: "'t \<Rightarrow> bool" and bal_of :: "'t \<Rightarrow> 'a \<Rightarrow> uint256" and allow_of :: "'t \<Rightarrow> 'a \<Rightarrow> 'a \<Rightarrow> uint256"
    and xfer :: "'a \<Rightarrow> 'a \<Rightarrow> uint256 \<Rightarrow> 't \<Rightarrow> 't \<times> error option"
    and xfer_from :: "'a \<Rightarrow> 'a \<Rightarrow> 'a \<Rightarrow> uint256 \<Rightarrow> 't \<Rightarrow> 't \<times> error option"
  assumes xfer_ok: "inv t \<Longrightarrow> snd (xfer c to v t) = None \<longleftrightarrow> v \<le> bal_of t c"
    and xfer_inv: "inv t \<Longrightarrow> snd (xfer c to v t) = None \<Longrightarrow> inv (fst (xfer c to v t))"
    and xfer_bal: "inv t \<Longrightarrow> snd (xfer c to v t) = None \<Longrightarrow>
      unat (bal_of (fst (xfer c to v t)) a) =
        (if c = to then unat (bal_of t a) else if a = c then unat (bal_of t a) - unat v
         else if a = to then unat (bal_of t a) + unat v else unat (bal_of t a))"
    and xfer_from_ok: "inv t \<Longrightarrow> snd (xfer_from c f to v t) = None \<longleftrightarrow> v \<le> allow_of t f c \<and> v \<le> bal_of t f"
    and xfer_from_inv: "inv t \<Longrightarrow> snd (xfer_from c f to v t) = None \<Longrightarrow> inv (fst (xfer_from c f to v t))"
    and xfer_from_bal: "inv t \<Longrightarrow> snd (xfer_from c f to v t) = None \<Longrightarrow>
      unat (bal_of (fst (xfer_from c f to v t)) a) =
        (if f = to then unat (bal_of t a) else if a = f then unat (bal_of t a) - unat v
         else if a = to then unat (bal_of t a) + unat v else unat (bal_of t a))"
begin

text \<open>A holder \<open>h\<close> covers what it owes in the token.\<close>

definition covers :: "'t \<Rightarrow> 'a \<Rightarrow> nat \<Rightarrow> bool" where
  "covers t h owed \<longleftrightarrow> inv t \<and> owed \<le> unat (bal_of t h)"

lemma covers_receive:
  assumes "covers t h owed" "snd (xfer_from c f h v t) = None" "f \<noteq> h"
  shows "covers (fst (xfer_from c f h v t)) h (owed + unat v)"
  using assms xfer_from_inv [of t c f h v] xfer_from_bal [of t c f h v h] by (simp add: covers_def)

lemma covers_pay:
  assumes "covers t h owed" "snd (xfer h to v t) = None" "unat v \<le> owed"
  shows "covers (fst (xfer h to v t)) h (owed - unat v)"
  using assms xfer_inv [of t h to v] xfer_bal [of t h to v h] by (auto simp: covers_def)

lemma pay_succeeds: "covers t h owed \<Longrightarrow> unat v \<le> owed \<Longrightarrow> snd (xfer h to v t) = None"
  using xfer_ok [of t h to v] by (simp add: covers_def word_le_nat_alt)

end

lemma move_unat_balances:
  assumes "erc20_inv t" "snd (move from to v t) = None"
  shows "unat (balanceOf (fst (move from to v t)) a) =
    (if from = to then unat (balanceOf t a) else if a = from then unat (balanceOf t a) - unat v
     else if a = to then unat (balanceOf t a) + unat v else unat (balanceOf t a))"
  using assms(2) by (auto simp: move_balances [OF assms(2)] move_ok_iff unat_sub unat_add_no_wrap)

interpretation erc: token_contract erc20_inv balanceOf allowance transfer transferFrom
proof
  fix t c to v f a
  assume inv: "erc20_inv t"
  show "snd (transfer c to v t) = None \<longleftrightarrow> v \<le> balanceOf t c"
    using inv by (simp add: transfer_move move_ok_iff_inv)
  show "erc20_inv (fst (transfer c to v t))" if "snd (transfer c to v t) = None"
    using inv that by (simp add: transfer_move erc20_inv_move)
  show "unat (balanceOf (fst (transfer c to v t)) a) =
      (if c = to then unat (balanceOf t a) else if a = c then unat (balanceOf t a) - unat v
       else if a = to then unat (balanceOf t a) + unat v else unat (balanceOf t a))"
    if "snd (transfer c to v t) = None"
    using move_unat_balances [OF inv] that by (simp add: transfer_move)
  show "snd (transferFrom c f to v t) = None \<longleftrightarrow> v \<le> allowance t f c \<and> v \<le> balanceOf t f"
    using inv by (rule transferFrom_ok_iff)
  show "erc20_inv (fst (transferFrom c f to v t))" if "snd (transferFrom c f to v t) = None"
    using inv that by (rule erc20_inv_transferFrom)
  show "unat (balanceOf (fst (transferFrom c f to v t)) a) =
      (if f = to then unat (balanceOf t a) else if a = f then unat (balanceOf t a) - unat v
       else if a = to then unat (balanceOf t a) + unat v else unat (balanceOf t a))"
    if "snd (transferFrom c f to v t) = None"
    using move_unat_balances [OF inv transferFrom_effect(2) [OF that]] transferFrom_effect(1) [OF that] by simp
qed

section \<open>Transactions on a token\<close>

text \<open>
  A call of one of the state-changing functions, and the transaction around it: the contract manager
  commits the used variables when the call returns and reverts them when it throws.
\<close>

datatype erc20_msg =
    MsgTransfer Address Address uint256
  | MsgApprove Address Address uint256
  | MsgTransferFrom Address Address Address uint256

fun erc20_call :: "erc20_msg \<Rightarrow> erc20 \<Rightarrow> erc20 \<times> error option" where
  "erc20_call (MsgTransfer caller to v) t = transfer caller to v t"
| "erc20_call (MsgApprove caller spender v) t = approve caller spender v t"
| "erc20_call (MsgTransferFrom caller from to v) t = transferFrom caller from to v t"

definition erc20_tx :: "erc20_msg \<Rightarrow> erc20 \<Rightarrow> erc20" where
  "erc20_tx msg t = (case erc20_call msg t of
     (t', None) \<Rightarrow> erc20_commit t' | (t', Some _) \<Rightarrow> erc20_revert t')"

text \<open>Between transactions the contract shows what is committed and nothing is erased.\<close>

definition erc20_clean :: "erc20 \<Rightarrow> bool" where
  "erc20_clean t \<longleftrightarrow> um_view (e_balances t) = um_map (e_balances t) \<and> um_erased (e_balances t) = {} \<and>
     um_view (e_allowed t) = um_map (e_allowed t) \<and> um_erased (e_allowed t) = {} \<and>
     sv_get (e_totalSupply t) = sv_value (e_totalSupply t)"

text \<open>What no call changes before its commit.\<close>

definition same_committed :: "erc20 \<Rightarrow> erc20 \<Rightarrow> bool" where
  "same_committed t t' \<longleftrightarrow> um_map (e_balances t') = um_map (e_balances t) \<and>
     um_erased (e_balances t') = um_erased (e_balances t) \<and>
     um_map (e_allowed t') = um_map (e_allowed t) \<and> um_erased (e_allowed t') = um_erased (e_allowed t) \<and>
     e_totalSupply t' = e_totalSupply t"

lemma same_committed_trans: "same_committed a b \<Longrightarrow> same_committed b c \<Longrightarrow> same_committed a c"
  by (simp add: same_committed_def)

lemma same_committed_andThen:
  "same_committed t (fst r) \<Longrightarrow> (\<And>s. same_committed s (fst (f s))) \<Longrightarrow> same_committed t (fst (andThen r f))"
  by (cases "snd r") (auto simp: andThen_def intro: same_committed_trans)

lemma same_committed_steps:
  "same_committed t (fst (on_balances (\<lambda>m. map_sub_assign m a v) t))"
  "same_committed t (fst (on_balances (\<lambda>m. map_add_assign m a v) t))"
  "same_committed t (fst (on_allowed (\<lambda>m. nested_sub_assign m a b v) t))"
  "same_committed t (fst (approve a b v t))"
  by (simp_all add: same_committed_def map_sub_assign_spec map_add_assign_spec nested_sub_assign_spec
      approve_def nested_assign_def nested_write_def nested_index_obs um_simps)

lemma same_committed_call: "same_committed t (fst (erc20_call msg t))"
  by (cases msg) (auto simp: transfer_def transferFrom_def simp del: on_balances_simps on_allowed_simps
      intro!: same_committed_andThen same_committed_steps)

lemma clean_after:
  assumes "erc20_clean t" "same_committed t t'"
  shows "um_view (um_commit (e_balances t')) = um_view (e_balances t')"
    "um_view (um_commit (e_allowed t')) = um_view (e_allowed t')"
    "um_view (um_revert (e_balances t')) = um_view (e_balances t)"
    "um_view (um_revert (e_allowed t')) = um_view (e_allowed t)"
    "erc20_clean (erc20_commit t')" "erc20_clean (erc20_revert t')"
proof -
  have wf: "um_wf (e_balances t')" "um_wf (e_allowed t')"
    using assms by (auto simp: erc20_clean_def same_committed_def um_wf_def)
  note c = umap_tx.view_commit [OF wf(1)] umap_tx.view_commit [OF wf(2)]
    umap_tx.committed_commit [OF wf(1)] umap_tx.committed_commit [OF wf(2)]
    umap_tx.view_revert [OF wf(1)] umap_tx.view_revert [OF wf(2)]
  show "um_view (um_commit (e_balances t')) = um_view (e_balances t')"
    "um_view (um_commit (e_allowed t')) = um_view (e_allowed t')" by (simp_all only: c)
  show "um_view (um_revert (e_balances t')) = um_view (e_balances t)"
    "um_view (um_revert (e_allowed t')) = um_view (e_allowed t)"
    using assms by (simp_all add: c erc20_clean_def same_committed_def)
  show "erc20_clean (erc20_commit t')"
    using assms by (simp add: erc20_clean_def erc20_commit_def sv_simps c same_committed_def um_commit_obs(3))
  show "erc20_clean (erc20_revert t')"
    using assms by (simp add: erc20_clean_def erc20_revert_def sv_simps c um_revert_obs)
qed

lemma balance_views:
  "um_view (e_balances t) = um_view (e_balances s) \<Longrightarrow> balanceOf t = balanceOf s"
  "um_view (e_allowed t) = um_view (e_allowed s) \<Longrightarrow> allowance t = allowance s"
  by (simp_all add: fun_eq_iff balanceOf_bal bal_def allowance_nested_bal nested_bal_def)

lemma commit_shows:
  assumes "erc20_clean t" "same_committed t t'"
  shows "balanceOf (erc20_commit t') = balanceOf t'" "allowance (erc20_commit t') = allowance t'"
    "totalSupply (erc20_commit t') = totalSupply t'" "erc20_inv (erc20_commit t') = erc20_inv t'"
proof -
  have v: "um_view (e_balances (erc20_commit t')) = um_view (e_balances t')"
    "um_view (e_allowed (erc20_commit t')) = um_view (e_allowed t')"
    using clean_after [OF assms] by (simp_all add: erc20_commit_def)
  then show b: "balanceOf (erc20_commit t') = balanceOf t'" "allowance (erc20_commit t') = allowance t'"
    by (auto intro: balance_views)
  show s: "totalSupply (erc20_commit t') = totalSupply t'"
    by (simp add: totalSupply_def erc20_commit_def sv_simps)
  show "erc20_inv (erc20_commit t') = erc20_inv t'" by (simp add: erc20_inv_def v b s)
qed

lemma revert_shows:
  assumes "erc20_clean t" "same_committed t t'"
  shows "balanceOf (erc20_revert t') = balanceOf t" "allowance (erc20_revert t') = allowance t"
    "totalSupply (erc20_revert t') = totalSupply t" "erc20_inv (erc20_revert t') = erc20_inv t"
proof -
  have v: "um_view (e_balances (erc20_revert t')) = um_view (e_balances t)"
    "um_view (e_allowed (erc20_revert t')) = um_view (e_allowed t)"
    using clean_after [OF assms] by (simp_all add: erc20_revert_def)
  then show b: "balanceOf (erc20_revert t') = balanceOf t" "allowance (erc20_revert t') = allowance t"
    by (auto intro: balance_views)
  show s: "totalSupply (erc20_revert t') = totalSupply t"
    using assms by (simp add: totalSupply_def erc20_revert_def sv_simps erc20_clean_def same_committed_def)
  show "erc20_inv (erc20_revert t') = erc20_inv t" by (simp add: erc20_inv_def v b s)
qed

lemma call_inv: "erc20_inv t \<Longrightarrow> snd (erc20_call msg t) = None \<Longrightarrow> erc20_inv (fst (erc20_call msg t))"
  by (cases msg) (simp_all add: erc.xfer_inv erc.xfer_from_inv approve_effect)

lemma call_supply: "totalSupply (fst (erc20_call msg t)) = totalSupply t"
  using same_committed_call [of t msg] by (simp add: same_committed_def totalSupply_def)

lemma erc20_tx_step:
  assumes "erc20_inv t" "erc20_clean t"
  shows "erc20_inv (erc20_tx msg t)" "erc20_clean (erc20_tx msg t)" "totalSupply (erc20_tx msg t) = totalSupply t"
proof -
  obtain t' r where call: "erc20_call msg t = (t', r)" by (cases "erc20_call msg t")
  have same: "same_committed t t'" using same_committed_call [of t msg] by (simp add: call)
  note com = commit_shows [OF assms(2) same] and rev = revert_shows [OF assms(2) same]
    and cl = clean_after(5,6) [OF assms(2) same]
  have sup: "totalSupply t' = totalSupply t" using call_supply [of msg t] by (simp add: call)
  show "erc20_inv (erc20_tx msg t)" "erc20_clean (erc20_tx msg t)" "totalSupply (erc20_tx msg t) = totalSupply t"
    using com rev cl sup call_inv [of t msg] assms(1) by (simp_all add: erc20_tx_def call split: option.split)
qed

text \<open>A new token.\<close>

definition new_committed :: "nat \<Rightarrow> uint256 \<Rightarrow> Address \<Rightarrow> erc20" where
  "new_committed self amount creator = erc20_commit (fst (erc20_new self ''Token'' ''TKN'' 18 amount creator))"

lemma erc20_new_effect:
  assumes r_def: "r = erc20_new self nam symb dec amount creator"
  shows "snd r = None" "erc20_inv (fst r)" "totalSupply (fst r) = amount"
    "balanceOf (fst r) a = (if a = creator then amount else 0)" "allowance (fst r) a b = 0"
    "um_erased (e_balances (fst r)) = {}" "um_erased (e_allowed (fst r)) = {}"
proof -
  define t0 where "t0 = \<lparr>e_name = SafeString_assign (SafeString_new (Some self) []) nam,
                e_symbol = SafeString_assign (SafeString_new (Some self) []) symb,
                e_decimals = fst (op_assign (SafeUint_new (Some self) 0) dec),
                e_totalSupply = SafeUint_new (Some self) 0,
                e_balances = um_new (Some self) Map.empty,
                e_allowed = um_new (Some self) Map.empty\<rparr>"
  let ?m = "mintValue creator amount t0"
  let ?f = "\<lambda>t. t\<lparr>e_name := SafeString_commit (e_name t), e_symbol := SafeString_commit (e_symbol t),
                   e_decimals := sv_commit (e_decimals t)\<rparr>"
  have view0: "um_view (e_balances t0) = Map.empty" "um_view (e_allowed t0) = Map.empty"
    "um_erased (e_balances t0) = {}" "um_erased (e_allowed t0) = {}" "totalSupply t0 = 0"
    by (auto simp: t0_def um_new_def um_view_def um_ptr_def um_erased_def fun_eq_iff totalSupply_def
        SafeUint_new_def sv_simps)
  have inv0: "erc20_inv t0" by (simp add: erc20_inv_def view0)
  have ok: "snd ?m = None" using mint_ok_iff [OF inv0] unat_bound [of amount] by (simp add: view0)
  have r: "r = (?f (fst ?m), None)"
    by (simp add: r_def erc20_new_def t0_def [symmetric] fst_andThen_None ok)
  have same: "e_balances (?f t) = e_balances t" "e_allowed (?f t) = e_allowed t" "e_totalSupply (?f t) = e_totalSupply t" for t
    by simp_all
  have al: "e_allowed (fst ?m) = e_allowed t0" "um_erased (e_balances (fst ?m)) = um_erased (e_balances t0)"
    by (auto simp: mintValue_def andThen_def map_add_assign_spec um_simps split: option.splits)
  note eff = mint_effect [OF inv0 ok]
  show "snd r = None" "erc20_inv (fst r)" "um_erased (e_balances (fst r)) = {}" "um_erased (e_allowed (fst r)) = {}"
    using eff(1) al view0 by (simp_all add: r erc20_inv_total totalSupply_def)
  show "totalSupply (fst r) = amount"
    using eff(2) by (simp add: r totalSupply_def view0(5) [unfolded totalSupply_def] word_unat_eq_iff)
  show "balanceOf (fst r) a = (if a = creator then amount else 0)"
    using eff(3) [of a] by (simp add: r balanceOf_def um_find_const_def um_simps view0 word_unat_eq_iff)
  show "allowance (fst r) a b = 0"
    using al(1) by (simp add: r allowance_nested_bal nested_bal_def view0)
qed

lemmas erc20_new_obs = erc20_new_effect [OF refl]

lemma new_committed_effect:
  "erc20_inv (new_committed self amount creator)" "erc20_clean (new_committed self amount creator)"
  "totalSupply (new_committed self amount creator) = amount"
  "balanceOf (new_committed self amount creator) a = (if a = creator then amount else 0)"
proof -
  let ?t = "fst (erc20_new self ''Token'' ''TKN'' 18 amount creator)"
  note n = erc20_new_obs [of self "''Token''" "''TKN''" 18 amount creator]
  have wf: "um_wf (e_balances ?t)" "um_wf (e_allowed ?t)" by (simp_all add: um_wf_def n)
  note c = umap_tx.view_commit [OF wf(1)] umap_tx.view_commit [OF wf(2)]
    umap_tx.committed_commit [OF wf(1)] umap_tx.committed_commit [OF wf(2)]
  show "erc20_clean (new_committed self amount creator)"
    by (simp add: new_committed_def erc20_clean_def erc20_commit_def sv_simps c um_commit_obs(3) n)
  have b: "balanceOf (new_committed self amount creator) = balanceOf ?t"
    by (rule balance_views) (simp add: new_committed_def erc20_commit_def c)
  then show "balanceOf (new_committed self amount creator) a = (if a = creator then amount else 0)"
    by (simp add: n)
  show s: "totalSupply (new_committed self amount creator) = amount"
    using n(3) by (simp add: new_committed_def totalSupply_def erc20_commit_def sv_simps)
  show "erc20_inv (new_committed self amount creator)"
    using n(2,3) by (simp add: erc20_inv_def b s) (simp add: new_committed_def erc20_commit_def c)
qed

section \<open>Properties\<close>

text \<open>
  In a token whose balances add up to its supply, a transfer succeeds exactly when the caller has
  the amount (the addition to the receiver cannot overflow); it then moves exactly that amount, a
  transfer to oneself changing nothing, and leaves every other balance, all allowances and the supply alone.
\<close>

theorem erc20_transfer_correct:
  assumes "erc20_inv t"
  shows "let r = transfer caller to v t in
    (snd r = None \<longleftrightarrow> v \<le> balanceOf t caller) \<and>
    (if snd r = None then
       (\<forall>a. unat (balanceOf (fst r) a) =
         (if caller = to then unat (balanceOf t a) else if a = caller then unat (balanceOf t a) - unat v
          else if a = to then unat (balanceOf t a) + unat v else unat (balanceOf t a))) \<and>
       allowance (fst r) = allowance t \<and> totalSupply (fst r) = totalSupply t
     else True)"
  using assms erc.xfer_ok [OF assms, of caller to v] erc.xfer_bal [OF assms, of caller to v]
    move_state [of caller to v t]
  by (auto simp: Let_def transfer_move allowance_nested_bal totalSupply_def fun_eq_iff)

theorem erc20_transfer_correct_witness:
  "let r = transfer [1] [2] 300 (new_committed 7 1000 [1]) in
   snd r = None \<and> unat (balanceOf (fst r) [1]) = 700 \<and> unat (balanceOf (fst r) [2]) = 300"
  using erc20_transfer_correct [OF new_committed_effect(1) [of 7 1000 "[1]"], of "[1]" "[2]" 300]
  by (auto simp: Let_def new_committed_effect split: if_splits)

text \<open>
  C22. A \<open>transferFrom\<close> succeeds exactly when both the allowance and the owner's balance cover the
  amount; it lowers that one allowance by the amount and moves the amount between the two balances.
\<close>

theorem erc20_transferFrom_correct:
  assumes "erc20_inv t"
  shows "let r = transferFrom caller from to v t in
    (snd r = None \<longleftrightarrow> v \<le> allowance t from caller \<and> v \<le> balanceOf t from) \<and>
    (if snd r = None then
       (\<forall>a b. allowance (fst r) a b =
          (if a = from \<and> b = caller then allowance t a b - v else allowance t a b)) \<and>
       (\<forall>a. unat (balanceOf (fst r) a) =
         (if from = to then unat (balanceOf t a) else if a = from then unat (balanceOf t a) - unat v
          else if a = to then unat (balanceOf t a) + unat v else unat (balanceOf t a)))
     else True)"
  using assms erc.xfer_from_ok [OF assms, of caller "from" to v] erc.xfer_from_bal [OF assms, of caller "from" to v]
    transferFrom_effect(3) [of caller "from" to v t]
  by (auto simp: Let_def)

theorem erc20_transferFrom_correct_witness:
  "let t = fst (approve [1] [3] 500 (new_committed 7 1000 [1])); r = transferFrom [3] [1] [2] 300 t in
   snd r = None \<and> allowance (fst r) [1] [3] = 200 \<and> unat (balanceOf (fst r) [2]) = 300"
proof -
  let ?t = "fst (approve [1] [3] 500 (new_committed 7 1000 [1]))"
  have "erc20_inv ?t" by (simp add: approve_effect new_committed_effect)
  from erc20_transferFrom_correct [OF this, of "[3]" "[1]" "[2]" 300] show ?thesis
    by (auto simp: Let_def approve_effect new_committed_effect split: if_splits)
qed

text \<open>
  C4. Over any sequence of transactions, each committed when its call returns and reverted when it
  throws, the balances of a token keep adding up to its total supply, and the supply stays what it was.
\<close>

theorem erc20_supply_conserved:
  assumes "erc20_inv t" "erc20_clean t"
  shows "(\<Sum>a \<in> dom (um_view (e_balances (fold erc20_tx msgs t))). unat (balanceOf (fold erc20_tx msgs t) a))
    = unat (totalSupply t)"
proof -
  have "erc20_inv (fold erc20_tx msgs t) \<and> erc20_clean (fold erc20_tx msgs t) \<and>
      totalSupply (fold erc20_tx msgs t) = totalSupply t"
    using assms by (induction msgs arbitrary: t) (simp_all add: erc20_tx_step)
  then show ?thesis by (simp add: erc20_inv_def)
qed

theorem erc20_supply_conserved_witness:
  "let t = fold erc20_tx [MsgTransfer [1] [2] 300, MsgApprove [2] [3] 9, MsgTransferFrom [3] [2] [4] 5,
      MsgTransfer [5] [1] 1] (new_committed 7 1000 [1]) in
   (\<Sum>a \<in> dom (um_view (e_balances t)). unat (balanceOf t a)) = 1000"
  using erc20_supply_conserved [OF new_committed_effect(1,2) [of 7 1000 "[1]"],
      of "[MsgTransfer [1] [2] 300, MsgApprove [2] [3] 9, MsgTransferFrom [3] [2] [4] 5, MsgTransfer [5] [1] 1]"]
  by (simp add: Let_def new_committed_effect)

text \<open>
  A transaction whose call throws is atomic: the reverted contract shows the balances,
  allowances and supply from before the call, although the call may have changed the sender's balance or an
  allowance before it threw; a transaction whose call returns publishes what the call computed.
\<close>

theorem erc20_tx_atomic:
  assumes "erc20_clean t"
  shows "if snd (erc20_call msg t) = None
    then balanceOf (erc20_tx msg t) = balanceOf (fst (erc20_call msg t)) \<and>
         allowance (erc20_tx msg t) = allowance (fst (erc20_call msg t))
    else balanceOf (erc20_tx msg t) = balanceOf t \<and> allowance (erc20_tx msg t) = allowance t \<and>
         totalSupply (erc20_tx msg t) = totalSupply t"
proof -
  obtain t' r where call: "erc20_call msg t = (t', r)" by (cases "erc20_call msg t")
  have same: "same_committed t t'" using same_committed_call [of t msg] by (simp add: call)
  show ?thesis
    using commit_shows [OF assms same] revert_shows [OF assms same]
    by (simp add: erc20_tx_def call split: option.split)
qed

theorem erc20_tx_atomic_witness:
  "balanceOf (erc20_tx (MsgTransferFrom [3] [1] [2] 300) (new_committed 7 1000 [1])) [1] = 1000"
proof -
  let ?t = "new_committed 7 1000 [1]"
  have "\<not> snd (erc20_call (MsgTransferFrom [3] [1] [2] 300) ?t) = None \<or> 300 \<le> allowance ?t [1] [3]"
    using transferFrom_ok_iff [OF new_committed_effect(1), of "[3]" "[1]" "[2]" 300 7 1000 "[1]"] by simp
  moreover have "allowance ?t [1] [3] = 0"
  proof -
    let ?n = "fst (erc20_new 7 ''Token'' ''TKN'' 18 1000 [1])"
    have "um_wf (e_allowed ?n)" by (simp add: um_wf_def erc20_new_obs)
    then have "allowance ?t = allowance ?n"
      by (intro balance_views) (simp add: new_committed_def erc20_commit_def umap_tx.view_commit)
    then show ?thesis by (simp add: erc20_new_obs)
  qed
  ultimately show ?thesis
    using erc20_tx_atomic [OF new_committed_effect(2) [of 7 1000 "[1]"], of "MsgTransferFrom [3] [1] [2] 300"]
    by (auto simp: new_committed_effect split: if_splits)
qed

end
