(* ===== verification/ContractCall.thy ===== *)
theory ContractCall
  imports Erc20
begin

text \<open>
  Calls from one contract to another through \<^verbatim>\<open>ContractManagerInterface\<close> (\<^verbatim>\<open>contract/contractmanager.h\<close>): the table of
  contracts, the typed lookup \<open>getContract\<close>, and \<open>callContractFunction\<close> without native value. A
  contract is tabled with its class, for the \<^verbatim>\<open>dynamic_cast\<close> of the lookup.
\<close>

section \<open>Definitions\<close>

datatype dyn_contract = DErc20 erc20 | DOther

type_synonym contract_table = "Address \<rightharpoonup> dyn_contract"

definition getContract :: "contract_table \<Rightarrow> Address \<Rightarrow> erc20 res" where
  "getContract contracts address =
     (case contracts address of
        None \<Rightarrow> Inl (RuntimeError ''ContractManager::getContract: contract not found'')
      | Some (DErc20 t) \<Rightarrow> Inr t
      | Some DOther \<Rightarrow> Inl (RuntimeError ''ContractManager::getContract: not of the requested type''))"

definition callContractFunction ::
  "Address \<Rightarrow> (erc20 \<Rightarrow> erc20 \<times> error option) \<Rightarrow> contract_table \<Rightarrow> contract_table \<times> error option" where
  "callContractFunction target func contracts =
     (if contracts target = None then (contracts, Some (RuntimeError ''Contract does not exist''))
      else case getContract contracts target of
        Inl e \<Rightarrow> (contracts, Some e)
      | Inr t \<Rightarrow> (case func t of
            (t', e) \<Rightarrow> (contracts(target \<mapsto> DErc20 t'), map_option rethrow e)))"

section \<open>Lemmas\<close>

lemma callContractFunction_ok:
  assumes "snd (callContractFunction target func contracts) = None"
  obtains t where "contracts target = Some (DErc20 t)" "snd (func t) = None"
    "fst (callContractFunction target func contracts) = contracts(target \<mapsto> DErc20 (fst (func t)))"
  using assms
  by (auto simp: callContractFunction_def getContract_def
      split: if_splits option.splits dyn_contract.splits prod.splits)

lemma getContract_Inr [res_simps]: "getContract contracts a = Inr t \<longleftrightarrow> contracts a = Some (DErc20 t)"
  by (auto simp: getContract_def split: option.splits dyn_contract.splits)

end
