(* ===== verification/SafeVector.thy ===== *)
theory SafeVector
  imports SafeBase
begin

text \<open>
  \<^verbatim>\<open>contract/variables/safevector.h\<close>: the committed vector, an ordered map of the entries the running
  transaction has touched, the current size and a flag that the vector is to be cleared first.
  The specification is the list a contract sees (\<open>sx_view\<close>). Indices are 64-bit: the
  increments and decrements of the size wrap around, as they do in the source.
\<close>

section \<open>State\<close>

record 'a safe_vec =
  sx_owner :: "nat option"
  sx_registered :: bool
  sx_vector :: "'a list"
  sx_tmp :: "(nat \<rightharpoonup> 'a) option"
  sx_maxIndex :: nat
  sx_clear :: bool

definition sx_inc :: "nat \<Rightarrow> nat" where
  "sx_inc i = (i + 1) mod 2 ^ 64"

definition sx_dec :: "nat \<Rightarrow> nat" where
  "sx_dec i = (if i = 0 then 2 ^ 64 - 1 else i - 1)"

section \<open>Operations\<close>

definition sx_check :: "'a safe_vec \<Rightarrow> 'a safe_vec" where
  "sx_check s = (if sx_tmp s = None
     then s\<lparr>sx_tmp := Some Map.empty, sx_maxIndex := length (sx_vector s)\<rparr> else s)"

definition sx_ptr :: "'a safe_vec \<Rightarrow> nat \<rightharpoonup> 'a" where
  "sx_ptr s = (case sx_tmp s of None \<Rightarrow> Map.empty | Some t \<Rightarrow> t)"

definition sx_markAsUsed :: "'a safe_vec \<Rightarrow> 'a safe_vec" where
  "sx_markAsUsed s = s\<lparr>sx_registered := fst (markAsUsed (sx_owner s) (sx_registered s))\<rparr>"

text \<open>Writing one entry of the temporary map, also through a reference that \<open>at\<close> returned.\<close>

definition sx_write :: "'a safe_vec \<Rightarrow> nat \<Rightarrow> 'a \<Rightarrow> 'a safe_vec" where
  "sx_write s i v = s\<lparr>sx_tmp := Some ((sx_ptr s)(i \<mapsto> v))\<rparr>"

text \<open>The lookup of the shifting loops: the temporary entry, otherwise the original element.\<close>

definition sx_peek :: "'a safe_vec \<Rightarrow> nat \<Rightarrow> 'a res" where
  "sx_peek s i = (case sx_ptr s i of Some v \<Rightarrow> Inr v | None \<Rightarrow> at_idx (sx_vector s) i)"

definition checkIndexAndCopy :: "'a safe_vec \<Rightarrow> nat \<Rightarrow> 'a safe_vec \<times> error option" where
  "checkIndexAndCopy s0 index =
     (let s = sx_check s0 in
      if index \<ge> sx_maxIndex s then (s, Some (OutOfRange ''Index out of range''))
      else case sx_ptr s index of
        Some _ \<Rightarrow> (s, None)
      | None \<Rightarrow> (case at_idx (sx_vector s) index of
            Inl e \<Rightarrow> (s, Some e)
          | Inr v \<Rightarrow> (sx_write s index v, None)))"

definition sx_new :: "nat option \<Rightarrow> 'a safe_vec" where
  "sx_new owner = \<lparr>sx_owner = owner, sx_registered = False, sx_vector = [], sx_tmp = None,
     sx_maxIndex = 0, sx_clear = False\<rparr>"

fun sx_emplace_all :: "'a safe_vec \<Rightarrow> 'a list \<Rightarrow> 'a safe_vec" where
  "sx_emplace_all s [] = s"
| "sx_emplace_all s (v # vs) = sx_emplace_all
     ((if sx_ptr s (sx_maxIndex s) = None then sx_write s (sx_maxIndex s) v else s)
        \<lparr>sx_maxIndex := sx_inc (sx_maxIndex s)\<rparr>) vs"

definition sx_new_list :: "'a list \<Rightarrow> 'a safe_vec" where
  "sx_new_list init = sx_emplace_all (sx_check (sx_new None)) init"

definition sx_new_count :: "nat \<Rightarrow> 'a \<Rightarrow> 'a safe_vec" where
  "sx_new_count count v = sx_emplace_all (sx_check (sx_new None)) (replicate count v)"

definition sx_copy :: "'a safe_vec \<Rightarrow> 'a safe_vec" where
  "sx_copy other = (let s = sx_check (sx_new None); o' = sx_check other
     in s\<lparr>sx_tmp := sx_tmp o', sx_maxIndex := sx_maxIndex o'\<rparr>)"

text \<open>The three \<open>assign\<close> overloads: the new content as the list of the values they enumerate.\<close>

definition sx_assign :: "'a safe_vec \<Rightarrow> 'a list \<Rightarrow> 'a safe_vec" where
  "sx_assign s0 vs = (let s = sx_check s0 in
     s\<lparr>sx_tmp := Some (map_of (zip [0..<length vs] vs)), sx_maxIndex := length vs, sx_clear := True\<rparr>)"

definition sx_at :: "'a safe_vec \<Rightarrow> nat \<Rightarrow> 'a safe_vec \<times> 'a res" where
  "sx_at s pos =
     (case checkIndexAndCopy s pos of
        (s', Some e) \<Rightarrow> (s', Inl e)
      | (s', None) \<Rightarrow> (sx_markAsUsed s', Inr (the (sx_ptr s' pos))))"

definition sx_at_const :: "'a safe_vec \<Rightarrow> nat \<Rightarrow> 'a res" where
  "sx_at_const s pos =
     (case checkIndexAndCopy s pos of
        (_, Some e) \<Rightarrow> Inl e
      | (s', None) \<Rightarrow> Inr (the (sx_ptr s' pos)))"

definition sx_empty :: "'a safe_vec \<Rightarrow> bool" where
  "sx_empty s \<longleftrightarrow> sx_maxIndex s = 0"

definition sx_size :: "'a safe_vec \<Rightarrow> nat" where
  "sx_size s = sx_maxIndex (sx_check s)"

definition sx_clear_op :: "'a safe_vec \<Rightarrow> 'a safe_vec" where
  "sx_clear_op s0 = (let s = sx_markAsUsed (sx_check s0) in
     s\<lparr>sx_tmp := Some Map.empty, sx_maxIndex := 0, sx_clear := True\<rparr>)"

text \<open>\<open>for (i = maxIndex_; i > pos; --i)\<close> of \<open>insert\<close>.\<close>

fun sx_shift_right :: "nat \<Rightarrow> nat \<Rightarrow> 'a safe_vec \<Rightarrow> 'a safe_vec \<times> error option" where
  "sx_shift_right 0 pos s = (s, None)"
| "sx_shift_right (Suc i) pos s =
     (if Suc i > pos then
        case sx_peek s i of
          Inl e \<Rightarrow> (s, Some e)
        | Inr v \<Rightarrow> sx_shift_right i pos (sx_write s (Suc i) v)
      else (s, None))"

definition sx_insert :: "'a safe_vec \<Rightarrow> nat \<Rightarrow> 'a \<Rightarrow> 'a safe_vec \<times> nat res" where
  "sx_insert s0 pos v =
     (let s = sx_markAsUsed (sx_check s0) in
      if pos = sx_maxIndex s then
        ((sx_write s pos v)\<lparr>sx_maxIndex := sx_inc (sx_maxIndex s)\<rparr>, Inr pos)
      else if pos < sx_maxIndex s then
        (case sx_shift_right (sx_maxIndex s) pos s of
           (s', Some e) \<Rightarrow> (s', Inl e)
         | (s', None) \<Rightarrow> ((sx_write s' pos v)\<lparr>sx_maxIndex := sx_inc (sx_maxIndex s')\<rparr>, Inr pos))
      else (s, Inl (OutOfRange ''pos out of range'')))"

text \<open>
  The loops of the two \<open>erase\<close>: \<open>n\<close> steps from index \<open>i\<close>, each moving the element \<open>d\<close> places to the
  right of \<open>i\<close> into place.
\<close>

fun sx_shift_left :: "nat \<Rightarrow> nat \<Rightarrow> nat \<Rightarrow> 'a safe_vec \<Rightarrow> 'a safe_vec \<times> error option" where
  "sx_shift_left 0 i d s = (s, None)"
| "sx_shift_left (Suc n) i d s =
     (case sx_peek s (i + d) of
        Inl e \<Rightarrow> (s, Some e)
      | Inr v \<Rightarrow> sx_shift_left n (Suc i) d (sx_write s i v))"

definition sx_tmp_erase :: "nat set \<Rightarrow> 'a safe_vec \<Rightarrow> 'a safe_vec" where
  "sx_tmp_erase ks s = s\<lparr>sx_tmp := Some (sx_ptr s |` (- ks))\<rparr>"

definition sx_erase :: "'a safe_vec \<Rightarrow> nat \<Rightarrow> 'a safe_vec \<times> nat res" where
  "sx_erase s0 pos =
     (case checkIndexAndCopy s0 pos of
        (s, Some e) \<Rightarrow> (s, Inl e)
      | (s, None) \<Rightarrow>
          (case sx_shift_left (sx_maxIndex s - 1 - pos) pos 1 (sx_markAsUsed s) of
             (s', Some e) \<Rightarrow> (s', Inl e)
           | (s', None) \<Rightarrow>
               ((sx_tmp_erase {sx_maxIndex s' - 1} s')\<lparr>sx_maxIndex := sx_dec (sx_maxIndex s')\<rparr>, Inr pos)))"

definition sx_erase_range :: "'a safe_vec \<Rightarrow> nat \<Rightarrow> nat \<Rightarrow> 'a safe_vec \<times> nat res" where
  "sx_erase_range s0 frst lst =
     (let s = sx_markAsUsed (sx_check s0) in
      if frst > lst \<or> lst > sx_maxIndex s then (s, Inl (OutOfRange ''Indices out of range''))
      else let numToRemove = lst - frst in
        (case sx_shift_left (sx_maxIndex s - numToRemove - frst) frst numToRemove s of
           (s', Some e) \<Rightarrow> (s', Inl e)
         | (s', None) \<Rightarrow>
             ((sx_tmp_erase {sx_maxIndex s' - numToRemove..<sx_maxIndex s'} s')
                \<lparr>sx_maxIndex := sx_maxIndex s' - numToRemove\<rparr>, Inr frst)))"

definition sx_push_back :: "'a safe_vec \<Rightarrow> 'a \<Rightarrow> 'a safe_vec" where
  "sx_push_back s0 v = (let s = sx_markAsUsed (sx_check s0) in
     (if sx_ptr s (sx_maxIndex s) = None then sx_write s (sx_maxIndex s) v else s)
       \<lparr>sx_maxIndex := sx_inc (sx_maxIndex s)\<rparr>)"

definition sx_emplace_back :: "'a safe_vec \<Rightarrow> 'a \<Rightarrow> 'a safe_vec" where
  "sx_emplace_back s0 v = (let s = sx_markAsUsed (sx_check s0) in
     (if sx_ptr s (sx_maxIndex s) = None then sx_write s (sx_maxIndex s) v else s)
       \<lparr>sx_maxIndex := sx_inc (sx_maxIndex s)\<rparr>)"

definition sx_pop_back :: "'a safe_vec \<Rightarrow> 'a safe_vec" where
  "sx_pop_back s0 = (let s = sx_markAsUsed (sx_check s0) in
     (sx_tmp_erase {sx_dec (sx_maxIndex s)} s)\<lparr>sx_maxIndex := sx_dec (sx_maxIndex s)\<rparr>)"

text \<open>\<open>resize(count)\<close> is \<open>resize(count, T())\<close>.\<close>

definition sx_resize :: "'a safe_vec \<Rightarrow> nat \<Rightarrow> 'a \<Rightarrow> 'a safe_vec" where
  "sx_resize s0 count v =
     (let s = sx_check s0;
          s' = (if count < sx_maxIndex s then sx_tmp_erase {count..<sx_maxIndex s} s
                else if count > sx_maxIndex s then
                  s\<lparr>sx_tmp := Some ((\<lambda>i. if sx_maxIndex s \<le> i \<and> i < count then Some v else None) ++ sx_ptr s)\<rparr>
                else s)
      in sx_markAsUsed (s'\<lparr>sx_maxIndex := count\<rparr>))"

text \<open>\<open>commit\<close> runs through the temporary map in the order of the keys.\<close>

definition sx_commit_step :: "(nat \<rightharpoonup> 'a) \<Rightarrow> 'a list \<Rightarrow> nat \<Rightarrow> 'a list" where
  "sx_commit_step t vec k = (if k < length vec then vec[k := the (t k)] else vec @ [the (t k)])"

definition sx_commit :: "'a safe_vec \<Rightarrow> 'a safe_vec" where
  "sx_commit s0 =
     (let s = sx_check s0;
          vec0 = (if sx_clear s then [] else sx_vector s);
          vec1 = (if length vec0 > sx_maxIndex s then take (sx_maxIndex s) vec0 else vec0);
          vec2 = foldl (sx_commit_step (sx_ptr s)) vec1 (sorted_list_of_set (dom (sx_ptr s)))
      in s\<lparr>sx_clear := False, sx_vector := vec2, sx_maxIndex := length vec2\<rparr>)"

definition sx_revert :: "'a safe_vec \<Rightarrow> 'a safe_vec" where
  "sx_revert s = s\<lparr>sx_tmp := None, sx_clear := False, sx_maxIndex := length (sx_vector s)\<rparr>"

section \<open>The list a contract sees\<close>

definition sx_elem :: "'a safe_vec \<Rightarrow> nat \<Rightarrow> 'a" where
  "sx_elem s i = (case sx_ptr s i of Some v \<Rightarrow> v | None \<Rightarrow> sx_vector s ! i)"

definition sx_view :: "'a safe_vec \<Rightarrow> 'a list" where
  "sx_view s = map (sx_elem s) [0..<sx_maxIndex (sx_check s)]"

text \<open>
  The invariant: without a temporary map the size is that of the vector; with one, its keys are
  below the size, and an index without an entry is one of the vector that was not cleared.
\<close>

definition sx_wf :: "'a safe_vec \<Rightarrow> bool" where
  "sx_wf s \<longleftrightarrow>
     (case sx_tmp s of
        None \<Rightarrow> sx_maxIndex s = length (sx_vector s) \<and> \<not> sx_clear s
      | Some t \<Rightarrow> dom t \<subseteq> {..<sx_maxIndex s} \<and>
          (\<forall>i < sx_maxIndex s. t i = None \<longrightarrow> i < length (sx_vector s) \<and> \<not> sx_clear s)) \<and>
     sx_maxIndex s < 2 ^ 64"

section \<open>Lemmas\<close>

named_theorems sx_simps \<open>observations of safe vectors\<close>

lemma sx_check_obs [sx_simps]:
  "sx_tmp (sx_check s) = Some (sx_ptr s)" "sx_ptr (sx_check s) = sx_ptr s"
  "sx_vector (sx_check s) = sx_vector s" "sx_clear (sx_check s) = sx_clear s"
  "sx_owner (sx_check s) = sx_owner s" "sx_registered (sx_check s) = sx_registered s"
  "sx_check (sx_check s) = sx_check s"
  by (auto simp: sx_check_def sx_ptr_def)

lemma sx_mark_obs [sx_simps]:
  "sx_tmp (sx_markAsUsed s) = sx_tmp s" "sx_ptr (sx_markAsUsed s) = sx_ptr s"
  "sx_vector (sx_markAsUsed s) = sx_vector s" "sx_clear (sx_markAsUsed s) = sx_clear s"
  "sx_maxIndex (sx_markAsUsed s) = sx_maxIndex s" "sx_peek (sx_markAsUsed s) = sx_peek s"
  by (auto simp: sx_markAsUsed_def sx_ptr_def sx_peek_def fun_eq_iff split: option.split)

lemma sx_write_obs [sx_simps]:
  "sx_tmp (sx_write s i v) = Some ((sx_ptr s)(i \<mapsto> v))" "sx_ptr (sx_write s i v) = (sx_ptr s)(i \<mapsto> v)"
  "sx_vector (sx_write s i v) = sx_vector s" "sx_clear (sx_write s i v) = sx_clear s"
  "sx_maxIndex (sx_write s i v) = sx_maxIndex s"
  by (auto simp: sx_write_def sx_ptr_def)

lemma sx_peek_write [sx_simps]: "sx_peek (sx_write s i v) j = (if j = i then Inr v else sx_peek s j)"
  by (simp add: sx_peek_def sx_write_obs split: option.split)

lemma sx_erase_obs [sx_simps]:
  "sx_tmp (sx_tmp_erase ks s) = Some (sx_ptr s |` (- ks))" "sx_ptr (sx_tmp_erase ks s) = sx_ptr s |` (- ks)"
  "sx_vector (sx_tmp_erase ks s) = sx_vector s" "sx_clear (sx_tmp_erase ks s) = sx_clear s"
  "sx_maxIndex (sx_tmp_erase ks s) = sx_maxIndex s"
  by (auto simp: sx_tmp_erase_def sx_ptr_def)

lemma sx_ptr_updates [sx_simps]:
  "sx_ptr (s\<lparr>sx_maxIndex := n\<rparr>) = sx_ptr s" "sx_ptr (s\<lparr>sx_tmp := Some t\<rparr>) = t"
  "sx_ptr (s\<lparr>sx_clear := c\<rparr>) = sx_ptr s" "sx_ptr (s\<lparr>sx_vector := w\<rparr>) = sx_ptr s"
  by (simp_all add: sx_ptr_def)

text \<open>
  A state with a temporary map that represents the list \<open>xs\<close>: the invariant and the view in one
  predicate, the form in which every operation is proved correct.
\<close>

definition sx_rep :: "'a safe_vec \<Rightarrow> 'a list \<Rightarrow> bool" where
  "sx_rep s xs \<longleftrightarrow> sx_tmp s \<noteq> None \<and> sx_maxIndex s = length xs \<and> length xs < 2 ^ 64 \<and>
     dom (sx_ptr s) \<subseteq> {..<length xs} \<and>
     (\<forall>i < length xs. case sx_ptr s i of Some v \<Rightarrow> v = xs ! i
        | None \<Rightarrow> i < length (sx_vector s) \<and> sx_vector s ! i = xs ! i \<and> \<not> sx_clear s)"

lemma sx_rep_check: "sx_wf s \<Longrightarrow> sx_rep (sx_check s) (sx_view s)"
  by (auto simp: sx_wf_def sx_rep_def sx_view_def sx_elem_def sx_check_def sx_ptr_def subset_eq
      split: option.splits)

lemma sx_repD:
  assumes "sx_rep s xs"
  shows "sx_wf s" "sx_view s = xs"
proof -
  have chk: "sx_check s = s" using assms by (auto simp: sx_rep_def sx_check_def)
  show "sx_wf s" using assms by (auto simp: sx_rep_def sx_wf_def sx_ptr_def split: option.splits)
  show "sx_view s = xs"
    using assms by (intro nth_equalityI) (auto simp: sx_rep_def sx_view_def chk sx_elem_def split: option.splits)
qed

lemma sx_rep_mark: "sx_rep s xs \<Longrightarrow> sx_rep (sx_markAsUsed s) xs"
  by (auto simp: sx_rep_def sx_simps split: option.splits)

lemma sx_rep_peek: "sx_rep s xs \<Longrightarrow> i < length xs \<Longrightarrow> sx_peek s i = Inr (xs ! i)"
  by (auto simp: sx_rep_def sx_peek_def at_idx_def split: option.splits)

lemma sx_rep_write: "sx_rep s xs \<Longrightarrow> i < length xs \<Longrightarrow> sx_rep (sx_write s i v) (xs[i := v])"
  by (auto simp: sx_rep_def sx_simps nth_list_update split: option.splits)

text \<open>How to establish that a state whose temporary map was rebuilt represents a list.\<close>

lemma sx_repI:
  assumes "sx_rep s xs" "length ys < 2 ^ 64" "dom t \<subseteq> {..<length ys}"
    and "\<And>i v. i < length ys \<Longrightarrow> t i = Some v \<Longrightarrow> v = ys ! i"
    and "\<And>i. i < length ys \<Longrightarrow> t i = None \<Longrightarrow> i < length xs \<and> sx_ptr s i = None \<and> xs ! i = ys ! i"
  shows "sx_rep (s\<lparr>sx_tmp := Some t, sx_maxIndex := length ys\<rparr>) ys"
  unfolding sx_rep_def
proof (intro conjI allI impI)
  fix i assume i: "i < length ys"
  show "case sx_ptr (s\<lparr>sx_tmp := Some t, sx_maxIndex := length ys\<rparr>) i of Some v \<Rightarrow> v = ys ! i
    | None \<Rightarrow> i < length (sx_vector (s\<lparr>sx_tmp := Some t, sx_maxIndex := length ys\<rparr>)) \<and>
        sx_vector (s\<lparr>sx_tmp := Some t, sx_maxIndex := length ys\<rparr>) ! i = ys ! i \<and>
        \<not> sx_clear (s\<lparr>sx_tmp := Some t, sx_maxIndex := length ys\<rparr>)"
  proof (cases "t i")
    case None
    have "i < length xs" "sx_ptr s i = None" "xs ! i = ys ! i" using assms(5) [OF i None] by auto
    then show ?thesis using assms(1) None by (auto simp: sx_rep_def sx_ptr_def split: option.splits)
  next
    case (Some v)
    then show ?thesis using assms(4) [OF i Some] by (simp add: sx_ptr_def)
  qed
qed (use assms in \<open>simp_all add: sx_ptr_def\<close>)

lemma sx_tmp_id: "sx_tmp s \<noteq> None \<Longrightarrow> s\<lparr>sx_tmp := Some (sx_ptr s)\<rparr> = s"
  by (auto simp: sx_ptr_def)

lemma sx_checkIndexAndCopy_rep:
  assumes "sx_wf s"
  shows "checkIndexAndCopy s i =
    (if i < length (sx_view s) then (sx_write (sx_check s) i (sx_view s ! i), None)
     else (sx_check s, Some (OutOfRange ''Index out of range'')))"
proof -
  have rep: "sx_rep (sx_check s) (sx_view s)" using assms by (rule sx_rep_check)
  then have max: "sx_maxIndex (sx_check s) = length (sx_view s)" by (simp add: sx_rep_def)
  show ?thesis
  proof (cases "i < length (sx_view s)")
    case True
    have peek: "sx_peek (sx_check s) i = Inr (sx_view s ! i)" using rep True by (rule sx_rep_peek)
    show ?thesis
    proof (cases "sx_ptr s i")
      case None
      then show ?thesis using True max peek
        by (simp add: checkIndexAndCopy_def Let_def sx_simps sx_peek_def)
    next
      case (Some v)
      then have "v = sx_view s ! i" using peek by (simp add: sx_peek_def sx_simps)
      moreover have "sx_write (sx_check s) i v = sx_check s"
        using Some sx_tmp_id [of "sx_check s"] by (simp add: sx_write_def sx_simps map_upd_triv)
      ultimately show ?thesis using True max Some
        by (simp add: checkIndexAndCopy_def Let_def sx_simps)
    qed
  qed (simp add: checkIndexAndCopy_def Let_def max)
qed

lemma sx_shift_right_spec:
  assumes "sx_tmp s \<noteq> None" "\<And>j. pos \<le> j \<Longrightarrow> j < i \<Longrightarrow> sx_peek s j = Inr (e j)"
  shows "sx_shift_right i pos s =
    (s\<lparr>sx_tmp := Some (\<lambda>j. if pos < j \<and> j \<le> i then Some (e (j - 1)) else sx_ptr s j)\<rparr>, None)"
  using assms
proof (induction i arbitrary: s)
  case 0
  moreover have "(\<lambda>j. if pos < j \<and> j \<le> 0 then Some (e (j - 1)) else sx_ptr s j) = sx_ptr s" by auto
  ultimately show ?case using sx_tmp_id [of s] by simp
next
  case (Suc i)
  show ?case
  proof (cases "pos < Suc i")
    case True
    let ?s = "sx_write s (Suc i) (e i)"
    have "sx_shift_right i pos ?s =
      (?s\<lparr>sx_tmp := Some (\<lambda>j. if pos < j \<and> j \<le> i then Some (e (j - 1)) else sx_ptr ?s j)\<rparr>, None)"
      by (rule Suc.IH) (use Suc.prems in \<open>auto simp: sx_simps\<close>)
    moreover have "sx_peek s i = Inr (e i)" using Suc.prems(2) True by simp
    moreover have "(\<lambda>j. if pos < j \<and> j \<le> i then Some (e (j - 1)) else sx_ptr ?s j) =
      (\<lambda>j. if pos < j \<and> j \<le> Suc i then Some (e (j - 1)) else sx_ptr s j)"
      using True by (auto simp: fun_eq_iff sx_simps le_Suc_eq)
    ultimately show ?thesis using True by (simp add: sx_write_def)
  next
    case False
    then have "(\<lambda>j. if pos < j \<and> j \<le> Suc i then Some (e (j - 1)) else sx_ptr s j) = sx_ptr s"
      by (auto simp: fun_eq_iff)
    then show ?thesis using False sx_tmp_id [of s] Suc.prems(1) by simp
  qed
qed

lemma sx_shift_left_spec:
  assumes "sx_tmp s \<noteq> None" "\<And>j. i + d \<le> j \<Longrightarrow> j < i + d + n \<Longrightarrow> sx_peek s j = Inr (e j)" "0 < d"
  shows "sx_shift_left n i d s =
    (s\<lparr>sx_tmp := Some (\<lambda>j. if i \<le> j \<and> j < i + n then Some (e (j + d)) else sx_ptr s j)\<rparr>, None)"
  using assms
proof (induction n arbitrary: i s)
  case 0
  moreover have "(\<lambda>j. if i \<le> j \<and> j < i + 0 then Some (e (j + d)) else sx_ptr s j) = sx_ptr s"
    by (auto simp: fun_eq_iff)
  ultimately show ?case using sx_tmp_id [of s] by simp
next
  case (Suc n)
  let ?s = "sx_write s i (e (i + d))"
  have "sx_shift_left n (Suc i) d ?s =
    (?s\<lparr>sx_tmp := Some (\<lambda>j. if Suc i \<le> j \<and> j < Suc i + n then Some (e (j + d)) else sx_ptr ?s j)\<rparr>, None)"
    by (rule Suc.IH) (use Suc.prems in \<open>auto simp: sx_simps\<close>)
  moreover have "(\<lambda>j. if Suc i \<le> j \<and> j < Suc i + n then Some (e (j + d)) else sx_ptr ?s j) =
    (\<lambda>j. if i \<le> j \<and> j < i + Suc n then Some (e (j + d)) else sx_ptr s j)"
    by (auto simp: fun_eq_iff sx_simps Suc_le_eq)
  moreover have "sx_peek s (i + d) = Inr (e (i + d))" using Suc.prems(2) by simp
  ultimately show ?case by (simp add: sx_write_def)
qed

section \<open>Each operation on the list\<close>

lemma sx_at_rep:
  assumes "sx_wf s" "i < length (sx_view s)"
  shows "snd (sx_at s i) = Inr (sx_view s ! i)" "sx_rep (fst (sx_at s i)) (sx_view s)"
    "sx_at_const s i = Inr (sx_view s ! i)"
    "sx_rep (sx_write (fst (sx_at s i)) i v) ((sx_view s)[i := v])"
proof -
  have at: "sx_at s i = (sx_markAsUsed (sx_write (sx_check s) i (sx_view s ! i)), Inr (sx_view s ! i))"
    using assms by (simp add: sx_at_def sx_checkIndexAndCopy_rep sx_simps)
  have "sx_rep (sx_write (sx_check s) i (sx_view s ! i)) (sx_view s)"
    using sx_rep_write [OF sx_rep_check [OF assms(1)] assms(2), of "sx_view s ! i"] by simp
  then show rep: "sx_rep (fst (sx_at s i)) (sx_view s)" by (simp add: at sx_rep_mark)
  show "sx_rep (sx_write (fst (sx_at s i)) i v) ((sx_view s)[i := v])"
    using rep assms(2) by (rule sx_rep_write)
  show "snd (sx_at s i) = Inr (sx_view s ! i)" by (simp add: at)
  show "sx_at_const s i = Inr (sx_view s ! i)"
    using assms by (simp add: sx_at_const_def sx_checkIndexAndCopy_rep sx_simps)
qed

lemma sx_at_out_of_range:
  assumes "sx_wf s" "length (sx_view s) \<le> i"
  shows "snd (sx_at s i) = Inl (OutOfRange ''Index out of range'')"
  using assms by (simp add: sx_at_def sx_checkIndexAndCopy_rep)

lemma sx_marked: "sx_wf s \<Longrightarrow> sx_rep (sx_markAsUsed (sx_check s)) (sx_view s)"
  by (intro sx_rep_mark sx_rep_check)

lemma sx_push_back_rep:
  assumes "sx_wf s" "length (sx_view s) < 2 ^ 64 - 1"
  shows "sx_rep (sx_push_back s v) (sx_view s @ [v])"
proof -
  let ?s = "sx_markAsUsed (sx_check s)" and ?n = "length (sx_view s)"
  have rep: "sx_rep ?s (sx_view s)" using assms(1) by (rule sx_marked)
  then have max: "sx_maxIndex ?s = ?n" and new: "sx_ptr ?s ?n = None"
    by (auto simp: sx_rep_def dom_def)
  have "sx_push_back s v = ?s\<lparr>sx_tmp := Some ((sx_ptr ?s)(?n \<mapsto> v)), sx_maxIndex := length (sx_view s @ [v])\<rparr>"
    using assms(2) max new by (simp add: sx_push_back_def Let_def sx_write_def sx_inc_def)
  moreover have "sx_rep (?s\<lparr>sx_tmp := Some ((sx_ptr ?s)(?n \<mapsto> v)), sx_maxIndex := length (sx_view s @ [v])\<rparr>) (sx_view s @ [v])"
    by (rule sx_repI [OF rep])
      (use rep assms(2) in \<open>force simp: sx_rep_def nth_append less_Suc_eq split: if_splits option.splits\<close>)+
  ultimately show ?thesis by simp
qed

lemma sx_pop_back_rep:
  assumes "sx_wf s" "sx_view s \<noteq> []"
  shows "sx_rep (sx_pop_back s) (butlast (sx_view s))"
proof -
  let ?s = "sx_markAsUsed (sx_check s)" and ?n = "length (sx_view s)"
  have rep: "sx_rep ?s (sx_view s)" using assms(1) by (rule sx_marked)
  then have max: "sx_maxIndex ?s = ?n" by (simp add: sx_rep_def)
  have "sx_pop_back s = ?s\<lparr>sx_tmp := Some (sx_ptr ?s |` (- {?n - 1})), sx_maxIndex := length (butlast (sx_view s))\<rparr>"
    using assms(2) max by (simp add: sx_pop_back_def Let_def sx_tmp_erase_def sx_dec_def)
  moreover have "sx_rep (?s\<lparr>sx_tmp := Some (sx_ptr ?s |` (- {?n - 1})), sx_maxIndex := length (butlast (sx_view s))\<rparr>)
      (butlast (sx_view s))"
    by (rule sx_repI [OF rep])
      (use rep assms(2) in \<open>force simp: sx_rep_def nth_butlast restrict_map_def split: if_splits option.splits\<close>)+
  ultimately show ?thesis by simp
qed

lemma sx_clear_rep: "sx_rep (sx_clear_op s) []"
  by (simp add: sx_rep_def sx_clear_op_def Let_def sx_simps)

lemma sx_assign_rep: "length vs < 2 ^ 64 \<Longrightarrow> sx_rep (sx_assign s vs) vs"
  by (auto simp: sx_rep_def sx_assign_def Let_def sx_simps map_of_zip_nth split: option.splits
      dest: map_of_SomeD simp: set_zip)

lemma sx_insert_rep:
  assumes "sx_wf s" "length (sx_view s) < 2 ^ 64 - 1" "pos \<le> length (sx_view s)"
  shows "snd (sx_insert s pos v) = Inr pos"
    and "sx_rep (fst (sx_insert s pos v)) (take pos (sx_view s) @ v # drop pos (sx_view s))"
proof -
  let ?s = "sx_markAsUsed (sx_check s)" and ?xs = "sx_view s"
  let ?n = "length ?xs" and ?ys = "take pos ?xs @ v # drop pos ?xs"
  define t where "t = (\<lambda>j. if j = pos then Some v else if pos < j \<and> j \<le> ?n then Some (?xs ! (j - 1)) else sx_ptr ?s j)"
  have rep: "sx_rep ?s ?xs" using assms(1) by (rule sx_marked)
  then have max: "sx_maxIndex ?s = ?n" and tmp: "sx_tmp ?s \<noteq> None"
    and high: "\<And>j. ?n \<le> j \<Longrightarrow> sx_ptr ?s j = None"
    by (auto simp: sx_rep_def dom_def subset_eq)
  have shift: "sx_shift_right ?n pos ?s =
      (?s\<lparr>sx_tmp := Some (\<lambda>j. if pos < j \<and> j \<le> ?n then Some (?xs ! (j - 1)) else sx_ptr ?s j)\<rparr>, None)"
    by (rule sx_shift_right_spec [OF tmp]) (simp add: sx_rep_peek [OF rep])
  have last: "(sx_ptr ?s)(?n \<mapsto> v) = t" if "pos = ?n"
    using that by (auto simp: t_def fun_eq_iff)
  have mid: "(\<lambda>j. if pos < j \<and> j \<le> ?n then Some (?xs ! (j - 1)) else sx_ptr ?s j)(pos \<mapsto> v) = t"
    by (auto simp: t_def fun_eq_iff)
  have eq: "sx_insert s pos v = (?s\<lparr>sx_tmp := Some t, sx_maxIndex := length ?ys\<rparr>, Inr pos)"
    using assms(2,3) max last mid
    by (cases "pos = ?n") (simp_all add: sx_insert_def Let_def shift sx_write_def sx_inc_def sx_ptr_updates)
  have "sx_rep (?s\<lparr>sx_tmp := Some t, sx_maxIndex := length ?ys\<rparr>) ?ys"
  proof (rule sx_repI [OF rep])
    show "dom t \<subseteq> {..<length ?ys}" using high assms(3) by (fastforce simp: t_def split: if_splits)
    show "w = ?ys ! i" if "i < length ?ys" "t i = Some w" for i w
      using that rep assms(3) by (auto simp: t_def nth_append sx_rep_def nth_Cons' split: if_splits option.splits)
    show "i < length ?xs \<and> sx_ptr ?s i = None \<and> ?xs ! i = ?ys ! i" if "i < length ?ys" "t i = None" for i
      using that assms(3) by (auto simp: t_def nth_append split: if_splits)
  qed (use assms(2,3) in simp)
  then show "sx_rep (fst (sx_insert s pos v)) ?ys" by (simp add: eq)
  show "snd (sx_insert s pos v) = Inr pos" by (simp add: eq)
qed

text \<open>Both \<open>erase\<close> operations leave a state of this form.\<close>

lemma sx_removed_rep:
  assumes rep: "sx_rep s xs" and "frst + d \<le> length xs" "0 < d"
  shows "sx_shift_left (length xs - d - frst) frst d s =
      (s\<lparr>sx_tmp := Some (\<lambda>j. if frst \<le> j \<and> j < length xs - d then Some (xs ! (j + d)) else sx_ptr s j)\<rparr>, None)"
    and "sx_rep (s\<lparr>sx_tmp := Some ((\<lambda>j. if frst \<le> j \<and> j < length xs - d then Some (xs ! (j + d)) else sx_ptr s j)
        |` (- {length xs - d..<length xs})), sx_maxIndex := length xs - d\<rparr>) (take frst xs @ drop (frst + d) xs)"
proof -
  let ?ys = "take frst xs @ drop (frst + d) xs"
  have tmp: "sx_tmp s \<noteq> None" and high: "\<And>j. length xs \<le> j \<Longrightarrow> sx_ptr s j = None"
    using rep by (auto simp: sx_rep_def dom_def subset_eq)
  have "sx_shift_left (length xs - d - frst) frst d s =
      (s\<lparr>sx_tmp := Some (\<lambda>j. if frst \<le> j \<and> j < frst + (length xs - d - frst) then Some (xs ! (j + d)) else sx_ptr s j)\<rparr>, None)"
    using assms(2) by (intro sx_shift_left_spec [OF tmp _ assms(3)] sx_rep_peek [OF rep]) simp
  then show "sx_shift_left (length xs - d - frst) frst d s =
      (s\<lparr>sx_tmp := Some (\<lambda>j. if frst \<le> j \<and> j < length xs - d then Some (xs ! (j + d)) else sx_ptr s j)\<rparr>, None)"
    using assms(2) by simp
  let ?t = "(\<lambda>j. if frst \<le> j \<and> j < length xs - d then Some (xs ! (j + d)) else sx_ptr s j)
        |` (- {length xs - d..<length xs})"
  have len: "length ?ys = length xs - d" using assms(2) by simp
  have "sx_rep (s\<lparr>sx_tmp := Some ?t, sx_maxIndex := length ?ys\<rparr>) ?ys"
  proof (rule sx_repI [OF rep])
    have "length xs < 2 ^ 64" using rep by (simp add: sx_rep_def)
    then show "length ?ys < 2 ^ 64" using len by linarith
    show "dom ?t \<subseteq> {..<length ?ys}"
    proof
      fix j assume "j \<in> dom ?t"
      then show "j \<in> {..<length ?ys}" using high [of j] assms(2)
        by (auto simp: restrict_map_def split: if_splits)
    qed
    show "w = ?ys ! i" if "i < length ?ys" "?t i = Some w" for i w
      using that rep assms(2)
      by (auto simp: restrict_map_def nth_append sx_rep_def add.commute split: if_splits option.splits)
    show "i < length xs \<and> sx_ptr s i = None \<and> xs ! i = ?ys ! i" if "i < length ?ys" "?t i = None" for i
      using that assms(2) by (auto simp: restrict_map_def nth_append split: if_splits)
  qed
  then show "sx_rep (s\<lparr>sx_tmp := Some ?t, sx_maxIndex := length xs - d\<rparr>) ?ys" by (simp only: len)
qed

lemma sx_erase_rep:
  assumes "sx_wf s" "pos < length (sx_view s)"
  shows "snd (sx_erase s pos) = Inr pos"
    and "sx_rep (fst (sx_erase s pos)) (take pos (sx_view s) @ drop (Suc pos) (sx_view s))"
proof -
  let ?xs = "sx_view s"
  define s1 where "s1 = sx_markAsUsed (sx_write (sx_check s) pos (?xs ! pos))"
  have rep: "sx_rep s1 ?xs"
    using sx_rep_mark [OF sx_rep_write [OF sx_rep_check [OF assms(1)] assms(2), of "?xs ! pos"]]
    by (simp add: s1_def)
  then have max: "sx_maxIndex s1 = length ?xs" by (simp add: sx_rep_def)
  note rem = sx_removed_rep [OF rep, of pos 1]
  have nonempty: "?xs \<noteq> []" using assms(2) by auto
  have len: "{length ?xs - 1} = {length ?xs - 1..<length ?xs}" using assms(2) by auto
  have "sx_erase s pos = (s1\<lparr>sx_tmp := Some ((\<lambda>j. if pos \<le> j \<and> j < length ?xs - 1 then Some (?xs ! (j + 1)) else sx_ptr s1 j)
        |` (- {length ?xs - 1..<length ?xs})), sx_maxIndex := length ?xs - 1\<rparr>, Inr pos)"
    using assms max rem(1) len nonempty
    by (simp add: sx_erase_def sx_checkIndexAndCopy_rep s1_def [symmetric] sx_simps sx_tmp_erase_def sx_dec_def)
      (simp add: s1_def sx_simps)
  then show "snd (sx_erase s pos) = Inr pos"
    "sx_rep (fst (sx_erase s pos)) (take pos (sx_view s) @ drop (Suc pos) (sx_view s))"
    using rem(2) assms(2) by simp_all
qed

lemma sx_shift_left_idle:
  assumes "sx_rep s xs" "i + n \<le> length xs"
  shows "snd (sx_shift_left n i 0 s) = None \<and> sx_rep (fst (sx_shift_left n i 0 s)) xs"
  using assms
proof (induction n arbitrary: i s)
  case (Suc n)
  have "sx_peek s i = Inr (xs ! i)" using Suc.prems by (intro sx_rep_peek) auto
  moreover have "sx_rep (sx_write s i (xs ! i)) xs"
    using sx_rep_write [OF Suc.prems(1), of i "xs ! i"] Suc.prems(2) by simp
  ultimately show ?case using Suc.IH [of "sx_write s i (xs ! i)" "Suc i"] Suc.prems by simp
qed simp

lemma sx_erase_range_rep:
  assumes "sx_wf s" "frst \<le> lst" "lst \<le> length (sx_view s)"
  shows "snd (sx_erase_range s frst lst) = Inr frst"
    and "sx_rep (fst (sx_erase_range s frst lst)) (take frst (sx_view s) @ drop lst (sx_view s))"
proof -
  let ?xs = "sx_view s" and ?s = "sx_markAsUsed (sx_check s)"
  have rep: "sx_rep ?s ?xs" using assms(1) by (rule sx_marked)
  then have max: "sx_maxIndex ?s = length ?xs" and tmp: "sx_tmp ?s \<noteq> None" by (simp_all add: sx_rep_def)
  have "snd (sx_erase_range s frst lst) = Inr frst \<and>
    sx_rep (fst (sx_erase_range s frst lst)) (take frst ?xs @ drop lst ?xs)"
  proof (cases "frst = lst")
    case True
    define t' where "t' = fst (sx_shift_left (length ?xs - frst) frst 0 ?s)"
    have t': "sx_shift_left (length ?xs - frst) frst 0 ?s = (t', None)" and rep': "sx_rep t' ?xs"
      using sx_shift_left_idle [OF rep, of frst "length ?xs - frst"] True assms(3)
      by (simp_all add: t'_def prod_eq_iff)
    have "(sx_tmp_erase {} t')\<lparr>sx_maxIndex := sx_maxIndex t'\<rparr> = t'"
      using rep' by (cases t') (auto simp: sx_tmp_erase_def sx_rep_def sx_ptr_def restrict_map_def)
    then show ?thesis using True assms max t' rep' by (simp add: sx_erase_range_def Let_def)
  next
    case False
    note rem = sx_removed_rep [OF rep, of frst "lst - frst"]
    show ?thesis using False assms max rem
      by (simp add: sx_erase_range_def Let_def sx_tmp_erase_def sx_simps)
  qed
  then show "snd (sx_erase_range s frst lst) = Inr frst"
    "sx_rep (fst (sx_erase_range s frst lst)) (take frst (sx_view s) @ drop lst (sx_view s))" by auto
qed

lemma sx_resize_rep:
  assumes "sx_wf s" "count < 2 ^ 64"
  shows "sx_rep (sx_resize s count v)
    (if count < length (sx_view s) then take count (sx_view s)
     else sx_view s @ replicate (count - length (sx_view s)) v)"
proof -
  let ?s = "sx_check s" and ?xs = "sx_view s"
  let ?n = "length ?xs"
  have rep: "sx_rep ?s ?xs" using assms(1) by (rule sx_rep_check)
  then have max: "sx_maxIndex ?s = ?n" and tmp: "sx_tmp ?s \<noteq> None"
    and high: "\<And>j. ?n \<le> j \<Longrightarrow> sx_ptr ?s j = None"
    by (auto simp: sx_rep_def dom_def subset_eq)
  show ?thesis
  proof (cases "count < ?n")
    case True
    have "sx_rep (?s\<lparr>sx_tmp := Some (sx_ptr ?s |` (- {count..<?n})), sx_maxIndex := length (take count ?xs)\<rparr>) (take count ?xs)"
    proof (rule sx_repI [OF rep])
      show "dom (sx_ptr ?s |` (- {count..<?n})) \<subseteq> {..<length (take count ?xs)}"
        using high True by (fastforce simp: restrict_map_def split: if_splits)
      show "w = take count ?xs ! i" if "i < length (take count ?xs)" "(sx_ptr ?s |` (- {count..<?n})) i = Some w" for i w
        using that rep by (auto simp: restrict_map_def sx_rep_def split: if_splits option.splits)
      show "i < ?n \<and> sx_ptr ?s i = None \<and> ?xs ! i = take count ?xs ! i"
        if "i < length (take count ?xs)" "(sx_ptr ?s |` (- {count..<?n})) i = None" for i
        using that by (auto simp: restrict_map_def split: if_splits)
    qed (use True assms(2) in simp)
    then have "sx_rep (?s\<lparr>sx_tmp := Some (sx_ptr ?s |` (- {count..<?n})), sx_maxIndex := count\<rparr>) (take count ?xs)"
      using True by simp
    from sx_rep_mark [OF this] show ?thesis
      using True max by (simp add: sx_resize_def Let_def sx_tmp_erase_def sx_simps)
  next
    case False
    let ?t = "(\<lambda>i. if ?n \<le> i \<and> i < count then Some v else None) ++ sx_ptr ?s"
    let ?ys = "?xs @ replicate (count - ?n) v"
    have len: "length ?ys = count" using False by simp
    have "sx_rep (?s\<lparr>sx_tmp := Some ?t, sx_maxIndex := length ?ys\<rparr>) ?ys"
    proof (rule sx_repI [OF rep])
      show "dom ?t \<subseteq> {..<length ?ys}" using high False
        by (fastforce simp: map_add_def split: if_splits option.splits)
      show "w = ?ys ! i" if "i < length ?ys" "?t i = Some w" for i w
        using that rep by (auto simp: map_add_def nth_append sx_rep_def split: if_splits option.splits)
      show "i < ?n \<and> sx_ptr ?s i = None \<and> ?xs ! i = ?ys ! i" if "i < length ?ys" "?t i = None" for i
        using that by (auto simp: map_add_def nth_append split: if_splits option.splits)
    qed (use len assms(2) in simp)
    then have *: "sx_rep (?s\<lparr>sx_tmp := Some ?t, sx_maxIndex := count\<rparr>) ?ys" by (simp only: len)
    have idle: "?s\<lparr>sx_maxIndex := count\<rparr> = ?s" "sx_rep ?s ?ys" if "count = ?n"
      using that max rep by (cases ?s, simp_all)
    show ?thesis
    proof (cases "count = ?n")
      case True
      have "sx_resize s count v = sx_markAsUsed ?s"
        by (simp only: sx_resize_def Let_def max True less_irrefl if_False idle(1) [OF True, unfolded True])
      then show ?thesis using sx_rep_mark [OF idle(2) [OF True]] True by simp
    qed (use sx_rep_mark [OF *] False max in \<open>simp add: sx_resize_def Let_def\<close>)
  qed
qed

section \<open>Commit and revert\<close>

lemma sorted_keys:
  assumes "dom t \<subseteq> {..<n}"
  shows "sorted_list_of_set (dom t) = filter (\<lambda>k. k \<in> dom t) [0..<n]"
proof (rule sorted_distinct_set_unique)
  have "finite (dom t)" using assms finite_subset by blast
  then show "set (sorted_list_of_set (dom t)) = set (filter (\<lambda>k. k \<in> dom t) [0..<n])"
    using assms by auto
qed (simp_all add: sorted_wrt_filter)

lemma sx_commit_fold:
  assumes "m \<le> length xs" "length vec \<le> length xs"
    and "\<And>k. k < length xs \<Longrightarrow> t k = None \<Longrightarrow> k < length vec \<and> vec ! k = xs ! k"
    and "\<And>k v. k < length xs \<Longrightarrow> t k = Some v \<Longrightarrow> v = xs ! k"
  shows "foldl (sx_commit_step t) vec (filter (\<lambda>k. k \<in> dom t) [0..<m]) = take m xs @ drop m vec"
  using assms(1)
proof (induction m)
  case (Suc m)
  let ?prev = "take m xs @ drop m vec"
  have prev: "foldl (sx_commit_step t) vec (filter (\<lambda>k. k \<in> dom t) [0..<m]) = ?prev" using Suc by simp
  have take: "take (Suc m) xs = take m xs @ [xs ! m]" using Suc.prems by (simp add: take_Suc_conv_app_nth)
  show ?case
  proof (cases "t m")
    case None
    then have "m < length vec" "vec ! m = xs ! m" using assms(3) [of m] Suc.prems by auto
    then have "drop m vec = xs ! m # drop (Suc m) vec" by (metis Cons_nth_drop_Suc)
    then show ?thesis using None prev take by (simp add: dom_def)
  next
    case (Some v)
    then have v: "the (t m) = xs ! m" using assms(4) [of m v] Suc.prems by simp
    have "sx_commit_step t ?prev m = take (Suc m) xs @ drop (Suc m) vec"
    proof (cases "m < length vec")
      case True
      then have "drop m vec = vec ! m # drop (Suc m) vec" by (metis Cons_nth_drop_Suc)
      then show ?thesis using True v take Suc.prems by (simp add: sx_commit_step_def list_update_append)
    next
      case False
      then show ?thesis using v take Suc.prems by (simp add: sx_commit_step_def)
    qed
    then show ?thesis using Some prev by (simp add: dom_def)
  qed
qed simp

lemma sx_commit_vector:
  assumes "sx_wf s"
  shows "sx_vector (sx_commit s) = sx_view s" "sx_rep (sx_commit s) (sx_view s)"
proof -
  let ?s = "sx_check s" and ?xs = "sx_view s"
  let ?vec0 = "if sx_clear ?s then [] else sx_vector ?s"
  let ?vec1 = "if length ?vec0 > sx_maxIndex ?s then take (sx_maxIndex ?s) ?vec0 else ?vec0"
  have rep: "sx_rep ?s ?xs" using assms by (rule sx_rep_check)
  then have max: "sx_maxIndex ?s = length ?xs" by (simp add: sx_rep_def)
  have "foldl (sx_commit_step (sx_ptr ?s)) ?vec1 (filter (\<lambda>k. k \<in> dom (sx_ptr ?s)) [0..<length ?xs])
      = take (length ?xs) ?xs @ drop (length ?xs) ?vec1"
    by (rule sx_commit_fold) (use rep max in \<open>auto simp: sx_rep_def split: option.splits if_splits\<close>)
  also have "\<dots> = ?xs" by (simp add: max)
  finally have "foldl (sx_commit_step (sx_ptr ?s)) ?vec1 (sorted_list_of_set (dom (sx_ptr ?s))) = ?xs"
    using sorted_keys [of "sx_ptr ?s" "length ?xs"] rep by (simp only: sx_rep_def simp_thms)
  then have eq: "sx_commit s = ?s\<lparr>sx_clear := False, sx_vector := ?xs, sx_maxIndex := length ?xs\<rparr>"
    by (simp add: sx_commit_def Let_def)
  show "sx_vector (sx_commit s) = ?xs" by (simp add: eq)
  show "sx_rep (sx_commit s) ?xs"
    using rep by (auto simp: eq sx_rep_def sx_ptr_def split: option.splits)
qed

lemma sx_revert_obs:
  assumes "sx_wf s" "length (sx_vector s) < 2 ^ 64"
  shows "sx_wf (sx_revert s)" "sx_view (sx_revert s) = sx_vector s" "sx_vector (sx_revert s) = sx_vector s"
proof -
  have "map (sx_elem (sx_revert s)) [0..<length (sx_vector s)] = map ((!) (sx_vector s)) [0..<length (sx_vector s)]"
    by (rule map_cong) (simp_all add: sx_elem_def sx_revert_def sx_ptr_def)
  then show "sx_view (sx_revert s) = sx_vector s"
    by (simp add: sx_view_def map_nth) (simp add: sx_revert_def sx_check_def map_nth)
qed (use assms in \<open>simp_all add: sx_wf_def sx_revert_def\<close>)

interpretation vec_var: safe_variable sx_view sx_vector sx_commit sx_revert
  "\<lambda>s. sx_wf s \<and> length (sx_vector s) < 2 ^ 64"
proof
  fix s :: "'a safe_vec"
  assume "sx_wf s \<and> length (sx_vector s) < 2 ^ 64"
  then have wf: "sx_wf s" and len: "length (sx_vector s) < 2 ^ 64" by auto
  have rep: "sx_rep (sx_commit s) (sx_view s)" using wf by (rule sx_commit_vector)
  show "sx_wf (sx_commit s) \<and> length (sx_vector (sx_commit s)) < 2 ^ 64"
    using sx_repD(1) [OF rep] rep sx_commit_vector(1) [OF wf] by (simp add: sx_rep_def)
  show "sx_view (sx_commit s) = sx_view s" using rep by (rule sx_repD)
  show "sx_vector (sx_commit s) = sx_view s" using wf by (rule sx_commit_vector)
  show "sx_wf (sx_revert s) \<and> length (sx_vector (sx_revert s)) < 2 ^ 64"
    "sx_view (sx_revert s) = sx_vector s" "sx_vector (sx_revert s) = sx_vector s"
    using sx_revert_obs [OF wf len] len by auto
qed

lemma sx_push_back_new: "sx_rep (sx_push_back (sx_new w) v) [v]"
proof -
  have "sx_wf (sx_new w :: 'a safe_vec)" "sx_view (sx_new w :: 'a safe_vec) = []"
    by (simp_all add: sx_new_def sx_wf_def sx_view_def sx_check_def)
  then show ?thesis using sx_push_back_rep [of "sx_new w" v] by simp
qed

section \<open>Properties\<close>



text \<open>
  Committing a safe vector makes the list the contract sees the committed vector, whatever
  combination of clearing, shrinking, growing and overwriting produced it; reverting
  restores the committed vector.
\<close>

theorem safe_vector_commit_revert:
  assumes "sx_wf s" "length (sx_vector s) < 2 ^ 64"
  shows "sx_vector (sx_commit s) = sx_view s \<and> sx_view (sx_commit s) = sx_view s \<and>
    sx_view (sx_revert s) = sx_vector s \<and> sx_vector (sx_revert s) = sx_vector s"
  using assms vec_var.view_commit [of s] vec_var.committed_commit [of s]
    vec_var.view_revert [of s] vec_var.committed_revert [of s] by simp

theorem safe_vector_commit_revert_witness:
  "sx_vector (sx_commit (sx_push_back (sx_clear_op (sx_new (Some 7))) (3 :: nat))) = [3] \<and>
   sx_view (sx_revert (sx_push_back (sx_clear_op (sx_new (Some 7))) (3 :: nat))) = []"
proof -
  let ?s = "sx_push_back (sx_clear_op (sx_new (Some 7))) (3 :: nat)"
  have "sx_rep (sx_clear_op (sx_new (Some 7))) ([] :: nat list)" by (rule sx_clear_rep)
  note c = sx_repD [OF this]
  have rep: "sx_rep ?s [3]" using sx_push_back_rep [OF c(1), of 3] by (simp add: c(2))
  have "sx_vector ?s = []"
    by (simp add: sx_push_back_def sx_clear_op_def sx_new_def Let_def sx_simps)
  then show ?thesis
    using safe_vector_commit_revert [OF sx_repD(1) [OF rep]] sx_repD(2) [OF rep] by simp
qed

text \<open>
  The copy constructor of a safe vector copies the temporary map and the size but not the
  vector: reading an element of the copy that the source had not touched in its transaction is an
  out-of-bounds access of the copy's empty vector.
\<close>

theorem safe_vector_copy_out_of_bounds:
  assumes "i < sx_size other" "sx_ptr other i = None"
  shows "sx_at_const (sx_copy other) i = Inl UndefinedBehaviour"
proof -
  have "sx_copy other = (sx_check (sx_new None))\<lparr>sx_tmp := Some (sx_ptr other), sx_maxIndex := sx_size other\<rparr>"
    by (simp add: sx_copy_def Let_def sx_simps sx_size_def)
  then show ?thesis using assms
    by (simp add: sx_at_const_def checkIndexAndCopy_def Let_def sx_check_def sx_new_def sx_simps at_idx_def
        sx_ptr_def)
qed

theorem safe_vector_copy_out_of_bounds_witness:
  "sx_at_const (sx_copy (sx_revert (sx_commit (sx_push_back (sx_new (Some 7)) (3 :: nat))))) 0 = Inl UndefinedBehaviour"
proof (rule safe_vector_copy_out_of_bounds)
  have one: "sx_rep (sx_push_back (sx_new (Some 7)) 3) [3 :: nat]" by (rule sx_push_back_new)
  have "sx_vector (sx_commit (sx_push_back (sx_new (Some 7)) (3 :: nat))) = [3]"
    using sx_commit_vector(1) [OF sx_repD(1) [OF one]] sx_repD(2) [OF one] by simp
  then show "0 < sx_size (sx_revert (sx_commit (sx_push_back (sx_new (Some 7)) (3 :: nat))))"
    by (simp add: sx_size_def sx_check_def sx_revert_def)
qed (simp add: sx_revert_def sx_ptr_def)

end
