(* ===== verification/ContractManager.thy ===== *)
theory ContractManager
  imports SafeUint SafeScalars SafeUnorderedMap SafeVector
begin

text \<open>
  The transaction machinery of \<^verbatim>\<open>contract/contractmanager.cpp\<close>: the variables a call has registered and
  their commit or revert in \<open>updateState\<close>, the contracts created on the way, the balances a
  payable call works on, and the dispatch of \<open>callContract\<close> and \<open>validateCallContractWithTx\<close>. A contract's
  safe variables live in a store indexed by their identity; a variable of any type is a value of
  \<open>any_var\<close>, which models the virtual calls on \<^verbatim>\<open>SafeBase\<close>.
\<close>

section \<open>Variables of any type\<close>

datatype any_var =
    VUint8 "8 word safe_var"
  | VUint64 "64 word safe_var"
  | VUint112 "112 word safe_var"
  | VUint256 "256 word safe_var"
  | VBool "bool safe_var"
  | VString "string safe_var"
  | VAddress "Address safe_var"
  | VBalances "(Address, uint256) safe_map"
  | VAllowances "(Address, Address \<rightharpoonup> uint256) safe_map"
  | VAddresses "Address safe_vec"

fun any_commit :: "any_var \<Rightarrow> any_var" where
  "any_commit (VUint8 s) = VUint8 (sv_commit s)"
| "any_commit (VUint64 s) = VUint64 (sv_commit s)"
| "any_commit (VUint112 s) = VUint112 (sv_commit s)"
| "any_commit (VUint256 s) = VUint256 (sv_commit s)"
| "any_commit (VBool s) = VBool (SafeBool_commit s)"
| "any_commit (VString s) = VString (SafeString_commit s)"
| "any_commit (VAddress s) = VAddress (SafeAddress_commit s)"
| "any_commit (VBalances m) = VBalances (um_commit m)"
| "any_commit (VAllowances m) = VAllowances (um_commit m)"
| "any_commit (VAddresses x) = VAddresses (sx_commit x)"

fun any_revert :: "any_var \<Rightarrow> any_var" where
  "any_revert (VUint8 s) = VUint8 (sv_revert s)"
| "any_revert (VUint64 s) = VUint64 (sv_revert s)"
| "any_revert (VUint112 s) = VUint112 (sv_revert s)"
| "any_revert (VUint256 s) = VUint256 (sv_revert s)"
| "any_revert (VBool s) = VBool (SafeBool_revert s)"
| "any_revert (VString s) = VString (SafeString_revert s)"
| "any_revert (VAddress s) = VAddress (SafeAddress_revert s)"
| "any_revert (VBalances m) = VBalances (um_revert m)"
| "any_revert (VAllowances m) = VAllowances (um_revert m)"
| "any_revert (VAddresses x) = VAddresses (sx_revert x)"

fun any_registered :: "any_var \<Rightarrow> bool" where
  "any_registered (VUint8 s) = sv_registered s"
| "any_registered (VUint64 s) = sv_registered s"
| "any_registered (VUint112 s) = sv_registered s"
| "any_registered (VUint256 s) = sv_registered s"
| "any_registered (VBool s) = sv_registered s"
| "any_registered (VString s) = sv_registered s"
| "any_registered (VAddress s) = sv_registered s"
| "any_registered (VBalances m) = um_registered m"
| "any_registered (VAllowances m) = um_registered m"
| "any_registered (VAddresses x) = sx_registered x"

section \<open>The contract manager\<close>

text \<open>
  \<open>cm_vars\<close> is the store of the safe variables, \<open>cm_usedVariables\<close> the references the running
  call registered, \<open>cm_contracts\<close> the addresses that hold a contract, and \<open>cm_accounts\<close> the native
  balances of the \<^verbatim>\<open>State\<close> that \<open>populateBalance\<close> reads.
\<close>

record cmgr =
  cm_vars :: "nat \<Rightarrow> any_var"
  cm_usedVariables :: "nat list"
  cm_contracts :: "Address set"
  cm_recentlyCreatedContracts :: "Address list"
  cm_balances :: "Address \<rightharpoonup> uint256"
  cm_accounts :: "Address \<rightharpoonup> uint256"

text \<open>An operation on the variable \<open>i\<close>, with the registration that its \<open>markAsUsed\<close> causes.\<close>

definition use_var :: "nat \<Rightarrow> (any_var \<Rightarrow> any_var) \<Rightarrow> cmgr \<Rightarrow> cmgr" where
  "use_var i f c = (let v = cm_vars c i; v' = f v in
     c\<lparr>cm_vars := (cm_vars c)(i := v'),
       cm_usedVariables := (if any_registered v' \<and> \<not> any_registered v then cm_usedVariables c @ [i]
                            else cm_usedVariables c)\<rparr>)"

definition for_each_used :: "(any_var \<Rightarrow> any_var) \<Rightarrow> nat list \<Rightarrow> (nat \<Rightarrow> any_var) \<Rightarrow> nat \<Rightarrow> any_var" where
  "for_each_used f used vars = foldl (\<lambda>h i. h(i := f (h i))) vars (rev used)"

definition updateState :: "bool \<Rightarrow> cmgr \<Rightarrow> cmgr" where
  "updateState commitToState c =
     (let c' = (if commitToState
                then c\<lparr>cm_vars := for_each_used any_commit (cm_usedVariables c) (cm_vars c)\<rparr>
                else c\<lparr>cm_vars := for_each_used any_revert (cm_usedVariables c) (cm_vars c),
                       cm_contracts := cm_contracts c - set (cm_recentlyCreatedContracts c)\<rparr>)
      in c'\<lparr>cm_recentlyCreatedContracts := [], cm_usedVariables := []\<rparr>)"

definition populateBalance :: "Address \<Rightarrow> cmgr \<Rightarrow> cmgr" where
  "populateBalance address c =
     (case cm_balances c address of
        Some _ \<Rightarrow> c
      | None \<Rightarrow> (case cm_accounts c address of
            Some b \<Rightarrow> c\<lparr>cm_balances := (cm_balances c)(address \<mapsto> b)\<rparr>
          | None \<Rightarrow> c\<lparr>cm_balances := (cm_balances c)(address \<mapsto> 0)\<rparr>))"

definition getBalanceFromAddress :: "Address \<Rightarrow> cmgr \<Rightarrow> cmgr \<times> uint256" where
  "getBalanceFromAddress address c =
     (let c' = populateBalance address c in (c', the (cm_balances c' address)))"

text \<open>\<open>balances[k] op= amount\<close> on the plain map of the manager, with a checked operation.\<close>

definition bal_update :: "Address \<Rightarrow> (uint256 \<Rightarrow> uint256 res) \<Rightarrow> cmgr \<Rightarrow> cmgr \<times> error option" where
  "bal_update k f c =
     (let cur = (case cm_balances c k of Some b \<Rightarrow> b | None \<Rightarrow> 0) in
      case f cur of
        Inl e \<Rightarrow> (c\<lparr>cm_balances := (cm_balances c)(k \<mapsto> cur)\<rparr>, Some e)
      | Inr x \<Rightarrow> (c\<lparr>cm_balances := (cm_balances c)(k \<mapsto> x)\<rparr>, None))"

definition sendTokens :: "Address \<Rightarrow> Address \<Rightarrow> uint256 \<Rightarrow> cmgr \<Rightarrow> cmgr \<times> error option" where
  "sendTokens from to amount c0 =
     (let c = populateBalance to (populateBalance from c0) in
      if the (cm_balances c to) < amount then (c, Some (RuntimeError ''Not enough balance''))
      else andThen (bal_update from (\<lambda>b. checked_sub b amount) c)
                   (bal_update to (\<lambda>b. checked_add b amount)))"

section \<open>Dispatch of a call\<close>

text \<open>
  \<open>eth_call\<close> stands for the virtual \<open>ethCall\<close> of the contract at an address (the manager itself, rdPoS
  or a dynamic contract), \<open>payable\<close> for \<open>isPayableFunction\<close> and \<open>process_payable\<close> for
  \<open>State::processContractPayable\<close>. \<open>manager\<close> and \<open>rdpos\<close> are the two fixed addresses.
\<close>

definition cm_fail :: "cmgr \<Rightarrow> error \<Rightarrow> cmgr \<times> error option" where
  "cm_fail c e = ((updateState False c)\<lparr>cm_balances := Map.empty\<rparr>, Some (rethrow e))"

definition callContract ::
  "Address \<Rightarrow> Address \<Rightarrow> (Address \<Rightarrow> cmgr \<Rightarrow> cmgr \<times> error option) \<Rightarrow> bool \<Rightarrow>
   ((Address \<rightharpoonup> uint256) \<Rightarrow> (Address \<rightharpoonup> uint256) \<Rightarrow> (Address \<rightharpoonup> uint256)) \<Rightarrow>
   Address \<Rightarrow> cmgr \<Rightarrow> cmgr \<times> error option" where
  "callContract manager rdpos eth_call payable process_payable to c =
     (if to = manager \<or> to = rdpos then
        (case eth_call to c of
           (c', Some e) \<Rightarrow> cm_fail c' e
         | (c', None) \<Rightarrow> ((updateState True c')\<lparr>cm_balances := Map.empty\<rparr>, None))
      else if to \<notin> cm_contracts c then
        (c\<lparr>cm_balances := Map.empty\<rparr>, Some (RuntimeError ''Contract does not exist''))
      else
        (case eth_call to c of
           (c', Some e) \<Rightarrow> cm_fail c' e
         | (c', None) \<Rightarrow>
             (let c1 = (if payable then c'\<lparr>cm_accounts := process_payable (cm_balances c') (cm_accounts c')\<rparr> else c')
              in (updateState True (c1\<lparr>cm_balances := Map.empty\<rparr>), None))))"

text \<open>
  \<open>validateCallContractWithTx\<close>: a dry run whose changes are always reverted. \<open>own_value\<close> is the
  manager's own \<open>getValue()\<close>, which guards the credit of \<open>value\<close> to the callee.
\<close>

definition validateCallContractWithTx ::
  "Address \<Rightarrow> Address \<Rightarrow> (Address \<Rightarrow> cmgr \<Rightarrow> cmgr \<times> error option) \<Rightarrow> uint256 \<Rightarrow>
   Address \<Rightarrow> uint256 \<Rightarrow> cmgr \<Rightarrow> cmgr \<times> bool res" where
  "validateCallContractWithTx manager rdpos eth_call own_value to v c =
     (let credited = (if own_value \<noteq> 0
            then bal_update to (\<lambda>b. checked_add b v) (populateBalance to c) else (c, None));
          failed = (\<lambda>c' e. ((updateState False (c'\<lparr>cm_balances := Map.empty\<rparr>)), Inl (rethrow e)))
      in case credited of
           (c1, Some e) \<Rightarrow> failed c1 e
         | (c1, None) \<Rightarrow>
             (if to = manager \<or> to = rdpos \<or> to \<in> cm_contracts c1 then
                (case eth_call to c1 of
                   (c', Some e) \<Rightarrow> failed c' e
                 | (c', None) \<Rightarrow> (updateState False (c'\<lparr>cm_balances := Map.empty\<rparr>), Inr True))
              else (c1\<lparr>cm_balances := Map.empty\<rparr>, Inr False)))"

definition isContractAddress :: "Address \<Rightarrow> Address \<Rightarrow> Address \<Rightarrow> cmgr \<Rightarrow> bool" where
  "isContractAddress manager rdpos address c \<longleftrightarrow>
     address = manager \<or> address = rdpos \<or> address \<in> cm_contracts c"

definition isContractCall :: "Address \<Rightarrow> Address \<Rightarrow> Address \<Rightarrow> cmgr \<Rightarrow> bool" where
  "isContractCall manager rdpos to c \<longleftrightarrow> to = manager \<or> to = rdpos \<or> to \<in> cm_contracts c"

section \<open>What a variable shows and what is committed\<close>

datatype any_val =
    XUint8 "8 word" | XUint64 "64 word" | XUint112 "112 word" | XUint256 "256 word"
  | XBool bool | XString string | XAddress Address
  | XBalances "Address \<rightharpoonup> uint256" | XAllowances "Address \<rightharpoonup> Address \<rightharpoonup> uint256" | XAddresses "Address list"

fun any_view :: "any_var \<Rightarrow> any_val" where
  "any_view (VUint8 s) = XUint8 (sv_get s)"
| "any_view (VUint64 s) = XUint64 (sv_get s)"
| "any_view (VUint112 s) = XUint112 (sv_get s)"
| "any_view (VUint256 s) = XUint256 (sv_get s)"
| "any_view (VBool s) = XBool (sv_get s)"
| "any_view (VString s) = XString (sv_get s)"
| "any_view (VAddress s) = XAddress (sv_get s)"
| "any_view (VBalances m) = XBalances (um_view m)"
| "any_view (VAllowances m) = XAllowances (um_view m)"
| "any_view (VAddresses x) = XAddresses (sx_view x)"

fun any_committed :: "any_var \<Rightarrow> any_val" where
  "any_committed (VUint8 s) = XUint8 (sv_value s)"
| "any_committed (VUint64 s) = XUint64 (sv_value s)"
| "any_committed (VUint112 s) = XUint112 (sv_value s)"
| "any_committed (VUint256 s) = XUint256 (sv_value s)"
| "any_committed (VBool s) = XBool (sv_value s)"
| "any_committed (VString s) = XString (sv_value s)"
| "any_committed (VAddress s) = XAddress (sv_value s)"
| "any_committed (VBalances m) = XBalances (um_map m)"
| "any_committed (VAllowances m) = XAllowances (um_map m)"
| "any_committed (VAddresses x) = XAddresses (sx_vector x)"

fun any_wf :: "any_var \<Rightarrow> bool" where
  "any_wf (VBalances m) = um_wf m"
| "any_wf (VAllowances m) = um_wf m"
| "any_wf (VAddresses x) = (sx_wf x \<and> length (sx_vector x) < 2 ^ 64)"
| "any_wf _ = True"

text \<open>The classes whose \<open>commit\<close> and \<open>revert\<close> unregister the variable.\<close>

fun any_tracked :: "any_var \<Rightarrow> bool" where
  "any_tracked (VAddress s) = False"
| "any_tracked (VAddresses x) = False"
| "any_tracked v = any_wf v"

lemma any_vec_laws:
  assumes "any_wf (VAddresses x)"
  shows "any_wf (any_commit (VAddresses x))" "any_wf (any_revert (VAddresses x))"
    "any_view (any_commit (VAddresses x)) = any_view (VAddresses x)"
    "any_committed (any_commit (VAddresses x)) = any_view (VAddresses x)"
    "any_view (any_revert (VAddresses x)) = any_committed (VAddresses x)"
    "any_committed (any_revert (VAddresses x)) = any_committed (VAddresses x)"
  using vec_var.wf_commit [of x] vec_var.wf_revert [of x] vec_var.view_commit [of x]
    vec_var.committed_commit [of x] vec_var.view_revert [of x] vec_var.committed_revert [of x] assms
  by (simp_all only: any_wf.simps any_commit.simps any_revert.simps any_view.simps any_committed.simps simp_thms)

lemmas any_map_laws = umap_tx.wf_commit umap_tx.wf_revert umap_tx.view_commit umap_tx.committed_commit
  umap_tx.view_revert umap_tx.committed_revert

interpretation any: safe_variable any_view any_committed any_commit any_revert any_wf
proof
  fix v assume wf: "any_wf v"
  show "any_wf (any_commit v)" using wf any_vec_laws(1) by (cases v) (simp_all only: any_commit.simps any_wf.simps any_map_laws)
  show "any_wf (any_revert v)" using wf any_vec_laws(2) by (cases v) (simp_all only: any_revert.simps any_wf.simps any_map_laws)
  show "any_view (any_commit v) = any_view v"
    using wf any_vec_laws(3) by (cases v)
      (simp_all only: any_commit.simps any_view.simps any_wf.simps any_map_laws sv_simps SafeBool_commit_def)
  show "any_committed (any_commit v) = any_view v"
    using wf any_vec_laws(4) by (cases v)
      (simp_all only: any_commit.simps any_view.simps any_committed.simps any_wf.simps any_map_laws sv_simps SafeBool_commit_def)
  show "any_view (any_revert v) = any_committed v"
    using wf any_vec_laws(5) by (cases v)
      (simp_all only: any_revert.simps any_view.simps any_committed.simps any_wf.simps any_map_laws sv_simps SafeBool_revert_def)
  show "any_committed (any_revert v) = any_committed v"
    using wf any_vec_laws(6) by (cases v)
      (simp_all only: any_revert.simps any_committed.simps any_wf.simps any_map_laws sv_simps SafeBool_revert_def)
qed

lemma any_tracked_wf: "any_tracked v \<Longrightarrow> any_wf v"
  by (cases v) simp_all

interpretation any_tx: tx_variable any_view any_committed any_commit any_revert any_tracked any_registered
proof
  fix v assume tr: "any_tracked v"
  note wf = any_tracked_wf [OF tr]
  show "any_view (any_commit v) = any_view v" "any_committed (any_commit v) = any_view v"
    "any_view (any_revert v) = any_committed v" "any_committed (any_revert v) = any_committed v"
    using wf by (simp_all add: any.view_commit any.committed_commit any.view_revert any.committed_revert)
  show "any_tracked (any_commit v)" "any_tracked (any_revert v)"
    using any.wf_commit [OF wf] any.wf_revert [OF wf] tr by (cases v; simp)+
  show "\<not> any_registered (any_commit v)" "\<not> any_registered (any_revert v)"
    using tr by (cases v; simp add: sv_simps SafeBool_commit_def SafeBool_revert_def um_simps)+
qed

section \<open>The steps of a call\<close>

text \<open>
  What an operation of a contract does to one of its variables: an assignment operator of a scalar (any
  function of the current value, which may throw), or an access to a map.
\<close>

inductive any_mutates :: "any_var \<Rightarrow> any_var \<Rightarrow> bool" where
  "sv_owner s \<noteq> None \<Longrightarrow> any_mutates (VUint8 s) (VUint8 (fst (sv_assign f s)))"
| "sv_owner s1 \<noteq> None \<Longrightarrow> any_mutates (VUint64 s1) (VUint64 (fst (sv_assign f1 s1)))"
| "sv_owner s2 \<noteq> None \<Longrightarrow> any_mutates (VUint112 s2) (VUint112 (fst (sv_assign f2 s2)))"
| "sv_owner s3 \<noteq> None \<Longrightarrow> any_mutates (VUint256 s3) (VUint256 (fst (sv_assign f3 s3)))"
| "sv_owner s4 \<noteq> None \<Longrightarrow> any_mutates (VBool s4) (VBool (fst (sv_assign f4 s4)))"
| "sv_owner s5 \<noteq> None \<Longrightarrow> any_mutates (VString s5) (VString (fst (sv_assign f5 s5)))"
| "um_owner m \<noteq> None \<Longrightarrow> k \<notin> um_erased m \<Longrightarrow> any_mutates (VBalances m) (VBalances (um_index_assign d m k x))"
| "um_owner m \<noteq> None \<Longrightarrow> any_mutates (VBalances m) (VBalances (fst (um_find m k)))"
| "um_owner m \<noteq> None \<Longrightarrow> any_mutates (VBalances m) (VBalances (fst (um_erase m k)))"
| "um_owner n \<noteq> None \<Longrightarrow> k \<notin> um_erased n \<Longrightarrow> any_mutates (VAllowances n) (VAllowances (um_index_assign e n k y))"
| "um_owner n \<noteq> None \<Longrightarrow> any_mutates (VAllowances n) (VAllowances (fst (um_find n k)))"
| "um_owner n \<noteq> None \<Longrightarrow> any_mutates (VAllowances n) (VAllowances (fst (um_erase n k)))"

inductive_simps any_mutates_simps: "any_mutates (VUint256 s) v" "any_mutates (VBalances m) v"

inductive cm_run :: "cmgr \<Rightarrow> cmgr \<Rightarrow> bool" for c0 where
  start: "cm_run c0 c0"
| use: "cm_run c0 c \<Longrightarrow> any_mutates (cm_vars c i) v \<Longrightarrow> cm_run c0 (use_var i (\<lambda>_. v) c)"
| create: "cm_run c0 c \<Longrightarrow> a \<notin> cm_contracts c \<Longrightarrow>
    cm_run c0 (c\<lparr>cm_contracts := insert a (cm_contracts c),
               cm_recentlyCreatedContracts := cm_recentlyCreatedContracts c @ [a]\<rparr>)"
| send: "cm_run c0 c \<Longrightarrow> cm_run c0 (fst (sendTokens f t amount c))"

lemma um_wf_index_assign: "um_wf m \<Longrightarrow> k \<notin> um_erased m \<Longrightarrow> um_wf (um_index_assign d m k x)"
  using um_create_wf [of m k d]
  by (auto simp: um_index_assign_def um_index_def Let_def um_wf_def um_simps split: if_splits)

lemma um_wf_find: "um_wf m \<Longrightarrow> um_wf (fst (um_find m k))"
  using um_copy_obs(7) [of m k] by (simp add: um_find_def Let_def um_wf_def um_simps)

lemma any_mutates_laws:
  assumes "any_mutates v v'"
  shows "any_committed v' = any_committed v" "any_registered v'" "any_tracked v \<Longrightarrow> any_tracked v'"
  using assms
  by (induction rule: any_mutates.induct)
    (simp_all add: sv_simps um_simps um_wf_index_assign um_wf_find um_erase_wf)

section \<open>The invariant of a running call\<close>

text \<open>Between calls: nothing registered or created, and every variable shows what is committed.\<close>

definition cm_settled :: "cmgr \<Rightarrow> bool" where
  "cm_settled c \<longleftrightarrow> cm_usedVariables c = [] \<and> cm_recentlyCreatedContracts c = [] \<and>
     (\<forall>i. any_tracked (cm_vars c i) \<and> \<not> any_registered (cm_vars c i) \<and>
          any_view (cm_vars c i) = any_committed (cm_vars c i))"

text \<open>
  During a call that started in \<open>c0\<close>: the registered variables are exactly the used ones, the others
  are untouched, nothing committed has changed, and the new contracts are the recorded ones.
\<close>

definition cm_inv :: "cmgr \<Rightarrow> cmgr \<Rightarrow> bool" where
  "cm_inv c0 c \<longleftrightarrow> distinct (cm_usedVariables c) \<and>
     (\<forall>i. any_tracked (cm_vars c i) \<and> any_committed (cm_vars c i) = any_committed (cm_vars c0 i) \<and>
          (any_registered (cm_vars c i) \<longleftrightarrow> i \<in> set (cm_usedVariables c)) \<and>
          (i \<notin> set (cm_usedVariables c) \<longrightarrow> cm_vars c i = cm_vars c0 i)) \<and>
     cm_contracts c = cm_contracts c0 \<union> set (cm_recentlyCreatedContracts c) \<and>
     set (cm_recentlyCreatedContracts c) \<inter> cm_contracts c0 = {} \<and> cm_accounts c = cm_accounts c0"

lemma populateBalance_obs [simp]:
  "cm_vars (populateBalance a c) = cm_vars c" "cm_usedVariables (populateBalance a c) = cm_usedVariables c"
  "cm_contracts (populateBalance a c) = cm_contracts c" "cm_accounts (populateBalance a c) = cm_accounts c"
  "cm_recentlyCreatedContracts (populateBalance a c) = cm_recentlyCreatedContracts c"
  by (simp_all add: populateBalance_def split: option.split)

lemma bal_update_obs [simp]:
  "cm_vars (fst (bal_update a f c)) = cm_vars c" "cm_usedVariables (fst (bal_update a f c)) = cm_usedVariables c"
  "cm_contracts (fst (bal_update a f c)) = cm_contracts c" "cm_accounts (fst (bal_update a f c)) = cm_accounts c"
  "cm_recentlyCreatedContracts (fst (bal_update a f c)) = cm_recentlyCreatedContracts c"
  by (simp_all add: bal_update_def Let_def split: sum.split)

lemma sendTokens_obs [simp]:
  "cm_vars (fst (sendTokens f t n c)) = cm_vars c" "cm_usedVariables (fst (sendTokens f t n c)) = cm_usedVariables c"
  "cm_contracts (fst (sendTokens f t n c)) = cm_contracts c" "cm_accounts (fst (sendTokens f t n c)) = cm_accounts c"
  "cm_recentlyCreatedContracts (fst (sendTokens f t n c)) = cm_recentlyCreatedContracts c"
  by (simp_all add: sendTokens_def Let_def andThen_def split: option.split)

lemma cm_inv_start: "cm_settled c \<Longrightarrow> cm_inv c c"
  by (simp add: cm_settled_def cm_inv_def)

lemma cm_inv_use:
  assumes inv: "cm_inv c0 c" and mut: "any_mutates (cm_vars c i) v"
  shows "cm_inv c0 (use_var i (\<lambda>_. v) c)"
  using inv any_mutates_laws [OF mut]
  by (auto simp: cm_inv_def use_var_def Let_def)

lemma cm_run_inv: "cm_run c0 c \<Longrightarrow> cm_settled c0 \<Longrightarrow> cm_inv c0 c"
proof (induction rule: cm_run.induct)
  case (create c a)
  then show ?case by (auto simp: cm_inv_def)
qed (simp_all add: cm_inv_start cm_inv_use, simp add: cm_inv_def)

lemma for_each_used_at:
  assumes "distinct used"
  shows "for_each_used f used h i = (if i \<in> set used then f (h i) else h i)"
proof -
  have "foldl (\<lambda>h i. h(i := f (h i))) h xs i = (if i \<in> set xs then f (h i) else h i)" if "distinct xs" for xs
    using that by (induction xs arbitrary: h) auto
  from this [of "rev used"] show ?thesis using assms by (simp add: for_each_used_def)
qed

lemma updateState_commit:
  assumes "cm_inv c0 c" "cm_settled c0"
  shows "cm_settled (updateState True c)"
    and "any_view (cm_vars (updateState True c) i) = any_view (cm_vars c i)"
    and "cm_contracts (updateState True c) = cm_contracts c"
proof -
  have vars: "cm_vars (updateState True c) j =
      (if j \<in> set (cm_usedVariables c) then any_commit (cm_vars c j) else cm_vars c0 j)" for j
    using assms(1) by (simp add: updateState_def Let_def cm_inv_def for_each_used_at)
  have tr: "any_tracked (cm_vars c j)" for j using assms(1) by (simp add: cm_inv_def)
  show "cm_settled (updateState True c)"
    using assms(2) any_tx.settled_commit [OF tr] vars
    by (simp add: cm_settled_def any_tx.settled_def any_tx.clean_def) (simp add: updateState_def Let_def)
  show "any_view (cm_vars (updateState True c) i) = any_view (cm_vars c i)"
    using assms(1) any_tx.view_commit [OF tr] vars [of i] by (simp add: cm_inv_def)
  show "cm_contracts (updateState True c) = cm_contracts c" by (simp add: updateState_def Let_def)
qed

lemma updateState_revert:
  assumes "cm_inv c0 c" "cm_settled c0"
  shows "cm_settled (updateState False c)"
    and "any_view (cm_vars (updateState False c) i) = any_view (cm_vars c0 i)"
    and "cm_contracts (updateState False c) = cm_contracts c0"
    and "cm_accounts (updateState False c) = cm_accounts c0"
proof -
  have vars: "cm_vars (updateState False c) j =
      (if j \<in> set (cm_usedVariables c) then any_revert (cm_vars c j) else cm_vars c0 j)" for j
    using assms(1) by (simp add: updateState_def Let_def cm_inv_def for_each_used_at)
  have tr: "any_tracked (cm_vars c j)" for j using assms(1) by (simp add: cm_inv_def)
  show "cm_settled (updateState False c)"
    using assms(2) any_tx.settled_revert [OF tr] vars
    by (simp add: cm_settled_def any_tx.settled_def any_tx.clean_def) (simp add: updateState_def Let_def)
  show "any_view (cm_vars (updateState False c) i) = any_view (cm_vars c0 i)"
    using assms any_tx.view_revert [OF tr] vars [of i] by (simp add: cm_inv_def cm_settled_def)
  show "cm_contracts (updateState False c) = cm_contracts c0" "cm_accounts (updateState False c) = cm_accounts c0"
    using assms(1) by (auto simp: updateState_def Let_def cm_inv_def)
qed

lemma cm_settled_balances [simp]: "cm_settled (c\<lparr>cm_balances := b\<rparr>) = cm_settled c"
  and cm_settled_accounts [simp]: "cm_settled (c\<lparr>cm_accounts := a\<rparr>) = cm_settled c"
  and cm_inv_balances [simp]: "cm_inv c0 (c\<lparr>cm_balances := b\<rparr>) = cm_inv c0 c"
  and cm_inv_balances0 [simp]: "cm_inv (c0\<lparr>cm_balances := b\<rparr>) c = cm_inv c0 c"
  by (simp_all add: cm_settled_def cm_inv_def)

section \<open>Properties\<close>


text \<open>The setting of the witnesses: one committed integer variable with value 5.\<close>

definition demo_var :: "256 word safe_var" where
  "demo_var = sv_commit (SafeUint_new (Some 1) 5)"

definition demo_mgr :: cmgr where
  "demo_mgr = \<lparr>cm_vars = (\<lambda>_. VUint256 demo_var), cm_usedVariables = [], cm_contracts = {[9]},
     cm_recentlyCreatedContracts = [], cm_balances = Map.empty, cm_accounts = [[1] \<mapsto> 100]\<rparr>"

definition demo_call :: "error option \<Rightarrow> Address \<Rightarrow> cmgr \<Rightarrow> cmgr \<times> error option" where
  "demo_call e a c = (use_var 0 (\<lambda>_. VUint256 (fst (op_add_assign demo_var 4))) c, e)"

lemma demo_settled: "cm_settled demo_mgr"
  by (simp add: cm_settled_def demo_mgr_def demo_var_def sv_simps)

lemma demo_var_owner: "sv_owner demo_var = Some 1"
  by (simp add: demo_var_def sv_simps) (simp add: SafeUint_new_def sv_new_def)

lemma demo_run: "cm_run demo_mgr (fst (demo_call e a demo_mgr))"
proof -
  have "any_mutates (cm_vars demo_mgr 0) (VUint256 (fst (op_add_assign demo_var 4)))"
    unfolding op_add_assign_def demo_mgr_def using demo_var_owner by (simp add: any_mutates.intros)
  then show ?thesis by (auto simp: demo_call_def intro: cm_run.intros)
qed

lemma demo_values:
  "any_view (cm_vars demo_mgr 0) = XUint256 5"
  "any_view (cm_vars (fst (demo_call e a demo_mgr)) 0) = XUint256 9"
  by (simp_all add: demo_mgr_def demo_call_def use_var_def Let_def demo_var_def op_add_assign_def sv_simps
      SafeUint_new_def uint_add_def max_of_def)




text \<open>
  \<open>sendTokens\<close> moves native tokens without creating or destroying any: when it succeeds the
  sender loses exactly the amount and the receiver gains it. It succeeds exactly when the
  sender has the amount, the receiver's sum does not overflow, and the receiver already holds at least the
  amount, since the guard reads the receiver's balance.
\<close>

theorem sendTokens_spec:
  assumes "from \<noteq> to"
  shows "let r = sendTokens from to amount c; bf = snd (getBalanceFromAddress from c); bt = snd (getBalanceFromAddress to c) in
    (snd r = None \<longleftrightarrow> amount \<le> bf \<and> amount \<le> bt \<and> unat bt + unat amount < 2 ^ 256) \<and>
    (if snd r = None
     then cm_balances (fst r) from = Some (bf - amount) \<and> cm_balances (fst r) to = Some (bt + amount) \<and>
          unat (bf - amount) + unat (bt + amount) = unat bf + unat bt
     else True)"
proof -
  let ?c = "populateBalance to (populateBalance from c)"
  let ?bf = "snd (getBalanceFromAddress from c)" and ?bt = "snd (getBalanceFromAddress to c)"
  have b: "cm_balances ?c from = Some ?bf" "cm_balances ?c to = Some ?bt"
    using assms by (auto simp: getBalanceFromAddress_def populateBalance_def Let_def split: option.splits)
  have arith: "unat (?bf - amount) + unat (?bt + amount) = unat ?bf + unat ?bt"
    if "amount \<le> ?bf" "unat ?bt + unat amount < 2 ^ 256"
    using that by (simp add: unat_sub unat_add_no_wrap word_le_nat_alt)
  show ?thesis
    using b assms arith
    by (auto simp: sendTokens_def Let_def bal_update_def andThen_def checked_sub_def checked_add_def not_less)
qed

theorem sendTokens_spec_witness:
  "snd (sendTokens [1] [2] 40 (demo_mgr\<lparr>cm_accounts := [[1] \<mapsto> 100, [2] \<mapsto> 50]\<rparr>)) = None \<and>
   snd (sendTokens [1] [2] 40 (demo_mgr\<lparr>cm_accounts := [[1] \<mapsto> 100]\<rparr>)) \<noteq> None"
  using sendTokens_spec [of "[1]" "[2]" 40 "demo_mgr\<lparr>cm_accounts := [[1] \<mapsto> 100, [2] \<mapsto> 50]\<rparr>"]
    sendTokens_spec [of "[1]" "[2]" 40 "demo_mgr\<lparr>cm_accounts := [[1] \<mapsto> 100]\<rparr>"]
  by (simp add: Let_def getBalanceFromAddress_def populateBalance_def demo_mgr_def)

text \<open>
  A safe address stays registered after \<open>commit\<close>, so its change in a later transaction is not
  recorded: reverting that transaction leaves the new value in place.
\<close>

theorem SafeAddress_second_revert_lost:
  assumes "cm_vars c i = VAddress s" "sv_owner s \<noteq> None" "\<not> sv_registered s" "cm_usedVariables c = []"
  shows "let c1 = updateState True (use_var i (\<lambda>_. VAddress (SafeAddress_assign s a)) c);
             s1 = SafeAddress_commit (SafeAddress_assign s a);
             c2 = updateState False (use_var i (\<lambda>_. VAddress (SafeAddress_assign s1 b)) c1)
    in cm_vars c1 i = VAddress s1 \<and> any_view (cm_vars c1 i) = XAddress a \<and> any_view (cm_vars c2 i) = XAddress b"
  using assms
  by (auto simp: Let_def use_var_def updateState_def for_each_used_def SafeAddress_assign_def sv_simps)

theorem SafeAddress_second_revert_lost_witness:
  "any_view (cm_vars (updateState False (use_var 0 (\<lambda>_. VAddress (SafeAddress_assign
      (SafeAddress_commit (SafeAddress_assign (SafeAddress_new (Some 1) [0]) [1])) [2]))
      (updateState True (use_var 0 (\<lambda>_. VAddress (SafeAddress_assign (SafeAddress_new (Some 1) [0]) [1]))
         (demo_mgr\<lparr>cm_vars := (\<lambda>_. VAddress (SafeAddress_new (Some 1) [0]))\<rparr>))))) 0) = XAddress [2]"
  using SafeAddress_second_revert_lost
    [of "demo_mgr\<lparr>cm_vars := (\<lambda>_. VAddress (SafeAddress_new (Some 1) [0]))\<rparr>" 0 "SafeAddress_new (Some 1) [0]" "[1]" "[2]"]
  by (simp add: Let_def demo_mgr_def SafeAddress_new_def sv_new_def)

end
