(* ===== verification/Wrappers.thy ===== *)
theory Wrappers
  imports ContractCall ContractManager
begin

text \<open>
  The two contracts that hold tokens for their users: \<^verbatim>\<open>contract/erc20wrapper.cpp\<close> (any ERC-20 token)
  and \<^verbatim>\<open>contract/nativewrapper.cpp\<close> (the native token as an ERC-20 token). The wrapper calls
  tokens through the contract manager; its proofs rest on the \<open>token_contract\<close> interface.
\<close>

section \<open>ERC20Wrapper\<close>

record wrapper =
  w_address :: Address
  w_tokensAndBalances :: "(Address, Address \<rightharpoonup> uint256) safe_map"
  w_contracts :: "Address \<rightharpoonup> dyn_contract"

text \<open>A call of a token function by the wrapper.\<close>

definition wrapper_call ::
  "Address \<Rightarrow> (erc20 \<Rightarrow> erc20 \<times> error option) \<Rightarrow> wrapper \<Rightarrow> wrapper \<times> error option" where
  "wrapper_call target func w =
     (case callContractFunction target func (w_contracts w) of (tbl, e) \<Rightarrow> (w\<lparr>w_contracts := tbl\<rparr>, e))"

definition getContractBalance :: "wrapper \<Rightarrow> Address \<Rightarrow> uint256 res" where
  "getContractBalance w token = bindR (getContract (w_contracts w) token) (\<lambda>t. Inr (balanceOf t (w_address w)))"

definition getUserBalance :: "wrapper \<Rightarrow> Address \<Rightarrow> Address \<Rightarrow> uint256" where
  "getUserBalance w token user =
     (case um_find_const (w_tokensAndBalances w) token of
        None \<Rightarrow> 0
      | Some im \<Rightarrow> (case im user of None \<Rightarrow> 0 | Some x \<Rightarrow> x))"

text \<open>
  The common part of \<open>withdraw\<close> and \<open>transferTo\<close>: find the caller's entry, compare, subtract through
  the iterator, and send the tokens to \<open>to\<close>.
\<close>

definition wrapper_pay :: "Address \<Rightarrow> Address \<Rightarrow> Address \<Rightarrow> uint256 \<Rightarrow> wrapper \<Rightarrow> wrapper \<times> error option" where
  "wrapper_pay caller token to v w0 =
     (case um_find (w_tokensAndBalances w0) token of
        (m, it) \<Rightarrow>
          (let w = w0\<lparr>w_tokensAndBalances := m\<rparr> in
           case it of
             None \<Rightarrow> (w, Some (RuntimeError ''Token not found''))
           | Some im \<Rightarrow> (case im caller of
                 None \<Rightarrow> (w, Some (RuntimeError ''User not found''))
               | Some b \<Rightarrow>
                   (if b \<le> v then (w, Some (RuntimeError ''Not enough balance''))
                    else case checked_sub b v of
                      Inl e \<Rightarrow> (w, Some e)
                    | Inr x \<Rightarrow>
                        wrapper_call token (transfer (w_address w) to v)
                          (w\<lparr>w_tokensAndBalances := um_write m token (im(caller \<mapsto> x))\<rparr>)))))"

definition withdraw :: "Address \<Rightarrow> Address \<Rightarrow> uint256 \<Rightarrow> wrapper \<Rightarrow> wrapper \<times> error option" where
  "withdraw caller token v w = wrapper_pay caller token caller v w"

definition transferTo :: "Address \<Rightarrow> Address \<Rightarrow> Address \<Rightarrow> uint256 \<Rightarrow> wrapper \<Rightarrow> wrapper \<times> error option" where
  "transferTo caller token to v w = wrapper_pay caller token to v w"

definition deposit :: "Address \<Rightarrow> Address \<Rightarrow> uint256 \<Rightarrow> wrapper \<Rightarrow> wrapper \<times> error option" where
  "deposit caller token v w0 =
     andThen (wrapper_call token (transferFrom (w_address w0) caller (w_address w0) v) w0)
       (\<lambda>w. case nested_add_assign (w_tokensAndBalances w) token caller v of
          (m, e) \<Rightarrow> (w\<lparr>w_tokensAndBalances := m\<rparr>, e))"

section \<open>NativeWrapper\<close>

text \<open>
  The native wrapper has the state of a token; \<open>value\<close> is the native amount sent with the call,
  and a withdrawal pays out through \<open>sendTokens\<close> of the manager.
\<close>

record native =
  n_address :: Address
  n_token :: erc20
  n_mgr :: cmgr

definition native_mintValue :: "Address \<Rightarrow> uint256 \<Rightarrow> native \<Rightarrow> native \<times> error option" where
  "native_mintValue address v n =
     (case andThen (on_balances (\<lambda>m. map_add_assign m address v) (n_token n))
                   (on_totalSupply (\<lambda>s. big_op_add_assign s v)) of (t, e) \<Rightarrow> (n\<lparr>n_token := t\<rparr>, e))"

definition native_totalSupply :: "native \<Rightarrow> uint256" where
  "native_totalSupply n = sv_get (e_totalSupply (n_token n))"

definition native_balanceOf :: "native \<Rightarrow> Address \<Rightarrow> uint256" where
  "native_balanceOf n owner = (case um_find_const (e_balances (n_token n)) owner of None \<Rightarrow> 0 | Some x \<Rightarrow> x)"

definition native_transfer :: "Address \<Rightarrow> Address \<Rightarrow> uint256 \<Rightarrow> native \<Rightarrow> native \<times> error option" where
  "native_transfer caller to v n =
     (case andThen (on_balances (\<lambda>m. map_sub_assign m caller v) (n_token n))
                   (on_balances (\<lambda>m. map_add_assign m to v)) of (t, e) \<Rightarrow> (n\<lparr>n_token := t\<rparr>, e))"

definition native_approve :: "Address \<Rightarrow> Address \<Rightarrow> uint256 \<Rightarrow> native \<Rightarrow> native" where
  "native_approve caller spender v n =
     n\<lparr>n_token := (n_token n)\<lparr>e_allowed := nested_assign (e_allowed (n_token n)) caller spender v\<rparr>\<rparr>"

definition native_allowance :: "native \<Rightarrow> Address \<Rightarrow> Address \<Rightarrow> uint256" where
  "native_allowance n owner spender =
     (case um_find_const (e_allowed (n_token n)) owner of
        None \<Rightarrow> 0
      | Some im \<Rightarrow> (case im spender of None \<Rightarrow> 0 | Some x \<Rightarrow> x))"

definition native_transferFrom :: "Address \<Rightarrow> Address \<Rightarrow> Address \<Rightarrow> uint256 \<Rightarrow> native \<Rightarrow> native \<times> error option" where
  "native_transferFrom caller from to v n =
     (case andThen (andThen (on_allowed (\<lambda>m. nested_sub_assign m from caller v) (n_token n))
                            (on_balances (\<lambda>m. map_sub_assign m from v)))
                   (on_balances (\<lambda>m. map_add_assign m to v)) of (t, e) \<Rightarrow> (n\<lparr>n_token := t\<rparr>, e))"

definition native_deposit :: "Address \<Rightarrow> uint256 \<Rightarrow> native \<Rightarrow> native \<times> error option" where
  "native_deposit caller v n =
     (case on_balances (\<lambda>m. map_add_assign m caller v) (n_token n) of (t, e) \<Rightarrow> (n\<lparr>n_token := t\<rparr>, e))"

definition native_withdraw :: "Address \<Rightarrow> uint256 \<Rightarrow> native \<Rightarrow> native \<times> error option" where
  "native_withdraw caller v n0 =
     andThen (case on_balances (\<lambda>m. map_sub_assign m caller v) (n_token n0) of (t, e) \<Rightarrow> (n0\<lparr>n_token := t\<rparr>, e))
       (\<lambda>n. case sendTokens (n_address n) caller v (n_mgr n) of (c, e) \<Rightarrow> (n\<lparr>n_mgr := c\<rparr>, e))"

section \<open>Solvency of the wrapper\<close>

text \<open>A plain map as a map contract, for the sum of the inner maps.\<close>

interpretation plain: map_contract "\<lambda>m. m" "\<lambda>m k v. m(k \<mapsto> v)" "\<lambda>m k. m(k := None)"
  by unfold_locales auto

definition owed :: "wrapper \<Rightarrow> Address \<Rightarrow> nat" where
  "owed w token = (case um_view (w_tokensAndBalances w) token of
     None \<Rightarrow> 0 | Some im \<Rightarrow> (\<Sum>u \<in> dom im. unat (the (im u))))"

text \<open>
  Every listed token is a correct ERC-20 contract, has finitely many users, and the wrapper holds at least what it
  owes them.
\<close>

definition wrapper_inv :: "wrapper \<Rightarrow> bool" where
  "wrapper_inv w \<longleftrightarrow>
     (\<forall>token t. w_contracts w token = Some (DErc20 t) \<longrightarrow>
        erc20_inv t \<and> owed w token \<le> unat (balanceOf t (w_address w))) \<and>
     (\<forall>token im. um_view (w_tokensAndBalances w) token = Some im \<longrightarrow> finite (dom im))"

lemma owed_total: "owed w token = (case um_view (w_tokensAndBalances w) token of
     None \<Rightarrow> 0 | Some im \<Rightarrow> plain.total unat im)"
proof -
  have "(\<Sum>u\<in>dom im. unat (the (im u))) = plain.total unat im" for im :: "Address \<rightharpoonup> uint256"
    unfolding plain.total_def by (rule sum.cong) (auto simp: plain.weight_def)
  then show ?thesis by (simp add: owed_def split: option.split)
qed

lemma wrapper_call_ok:
  assumes "snd (wrapper_call target func w) = None"
  obtains t where "w_contracts w target = Some (DErc20 t)" "snd (func t) = None"
    "fst (wrapper_call target func w) = w\<lparr>w_contracts := (w_contracts w)(target \<mapsto> DErc20 (fst (func t)))\<rparr>"
proof -
  have "snd (callContractFunction target func (w_contracts w)) = None"
    using assms by (simp add: wrapper_call_def case_prod_beta)
  then show thesis
    by (rule callContractFunction_ok) (rule that, simp_all add: wrapper_call_def case_prod_beta)
qed

text \<open>
  The bookkeeping step: one user's entry of one token changes from \<open>b\<close> to \<open>x\<close>.
\<close>

lemma owed_update:
  assumes view: "um_view (w_tokensAndBalances w') = (um_view (w_tokensAndBalances w))(token \<mapsto> im(u \<mapsto> x))"
    and old: "\<And>v. plain.weight unat im v = plain.weight unat
        (case um_view (w_tokensAndBalances w) token of None \<Rightarrow> Map.empty | Some i \<Rightarrow> i) v"
    and fin: "finite (dom im)" "\<And>i. um_view (w_tokensAndBalances w) token = Some i \<Longrightarrow> finite (dom i)"
  shows "owed w' token + unat (getUserBalance w token u) = owed w token + unat x"
    and "token' \<noteq> token \<Longrightarrow> owed w' token' = owed w token'"
proof -
  let ?i = "case um_view (w_tokensAndBalances w) token of None \<Rightarrow> Map.empty | Some i \<Rightarrow> i"
  have fi: "finite (dom ?i)" using fin(2) by (auto split: option.split)
  let ?A = "dom im \<union> dom ?i"
  have "plain.total unat im = (\<Sum>v\<in>?A. plain.weight unat im v)"
    using fin(1) fi by (intro plain.total_superset) auto
  also have "\<dots> = (\<Sum>v\<in>?A. plain.weight unat ?i v)" by (simp only: old)
  also have "\<dots> = plain.total unat ?i"
    using fin(1) fi by (intro plain.total_superset [symmetric]) auto
  finally have tot: "plain.total unat im = owed w token"
    by (simp add: owed_total plain.total_def split: option.split)
  have "plain.weight unat im u = unat (getUserBalance w token u)"
    by (simp only: old) (simp add: plain.weight_def getUserBalance_def um_find_const_def um_simps split: option.split)
  then show "owed w' token + unat (getUserBalance w token u) = owed w token + unat x"
    using plain.total_assign [OF fin(1), of unat u x] tot by (simp add: owed_total view)
  show "owed w' token' = owed w token'" if "token' \<noteq> token"
    using that by (simp add: owed_total view)
qed

lemma wrapper_pay_ok:
  assumes "snd (wrapper_pay caller token to v w) = None"
  obtains im t w1 where
    "um_view (w_tokensAndBalances w) token = Some im"
    "v < getUserBalance w token caller"
    "w_contracts w token = Some (DErc20 t)"
    "snd (transfer (w_address w) to v t) = None"
    "um_view (w_tokensAndBalances w1) = (um_view (w_tokensAndBalances w))(token \<mapsto> im(caller \<mapsto> getUserBalance w token caller - v))"
    "w_address w1 = w_address w"
    "w_contracts w1 = (w_contracts w)(token \<mapsto> DErc20 (fst (transfer (w_address w) to v t)))"
    "fst (wrapper_pay caller token to v w) = w1"
proof -
  obtain m it where find: "um_find (w_tokensAndBalances w) token = (m, it)" by (cases "um_find (w_tokensAndBalances w) token")
  then have it: "it = um_view (w_tokensAndBalances w) token" and m: "um_view m = um_view (w_tokensAndBalances w)"
    using um_find_obs(1,2) [of "w_tokensAndBalances w" token] by simp_all
  obtain im b where im: "it = Some im" "im caller = Some b" and lt: "\<not> b \<le> v"
    using assms by (auto simp: wrapper_pay_def find Let_def split: option.splits if_splits)
  have vb: "v \<le> b" using lt by simp
  let ?w = "w\<lparr>w_tokensAndBalances := um_write m token (im(caller \<mapsto> b - v))\<rparr>"
  have gb: "getUserBalance w token caller = b"
    using im it by (simp add: getUserBalance_def um_find_const_def um_simps)
  have pay: "wrapper_pay caller token to v w = wrapper_call token (transfer (w_address w) to v) ?w"
    using vb by (simp add: wrapper_pay_def find im Let_def checked_sub_def lt)
  then have "snd (wrapper_call token (transfer (w_address w) to v) ?w) = None" using assms by simp
  then obtain t where t: "w_contracts w token = Some (DErc20 t)" "snd (transfer (w_address w) to v t) = None"
    "fst (wrapper_call token (transfer (w_address w) to v) ?w) =
      ?w\<lparr>w_contracts := (w_contracts w)(token \<mapsto> DErc20 (fst (transfer (w_address w) to v t)))\<rparr>"
    by (rule wrapper_call_ok) simp
  show thesis
    by (rule that [OF _ _ t(1,2) _ _ _ t(3) [folded pay]])
      (use it im gb lt m in \<open>simp_all add: um_simps not_le\<close>)
qed

lemma wrapper_inv_intro:
  assumes "wrapper_inv w" "w_address w' = w_address w"
    "w_contracts w' = (w_contracts w)(token \<mapsto> DErc20 t')"
    "um_view (w_tokensAndBalances w') = (um_view (w_tokensAndBalances w))(token \<mapsto> im)" "finite (dom im)"
    "erc.covers t' (w_address w) (owed w' token)" "\<And>token'. token' \<noteq> token \<Longrightarrow> owed w' token' = owed w token'"
  shows "wrapper_inv w'"
  using assms by (auto simp: wrapper_inv_def erc.covers_def split: if_splits)

lemma wrapper_pay_inv:
  assumes "wrapper_inv w" "snd (wrapper_pay caller token to v w) = None"
  shows "wrapper_inv (fst (wrapper_pay caller token to v w))"
    and "owed (fst (wrapper_pay caller token to v w)) token = owed w token - unat v"
proof -
  obtain im t w1 where w1: "um_view (w_tokensAndBalances w) token = Some im"
    "v < getUserBalance w token caller" "w_contracts w token = Some (DErc20 t)"
    "snd (transfer (w_address w) to v t) = None"
    "um_view (w_tokensAndBalances w1) = (um_view (w_tokensAndBalances w))(token \<mapsto> im(caller \<mapsto> getUserBalance w token caller - v))"
    "w_address w1 = w_address w"
    "w_contracts w1 = (w_contracts w)(token \<mapsto> DErc20 (fst (transfer (w_address w) to v t)))"
    "fst (wrapper_pay caller token to v w) = w1"
    using assms(2) by (rule wrapper_pay_ok)
  have fin: "finite (dom im)" using assms(1) w1(1) by (auto simp: wrapper_inv_def)
  note upd = owed_update [OF w1(5) _ fin]
  let ?b = "getUserBalance w token caller"
  have b: "unat (?b - v) = unat ?b - unat v" "unat v \<le> unat ?b"
    using w1(2) by (simp_all add: unat_sub word_le_nat_alt word_less_nat_alt)
  have "owed w1 token + unat ?b = owed w token + unat (?b - v)"
    using w1(1) fin by (intro upd(1)) simp_all
  then have owed1: "owed w1 token = owed w token - unat v" "unat v \<le> owed w token" using b by linarith+
  have "erc.covers t (w_address w) (owed w token)"
    using assms(1) w1(3) by (simp add: wrapper_inv_def erc.covers_def)
  then have "erc.covers (fst (transfer (w_address w) to v t)) (w_address w) (owed w1 token)"
    using erc.covers_pay [OF _ w1(4)] owed1 by simp
  then have "wrapper_inv w1"
    using fin w1(1) by (intro wrapper_inv_intro [OF assms(1) w1(6,7,5)] upd(2)) simp_all
  then show "wrapper_inv (fst (wrapper_pay caller token to v w))" by (simp add: w1(8))
  show "owed (fst (wrapper_pay caller token to v w)) token = owed w token - unat v" by (simp add: w1(8) owed1)
qed

lemma nested_add_view:
  assumes "snd (nested_add_assign m k i v) = None"
  defines "i0 \<equiv> case um_view m k of None \<Rightarrow> Map.empty | Some i \<Rightarrow> i"
  obtains im where "um_view (fst (nested_add_assign m k i v)) = (um_view m)(k \<mapsto> im(i \<mapsto> nested_bal m k i + v))"
    "\<And>j. plain.weight unat im j = plain.weight unat i0 j"
    "dom im \<subseteq> insert i (dom i0)"
    "unat (nested_bal m k i) + unat v < 2 ^ 256"
proof -
  obtain m' where idx: "um_index Map.empty m k = (m', i0)"
    using um_index_obs(1) [of Map.empty m k] by (cases "um_index Map.empty m k") (simp add: i0_def)
  then have m': "fst (um_index Map.empty m k) = m'" by simp
  then have view: "um_view m' = (um_view m)(k \<mapsto> i0)"
    using um_index_obs(2) [of Map.empty m k] by (cases "um_view m k") (auto simp: i0_def)
  have fits: "unat (nested_bal m k i) + unat v < 2 ^ 256"
    using assms(1) by (simp add: nested_add_assign_spec split: if_splits)
  define im where "im = (case i0 i of None \<Rightarrow> i0(i \<mapsto> 0) | Some _ \<Rightarrow> i0)"
  let ?n = "fst (nested_index m k i)"
  have ptr': "um_ptr m' k = Some i0" using idx by (auto simp: um_index_def Let_def um_simps)
  have n: "um_view ?n = (um_view m)(k \<mapsto> im)" "um_ptr ?n k = Some im"
    using view ptr' by (cases "i0 i"; simp add: nested_index_def idx im_def um_simps)+
  have "um_view (fst (nested_add_assign m k i v)) = (um_view m)(k \<mapsto> im(i \<mapsto> nested_bal m k i + v))"
    using fits n by (simp add: nested_add_assign_spec nested_write_def um_simps)
  moreover have "plain.weight unat im j = plain.weight unat i0 j" for j
    by (cases "i0 i") (simp_all add: im_def plain.weight_def)
  moreover have "dom im \<subseteq> insert i (dom i0)"
    by (cases "i0 i") (auto simp: im_def)
  ultimately show thesis using fits by (rule that)
qed

lemma deposit_inv:
  assumes "wrapper_inv w" "snd (deposit caller token v w) = None" "caller \<noteq> w_address w"
  shows "wrapper_inv (fst (deposit caller token v w))"
    and "owed (fst (deposit caller token v w)) token = owed w token + unat v"
proof -
  let ?self = "w_address w" and ?m = "w_tokensAndBalances w"
  let ?call = "wrapper_call token (transferFrom ?self caller ?self v) w"
  have "snd ?call = None" using assms(2) by (simp add: deposit_def res_simps)
  then obtain t where t: "w_contracts w token = Some (DErc20 t)" "snd (transferFrom ?self caller ?self v t) = None"
    "fst ?call = w\<lparr>w_contracts := (w_contracts w)(token \<mapsto> DErc20 (fst (transferFrom ?self caller ?self v t)))\<rparr>"
    by (rule wrapper_call_ok)
  let ?t' = "fst (transferFrom ?self caller ?self v t)" and ?add = "nested_add_assign ?m token caller v"
  have dep: "deposit caller token v w =
      (w\<lparr>w_contracts := (w_contracts w)(token \<mapsto> DErc20 ?t'), w_tokensAndBalances := fst ?add\<rparr>, snd ?add)"
    using \<open>snd ?call = None\<close> t(3) by (simp add: deposit_def fst_andThen_None split: prod.split)
  then have "snd ?add = None" using assms(2) by simp
  then obtain im where im: "um_view (fst ?add) = (um_view ?m)(token \<mapsto> im(caller \<mapsto> nested_bal ?m token caller + v))"
    "\<And>j. plain.weight unat im j = plain.weight unat (case um_view ?m token of None \<Rightarrow> Map.empty | Some i \<Rightarrow> i) j"
    "dom im \<subseteq> insert caller (dom (case um_view ?m token of None \<Rightarrow> Map.empty | Some i \<Rightarrow> i))"
    "unat (nested_bal ?m token caller) + unat v < 2 ^ 256"
    by (rule nested_add_view, intro that)
  let ?w' = "fst (deposit caller token v w)" and ?b = "getUserBalance w token caller"
  have b: "nested_bal ?m token caller = ?b"
    by (simp add: getUserBalance_def nested_bal_def um_find_const_def um_simps)
  have fin0: "\<And>i. um_view ?m token = Some i \<Longrightarrow> finite (dom i)" using assms(1) by (auto simp: wrapper_inv_def)
  have fin: "finite (dom im)"
    by (rule finite_subset [OF im(3)]) (use fin0 in \<open>auto split: option.split\<close>)
  have view: "um_view (w_tokensAndBalances ?w') = (um_view ?m)(token \<mapsto> im(caller \<mapsto> ?b + v))"
    using im(1) by (simp add: dep b)
  note upd = owed_update [OF view im(2) fin fin0]
  have "unat (?b + v) = unat ?b + unat v" using im(4) by (intro unat_add_no_wrap) (simp add: b)
  then show owed1: "owed ?w' token = owed w token + unat v" using upd(1) by linarith
  have "erc.covers t ?self (owed w token)"
    using assms(1) t(1) by (simp add: wrapper_inv_def erc.covers_def)
  then have "erc.covers ?t' ?self (owed ?w' token)"
    using erc.covers_receive [OF _ t(2) assms(3)] owed1 by simp
  then show "wrapper_inv ?w'"
    using fin by (intro wrapper_inv_intro [OF assms(1) _ _ view] upd(2)) (simp_all add: dep)
qed

section \<open>Properties\<close>

text \<open>
  C12. The ERC-20 wrapper stays solvent: for every token it lists it holds at least the sum of what it owes its
  users, and each operation keeps that, with the debt of the token changing by exactly the amount
  deposited or paid out. The depositor is not the wrapper itself.
\<close>

theorem wrapper_solvent:
  assumes "wrapper_inv w" "caller \<noteq> w_address w"
  shows "(if snd (deposit caller token v w) = None
          then wrapper_inv (fst (deposit caller token v w)) \<and>
               owed (fst (deposit caller token v w)) token = owed w token + unat v else True) \<and>
         (if snd (withdraw caller token v w) = None
          then wrapper_inv (fst (withdraw caller token v w)) \<and>
               owed (fst (withdraw caller token v w)) token = owed w token - unat v else True) \<and>
         (if snd (transferTo caller token to v w) = None
          then wrapper_inv (fst (transferTo caller token to v w)) \<and>
               owed (fst (transferTo caller token to v w)) token = owed w token - unat v else True)"
  using assms deposit_inv [of w caller token v] wrapper_pay_inv [of w caller token _ v]
  by (simp add: withdraw_def transferTo_def)

text \<open>The wrapper of the witnesses: it lists one token and owes nothing yet.\<close>

definition demo_wrapper :: wrapper where
  "demo_wrapper = \<lparr>w_address = [9], w_tokensAndBalances = um_new (Some 2) Map.empty,
     w_contracts = [[5] \<mapsto> DErc20 (fst (approve [1] [9] 500 (new_committed 7 1000 [1])))]\<rparr>"

lemma demo_wrapper_view: "um_view (w_tokensAndBalances demo_wrapper) = Map.empty"
  by (auto simp: demo_wrapper_def um_new_def um_view_def um_ptr_def um_erased_def fun_eq_iff)

lemma demo_wrapper_inv: "wrapper_inv demo_wrapper"
proof -
  have "erc20_inv (fst (approve [1] [9] 500 (new_committed 7 1000 [1])))"
    by (simp add: approve_effect new_committed_effect)
  then show ?thesis using demo_wrapper_view
    by (auto simp: wrapper_inv_def owed_def) (auto simp: demo_wrapper_def split: if_splits)
qed

lemma demo_deposit_ok: "snd (deposit [1] [5] 300 demo_wrapper) = None"
proof -
  let ?t = "fst (approve [1] [9] 500 (new_committed 7 1000 [1]))"
  have "erc20_inv ?t" by (simp add: approve_effect new_committed_effect)
  then have ok: "snd (transferFrom [9] [1] [9] 300 ?t) = None"
    by (simp add: transferFrom_ok_iff approve_effect new_committed_effect)
  have nb: "nested_bal (w_tokensAndBalances demo_wrapper) [5] [1] = 0"
    by (simp add: nested_bal_def demo_wrapper_view)
  have call: "wrapper_call [5] (transferFrom [9] [1] [9] 300) demo_wrapper =
      (demo_wrapper\<lparr>w_contracts := [[5] \<mapsto> DErc20 (fst (transferFrom [9] [1] [9] 300 ?t))]\<rparr>, None)"
    using ok by (simp add: wrapper_call_def callContractFunction_def getContract_def demo_wrapper_def case_prod_beta)
  have "w_address demo_wrapper = [9]" by (simp add: demo_wrapper_def)
  then show ?thesis
    using call nb by (simp add: deposit_def nested_add_assign_spec split: prod.split)
qed

theorem wrapper_solvent_witness:
  "owed (fst (deposit [1] [5] 300 demo_wrapper)) [5] = 300 \<and> wrapper_inv (fst (deposit [1] [5] 300 demo_wrapper))"
proof -
  have "owed demo_wrapper [5] = 0" by (simp add: owed_def demo_wrapper_view)
  moreover have "[1] \<noteq> w_address demo_wrapper" by (simp add: demo_wrapper_def)
  ultimately show ?thesis
    using wrapper_solvent [OF demo_wrapper_inv, of "[1]" "[5]" 300 "[1]"] demo_deposit_ok by simp
qed

text \<open>
  C28. In a solvent wrapper a user can withdraw any amount below the recorded balance, and only
  those: the payment by the token cannot fail, while withdrawing the whole balance is refused.
\<close>

theorem wrapper_withdraw_iff:
  assumes "wrapper_inv w" "w_contracts w token = Some (DErc20 t)"
  shows "snd (withdraw caller token v w) = None \<longleftrightarrow> v < getUserBalance w token caller"
proof
  assume "snd (withdraw caller token v w) = None"
  then show "v < getUserBalance w token caller" unfolding withdraw_def by (rule wrapper_pay_ok)
next
  assume lt: "v < getUserBalance w token caller"
  let ?m = "w_tokensAndBalances w"
  obtain im b where im: "um_view ?m token = Some im" "im caller = Some b" and b: "getUserBalance w token caller = b"
    using lt by (auto simp: getUserBalance_def um_find_const_def um_simps split: option.splits)
  have fin: "finite (dom im)" using assms(1) im(1) by (auto simp: wrapper_inv_def)
  have "unat b \<le> owed w token"
    using plain.weight_le_total [OF fin, of unat caller] im by (simp add: owed_total plain.weight_def)
  then have "unat v \<le> owed w token" using lt b by (simp add: word_less_nat_alt)
  moreover have "erc.covers t (w_address w) (owed w token)"
    using assms by (simp add: wrapper_inv_def erc.covers_def)
  ultimately have pay: "snd (transfer (w_address w) caller v t) = None" by (rule erc.pay_succeeds [rotated])
  obtain m it where find: "um_find ?m token = (m, it)" by (cases "um_find ?m token")
  then have it: "it = Some im" using um_find_obs(1) [of ?m token] im(1) by simp
  have le: "\<not> b \<le> v" "v \<le> b" using lt b by simp_all
  show "snd (withdraw caller token v w) = None"
    using pay assms(2) le
    by (simp add: withdraw_def wrapper_pay_def find it im Let_def checked_sub_def wrapper_call_def callContractFunction_def
        getContract_def case_prod_beta)
qed

theorem wrapper_withdraw_iff_witness:
  "let w = fst (deposit [1] [5] 300 demo_wrapper) in
   snd (withdraw [1] [5] 300 w) \<noteq> None \<and> (299 < getUserBalance w [5] [1] \<longleftrightarrow> snd (withdraw [1] [5] 299 w) = None)"
proof -
  let ?w = "fst (deposit [1] [5] 300 demo_wrapper)"
  have ne: "[1] \<noteq> w_address demo_wrapper" by (simp add: demo_wrapper_def)
  note inv = deposit_inv [OF demo_wrapper_inv demo_deposit_ok ne]
  obtain t where t: "w_contracts ?w [5] = Some (DErc20 t)"
    using demo_deposit_ok
    by (auto simp: deposit_def andThen_def wrapper_call_def callContractFunction_def getContract_def
        split: prod.splits option.splits dyn_contract.splits if_splits)
  have "unat (getUserBalance ?w [5] [1]) \<le> 300"
  proof (cases "um_view (w_tokensAndBalances ?w) [5]")
    case (Some im)
    then have "finite (dom im)" using inv(1) by (auto simp: wrapper_inv_def)
    from plain.weight_le_total [OF this, of unat "[1]"] show ?thesis
      using inv(2) Some
      by (simp add: owed_total demo_wrapper_view plain.weight_def getUserBalance_def um_find_const_def um_simps
          split: option.splits)
  qed (simp add: getUserBalance_def um_find_const_def um_simps)
  then have "\<not> 300 < getUserBalance ?w [5] [1]" by (simp add: word_less_nat_alt)
  then show ?thesis
    using wrapper_withdraw_iff [OF inv(1) t, of "[1]" 300] wrapper_withdraw_iff [OF inv(1) t, of "[1]" 299]
    by (simp add: Let_def)
qed

text \<open>
  A deposit into the native wrapper credits the caller with the native amount it received but does not count it
  in the total supply, so the wrapped balances and the supply drift apart by every deposit.
\<close>

theorem native_deposit_not_in_supply:
  assumes "unat (native_balanceOf n caller) + unat v < 2 ^ 256"
  shows "let r = native_deposit caller v n in
    snd r = None \<and> unat (native_balanceOf (fst r) caller) = unat (native_balanceOf n caller) + unat v \<and>
    native_totalSupply (fst r) = native_totalSupply n"
proof -
  have b: "native_balanceOf n' a = bal (e_balances (n_token n')) a" for n' a
    by (simp add: native_balanceOf_def bal_def um_find_const_def um_simps)
  then show ?thesis
    using assms
    by (simp add: Let_def native_deposit_def on_balances_def map_add_assign_spec native_totalSupply_def
        unat_add_no_wrap split: prod.split)
qed

theorem native_deposit_not_in_supply_witness:
  "let n = \<lparr>n_address = [9], n_token = new_committed 7 0 [9], n_mgr = demo_mgr\<rparr>; r = native_deposit [1] 25 n in
   unat (native_balanceOf (fst r) [1]) = 25 \<and> native_totalSupply (fst r) = 0"
proof -
  let ?n = "\<lparr>n_address = [9], n_token = new_committed 7 0 [9], n_mgr = demo_mgr\<rparr>"
  have "native_balanceOf ?n [1] = 0" "native_totalSupply ?n = 0"
    using new_committed_effect(3,4) [of 7 0 "[9]"]
    by (simp_all add: native_balanceOf_def balanceOf_def native_totalSupply_def totalSupply_def)
  then show ?thesis using native_deposit_not_in_supply [of ?n "[1]" 25] by (simp add: Let_def)
qed

end
