(* ===== verification/Hex.thy ===== *)
theory Hex
  imports Prelude "HOL-Library.Char_ord"
begin

text \<open>
  Hexadecimal strings (\<^verbatim>\<open>utils/hex.cpp\<close>). A \<^verbatim>\<open>Hex\<close> object is its string and its \<open>strict\<close> flag. Reading one past
  the end of a \<^verbatim>\<open>std::string\<close> gives the terminating zero, reading further (or past the end of a view) is undefined.
\<close>

unbundle bit_operations_syntax

section \<open>Definitions\<close>

record hex =
  h_hex :: string
  h_strict :: bool

definition str_at :: "string \<Rightarrow> nat \<Rightarrow> char res" where
  "str_at s i = (if i < length s then Inr (s ! i) else if i = length s then Inr (CHR 0x00) else Inl UndefinedBehaviour)"

definition filter_chars :: string where
  "filter_chars = ''0123456789abcdefABCDEF''"

definition Hex_isValid :: "string \<Rightarrow> bool \<Rightarrow> bool" where
  "Hex_isValid s strict =
     (if strict then (take 2 s = ''0x'' \<or> take 2 s = ''0X'') \<and> list_all (\<lambda>c. c \<in> set filter_chars) (drop 2 s)
      else list_all (\<lambda>c. c \<in> set filter_chars) s)"

text \<open>\<open>s[0] == '0' && (s[1] == 'x' || s[1] == 'X')\<close>\<close>

definition has_0x :: "(string \<Rightarrow> nat \<Rightarrow> char res) \<Rightarrow> string \<Rightarrow> bool res" where
  "has_0x read s =
     bindR (read s 0) (\<lambda>c0. if c0 = CHR ''0'' then bindR (read s 1) (\<lambda>c1. Inr (c1 = CHR ''x'' \<or> c1 = CHR ''X''))
       else Inr False)"

definition Hex_new :: "string \<Rightarrow> bool \<Rightarrow> hex res" where
  "Hex_new value strict =
     bindR (if strict
            then bindR (str_at value 0) (\<lambda>c0. if c0 \<noteq> CHR ''0''
                   then bindR (str_at value 1) (\<lambda>c1. Inr (if c1 \<noteq> CHR ''x'' \<or> c1 \<noteq> CHR ''X'' then ''0x'' @ value else value))
                   else Inr value)
            else bindR (has_0x str_at value) (\<lambda>b. Inr (if b then drop 2 value else value))) (\<lambda>ret.
     if \<not> Hex_isValid ret strict then Inl (RuntimeError ''Invalid Hex string at constructor'')
     else Inr \<lparr>h_hex = ret, h_strict = strict\<rparr>)"

definition hex_digits :: string where
  "hex_digits = ''0123456789abcdef''"

text \<open>The loop writes two digits per byte behind the offset.\<close>

fun fromBytes_loop :: "string \<Rightarrow> nat \<Rightarrow> bytes \<Rightarrow> string" where
  "fromBytes_loop s off [] = s"
| "fromBytes_loop s off (b # bs) =
     fromBytes_loop (s[off := hex_digits ! unat (drop_bit 4 b AND 15), off + 1 := hex_digits ! unat (b AND 15)]) (off + 2) bs"

definition Hex_fromBytes :: "bytes \<Rightarrow> bool \<Rightarrow> hex res" where
  "Hex_fromBytes bs strict =
     (let off = (if strict then 2 else 0);
          s = replicate (length bs * 2 + off) (CHR ''0'');
          s = ''0x'' @ drop 2 s
      in Hex_new (fromBytes_loop s off bs) strict)"

definition Hex_toInt :: "char \<Rightarrow> int" where
  "Hex_toInt c =
     (if CHR ''0'' \<le> c \<and> c \<le> CHR ''9'' then of_char c - of_char (CHR ''0'')
      else if CHR ''a'' \<le> c \<and> c \<le> CHR ''f'' then of_char c - of_char (CHR ''a'') + 10
      else if CHR ''A'' \<le> c \<and> c \<le> CHR ''F'' then of_char c - of_char (CHR ''A'') + 10
      else - 1)"

fun toBytes_loop :: "string \<Rightarrow> bytes res" where
  "toBytes_loop [] = Inr []"
| "toBytes_loop [c] = Inl UndefinedBehaviour"
| "toBytes_loop (c # d # s) = bindR (toBytes_loop s) (\<lambda>bs. Inr (of_int (Hex_toInt c * 16 + Hex_toInt d) # bs))"

definition Hex_toBytes :: "string \<Rightarrow> bytes res" where
  "Hex_toBytes s =
     bindR (has_0x at_idx s) (\<lambda>b.
     let i = (if b then 2 else 0) in
     if \<not> list_all (\<lambda>c. c \<in> set filter_chars) (drop i s) then Inl (RuntimeError ''toBytes: Invalid hex string'')
     else if length s mod 2 \<noteq> 0 then
       bindR (at_idx s i) (\<lambda>c. bindR (toBytes_loop (drop (i + 1) s)) (\<lambda>bs. Inr (of_int (Hex_toInt c) # bs)))
     else toBytes_loop (drop i s))"

definition Hex_bytes :: "hex \<Rightarrow> bytes res" where
  "Hex_bytes h =
     (let i = (if h_strict h then 2 else 0) in
      if length (h_hex h) mod 2 \<noteq> 0 then
        bindR (str_at (h_hex h) i) (\<lambda>c. bindR (toBytes_loop (drop (i + 1) (h_hex h))) (\<lambda>bs. Inr (of_int (Hex_toInt c) # bs)))
      else toBytes_loop (drop i (h_hex h)))"

text \<open>The loop erases the zero digits behind the prefix; at the end of the string it reads the terminator.\<close>

definition Hex_forRPC :: "hex \<Rightarrow> string res" where
  "Hex_forRPC h =
     bindR (str_at (h_hex h) 0) (\<lambda>c0.
     bindR (if c0 \<noteq> CHR ''0'' then bindR (str_at (h_hex h) 1) (\<lambda>c1. Inr (if c1 \<noteq> CHR ''x'' then ''0x'' @ h_hex h else h_hex h))
            else Inr (h_hex h)) (\<lambda>ret.
     if ret = ''0x'' then Inr ''0x0''
     else if length ret < 2 then Inl UndefinedBehaviour
     else Inr (take 2 ret @ dropWhile (\<lambda>c. c = CHR ''0'') (drop 2 ret))))"

section \<open>Lemmas\<close>

lemma nibble_cases: "n < 16 \<Longrightarrow> n \<in> {0, 1, 2, 3, 4, 5, 6, 7, 8, 9, 10, 11, 12, 13, 14, 15 :: nat}"
  by (simp; presburger)

lemma digit_props:
  assumes "n < 16"
  shows "Hex_toInt (hex_digits ! n) = int n" "hex_digits ! n \<in> set filter_chars" "hex_digits ! n \<noteq> CHR ''x''"
    "hex_digits ! n \<noteq> CHR ''X''"
  using nibble_cases [OF assms] by (auto simp: Hex_toInt_def hex_digits_def filter_chars_def less_eq_char_def)

definition two_digits :: "byte \<Rightarrow> string" where
  "two_digits b = [hex_digits ! unat (drop_bit 4 b AND 15), hex_digits ! unat (b AND 15)]"

lemma nibbles:
  "unat (drop_bit 4 b AND 15) = unat b div 16" "unat (b AND 15) = unat b mod 16" for b :: byte
proof -
  have "x AND 15 = take_bit 4 x" for x :: byte by (simp add: take_bit_eq_mask mask_eq_exp_minus_1)
  then show "unat (drop_bit 4 b AND 15) = unat b div 16" "unat (b AND 15) = unat b mod 16"
    using unat_bound [of b] by (simp_all add: unat_mod unat_div drop_bit_eq_div take_bit_eq_mod)
qed

lemma two_digits_eq: "two_digits b = [hex_digits ! (unat b div 16), hex_digits ! (unat b mod 16)]"
  unfolding two_digits_def by (subst nibbles(1), subst nibbles(2), rule refl)

lemma two_digits_props:
  "length (two_digits b) = 2" "set (two_digits b) \<subseteq> set filter_chars" "CHR ''x'' \<notin> set (two_digits b)"
  "CHR ''X'' \<notin> set (two_digits b)"
  "toBytes_loop (two_digits b @ s) = bindR (toBytes_loop s) (\<lambda>bs. Inr (b # bs))"
proof -
  have n: "unat b div 16 < 16" "unat b mod 16 < 16" using unat_bound [of b] by simp_all
  note d = digit_props [OF n(1)] digit_props [OF n(2)]
  have "int (unat b div 16) * 16 + int (unat b mod 16) = int (unat b)"
    using div_mult_mod_eq [of "unat b" 16] by linarith
  then have "(of_int (int (unat b div 16) * 16 + int (unat b mod 16)) :: byte) = b" by (simp only:) simp
  then show "toBytes_loop (two_digits b @ s) = bindR (toBytes_loop s) (\<lambda>bs. Inr (b # bs))"
    using d(1,5) by (simp add: two_digits_eq)
  show "length (two_digits b) = 2" "set (two_digits b) \<subseteq> set filter_chars" "CHR ''x'' \<notin> set (two_digits b)"
    "CHR ''X'' \<notin> set (two_digits b)" using d by (auto simp: two_digits_eq)
qed

lemma fromBytes_loop_spec:
  "length rest = 2 * length bs \<Longrightarrow> fromBytes_loop (pre @ rest) (length pre) bs = pre @ concat (map two_digits bs)"
proof (induction bs arbitrary: pre rest)
  case (Cons b bs)
  then obtain x y rest' where rest: "rest = x # y # rest'" "length rest' = 2 * length bs"
    by (cases rest; cases "tl rest") auto
  have "fromBytes_loop (pre @ rest) (length pre) (b # bs) =
      fromBytes_loop ((pre @ two_digits b) @ rest') (length (pre @ two_digits b)) bs"
    by (simp add: rest two_digits_def list_update_append)
  also have "\<dots> = (pre @ two_digits b) @ concat (map two_digits bs)" by (rule Cons.IH [OF rest(2)])
  finally show ?case by simp
qed simp

lemma toBytes_digits: "toBytes_loop (concat (map two_digits bs)) = Inr bs"
  by (induction bs) (simp_all add: two_digits_props(5))

lemma digits_props:
  fixes bs :: bytes
  defines "s \<equiv> concat (map two_digits bs)"
  shows "set s \<subseteq> set filter_chars" "CHR ''x'' \<notin> set s" "CHR ''X'' \<notin> set s" "length s = 2 * length bs"
  using two_digits_props(1-4) by (auto simp: s_def length_concat comp_def sum_list_triv)

text \<open>The string that \<open>fromBytes\<close> builds, before the constructor looks at it.\<close>

lemma fromBytes_string:
  assumes "bs \<noteq> [] \<or> strict"
  shows "fromBytes_loop (''0x'' @ drop 2 (replicate (length bs * 2 + (if strict then 2 else 0)) (CHR ''0'')))
     (if strict then 2 else 0) bs = (if strict then ''0x'' else []) @ concat (map two_digits bs)"
proof (cases strict)
  case True
  then show ?thesis
    using fromBytes_loop_spec [of "replicate (length bs * 2) (CHR ''0'')" bs "''0x''"]
    by (simp add: mult.commute numeral_2_eq_2)
next
  case False
  then show ?thesis
    using assms fromBytes_loop_spec [of "''0x'' @ replicate (length bs * 2 - 2) (CHR ''0'')" bs "[]"]
    by (cases bs) (auto simp: mult.commute)
qed

lemma list_all_filter: "set s \<subseteq> set filter_chars \<Longrightarrow> list_all (\<lambda>c. c \<in> set filter_chars) s"
  by (auto simp: list_all_iff)

lemma has_0x_digits:
  assumes "s \<noteq> []" "CHR ''x'' \<notin> set s" "CHR ''X'' \<notin> set s" "2 \<le> length s"
  shows "has_0x str_at s = Inr False" "has_0x at_idx s = Inr False"
proof -
  have "s ! 1 \<in> set s" using assms(4) by simp
  then have "s ! 1 \<noteq> CHR ''x''" "s ! 1 \<noteq> CHR ''X''" using assms(2,3) by auto
  then show "has_0x str_at s = Inr False" "has_0x at_idx s = Inr False"
    using assms(1,4) by (auto simp: has_0x_def str_at_def at_idx_def)
qed

lemma Hex_fromBytes_ok:
  assumes "bs \<noteq> [] \<or> strict"
  shows "Hex_fromBytes bs strict =
    Inr \<lparr>h_hex = (if strict then ''0x'' else []) @ concat (map two_digits bs), h_strict = strict\<rparr>"
proof -
  let ?d = "concat (map two_digits bs)"
  note d = digits_props [of bs]
  have "Hex_fromBytes bs strict = Hex_new ((if strict then ''0x'' else []) @ ?d) strict"
    using fromBytes_string [OF assms] by (simp add: Hex_fromBytes_def Let_def)
  also have "\<dots> = Inr \<lparr>h_hex = (if strict then ''0x'' else []) @ ?d, h_strict = strict\<rparr>"
  proof (cases strict)
    case True
    then show ?thesis using list_all_filter [OF d(1)] by (simp add: Hex_new_def str_at_def Hex_isValid_def)
  next
    case False
    then have "0 < length bs" using assms by simp
    then have len: "2 \<le> length ?d" using d(4) by linarith
    then have "?d \<noteq> []" by (metis list.size(3) not_numeral_le_zero)
    then show ?thesis
      using False has_0x_digits(1) [OF _ d(2,3) len] list_all_filter [OF d(1)] by (simp add: Hex_new_def Hex_isValid_def)
  qed
  finally show ?thesis .
qed

section \<open>Properties\<close>

text \<open>
  The hexadecimal form of a byte string, with or without the prefix, converts back to exactly
  those bytes, by the static conversion and by the object's own; the empty string without a prefix is the one
  form that the static conversion cannot read.
\<close>

theorem Hex_roundtrip:
  "\<exists>h. Hex_fromBytes bs strict = Inr h \<and> Hex_bytes h = Inr bs \<and>
     Hex_toBytes (h_hex h) = (if bs = [] \<and> \<not> strict then Inl UndefinedBehaviour else Inr bs)"
proof (cases "bs = [] \<and> \<not> strict")
  case True
  then show ?thesis
    by (simp add: Hex_fromBytes_def Hex_new_def has_0x_def str_at_def Hex_isValid_def Hex_bytes_def Hex_toBytes_def at_idx_def)
next
  case False
  then have ne: "bs \<noteq> [] \<or> strict" by simp
  let ?d = "concat (map two_digits bs)"
  let ?h = "\<lparr>h_hex = (if strict then ''0x'' else []) @ ?d, h_strict = strict\<rparr>"
  note d = digits_props [of bs]
  have bytes: "Hex_bytes ?h = Inr bs" using d(4) by (simp add: Hex_bytes_def toBytes_digits)
  have "Hex_toBytes (h_hex ?h) = Inr bs"
  proof (cases strict)
    case True
    then show ?thesis
      using list_all_filter [OF d(1)] d(4) by (simp add: Hex_toBytes_def has_0x_def at_idx_def toBytes_digits)
  next
    case False
    then have "0 < length bs" using ne by simp
    then have len: "2 \<le> length ?d" using d(4) by linarith
    then have "?d \<noteq> []" by (metis list.size(3) not_numeral_le_zero)
    then show ?thesis
      using False has_0x_digits(2) [OF _ d(2,3) len] d(4) list_all_filter [OF d(1)] by (simp add: Hex_toBytes_def toBytes_digits)
  qed
  then show ?thesis unfolding if_not_P [OF False] using Hex_fromBytes_ok [OF ne] bytes by blast
qed

text \<open>
  Two irregular results: a strict \<^verbatim>\<open>Hex\<close> of a string that starts with the digit 0 but has no prefix is
  refused instead of prefixed, and the RPC form of a number that is all zeros is the bare prefix.
\<close>

lemma Hex_strict_leading_zero_refused:
  "d \<noteq> CHR ''x'' \<Longrightarrow> d \<noteq> CHR ''X'' \<Longrightarrow>
     Hex_new (CHR ''0'' # d # s) True = Inl (RuntimeError ''Invalid Hex string at constructor'')"
  by (simp add: Hex_new_def str_at_def Hex_isValid_def)

lemma Hex_forRPC_zero:
  "Hex_forRPC \<lparr>h_hex = ''0x'' @ replicate (Suc n) (CHR ''0''), h_strict = True\<rparr> = Inr ''0x''"
  by (simp add: str_at_def Hex_forRPC_def)

end
