(* ===== verification/Ecdsa.thy ===== *)
theory Ecdsa
  imports Utils
begin

text \<open>
  Signatures (\<^verbatim>\<open>utils/ecdsa.cpp\<close>). The calls into libsecp256k1 and the Keccak hash are the fields of a record
  \<open>crypto\<close>, the parameter of everything that signs, recovers or hashes: \<open>ext_recover\<close> parses a compact signature and
  recovers the uncompressed key, \<open>ext_pubkey\<close> creates the key of a private key, \<open>ext_sign\<close> signs and serializes
  to 64 bytes and a recovery id.
\<close>

section \<open>Definitions\<close>

type_synonym Signature = bytes
type_synonym UPubKey = bytes
type_synonym PrivKey = bytes

record crypto =
  sha3 :: "bytes \<Rightarrow> Hash"
  ext_recover :: "Signature \<Rightarrow> uint8 \<Rightarrow> Hash \<Rightarrow> UPubKey option"
  ext_pubkey :: "PrivKey \<Rightarrow> UPubKey option"
  ext_sign :: "Hash \<Rightarrow> PrivKey \<Rightarrow> (bytes \<times> uint8) option"

definition ecConst :: uint256 where
  "ecConst = 115792089237316195423570985008687907852837564279074904382605163141518161494337"

definition no_UPubKey :: UPubKey where
  "no_UPubKey = replicate 65 0"

definition no_Signature :: Signature where
  "no_Signature = replicate 65 0"

definition recover :: "crypto \<Rightarrow> Signature \<Rightarrow> Hash \<Rightarrow> UPubKey" where
  "recover cr sig msg =
     (let v = sig ! 64 in
      if v > 3 then no_UPubKey
      else case ext_recover cr sig v msg of None \<Rightarrow> no_UPubKey | Some key \<Rightarrow> key)"

text \<open>The two copy loops write a 32-byte big-endian number into the halves of the array.\<close>

definition makeSig :: "uint256 \<Rightarrow> uint256 \<Rightarrow> uint8 \<Rightarrow> Signature" where
  "makeSig r s v =
     (let sig = replicate 65 0;
          tmpR = uint256ToBytes r;
          sig = foldl (\<lambda>a i. a[31 - i := tmpR ! (length tmpR - i - 1)]) sig [0..<length tmpR];
          tmpS = uint256ToBytes s;
          sig = foldl (\<lambda>a i. a[63 - i := tmpS ! (length tmpS - i - 1)]) sig [0..<length tmpS]
      in sig[64 := v])"

definition verifySig :: "uint256 \<Rightarrow> uint256 \<Rightarrow> uint8 \<Rightarrow> bool" where
  "verifySig r s v \<longleftrightarrow> v \<le> 1 \<and> r > 0 \<and> s > 0 \<and> r < ecConst \<and> s < ecConst"

definition toUPub :: "crypto \<Rightarrow> PrivKey \<Rightarrow> UPubKey" where
  "toUPub cr key = (case ext_pubkey cr key of None \<Rightarrow> no_UPubKey | Some k \<Rightarrow> k)"

definition toAddress :: "crypto \<Rightarrow> UPubKey \<Rightarrow> Address" where
  "toAddress cr key = drop 12 (sha3 cr (take 64 (drop 1 key)))"

definition sign :: "crypto \<Rightarrow> Hash \<Rightarrow> PrivKey \<Rightarrow> Signature res" where
  "sign cr msg key =
     (case ext_sign cr msg key of
        None \<Rightarrow> Inr no_Signature
      | Some (sig, v) \<Rightarrow>
          bindR (subspan sig 0 32) (\<lambda>rb. bindR (bytesToUint256 rb) (\<lambda>r.
          bindR (subspan sig 32 32) (\<lambda>sb. bindR (bytesToUint256 sb) (\<lambda>s.
          bindR (if s > ecConst div 2
                 then bindR (checked_sub ecConst s) (\<lambda>s'. Inr (s', v XOR 1))
                 else Inr (s, v)) (\<lambda>(s', v').
          Inr (makeSig r s' v')))))))"

section \<open>Lemmas\<close>

lemma write_back_loop:
  assumes "k \<le> length tmp" "p < length a" "k \<le> Suc p"
  shows "foldl (\<lambda>a i. a[p - i := tmp ! (length tmp - i - 1)]) a [0..<k] =
    take (Suc p - k) a @ drop (length tmp - k) tmp @ drop (Suc p) a"
  using assms(1,3)
proof (induction k)
  case 0
  then show ?case by simp
next
  case (Suc k)
  let ?m = "length tmp - Suc k"
  have IH: "foldl (\<lambda>a i. a[p - i := tmp ! (length tmp - i - 1)]) a [0..<k] =
      take (Suc p - k) a @ drop (length tmp - k) tmp @ drop (Suc p) a"
    using Suc by simp
  have split: "take (Suc p - k) a = take (p - k) a @ [a ! (p - k)]"
    using Suc.prems assms(2) by (simp add: Suc_diff_le take_Suc_conv_app_nth)
  have "drop ?m tmp = tmp ! ?m # drop (length tmp - k) tmp"
    using Suc.prems by (subst Cons_nth_drop_Suc [symmetric]) (simp_all add: Suc_diff_Suc)
  moreover have "length tmp - k - 1 = ?m" "length (take (p - k) a) = p - k" using assms(2) by auto
  ultimately show ?case using IH split by (simp add: list_update_append)
qed

lemma makeSig_eq: "makeSig r s v = uint256ToBytes r @ uint256ToBytes s @ [v]"
proof -
  have len: "length (uint256ToBytes x) = 32" for x by (simp add: c256.enc_length)
  have r: "foldl (\<lambda>a i. a[31 - i := uint256ToBytes r ! (31 - i)]) (replicate 65 0) [0..<32] =
      uint256ToBytes r @ replicate 33 0"
    using write_back_loop [of 32 "uint256ToBytes r" 31 "replicate 65 0"] by (simp add: len)
  have s: "foldl (\<lambda>a i. a[63 - i := uint256ToBytes s ! (31 - i)]) (uint256ToBytes r @ replicate 33 0) [0..<32] =
      uint256ToBytes r @ uint256ToBytes s @ [0]"
    using write_back_loop [of 32 "uint256ToBytes s" 63 "uint256ToBytes r @ replicate 33 0"]
    by (simp add: len numeral_eq_Suc)
  show ?thesis by (simp add: makeSig_def Let_def len r s list_update_append)
qed

lemma makeSig_parts:
  "subspan (makeSig r s v) 0 32 = Inr (uint256ToBytes r)" "subspan (makeSig r s v) 32 32 = Inr (uint256ToBytes s)"
  "makeSig r s v ! 64 = v" "length (makeSig r s v) = 65"
  by (simp_all add: makeSig_eq subspan_def c256.enc_length nth_append)

lemma ecConst_odd_half: "unat (ecConst div 2) * 2 + 1 = unat ecConst" "unat ecConst < 2 ^ 256"
  by (simp_all add: ecConst_def unat_div)

section \<open>Properties\<close>

text \<open>
  Signatures are canonical: from a signature of the library with both halves in the group order and
  recovery id 0 or 1, \<open>sign\<close> builds one that \<open>verifySig\<close> accepts and whose \<open>s\<close> is in the lower half of the
  order, keeping \<open>s\<close> or replacing it by its negation together with the other recovery id.
\<close>

theorem sign_canonical:
  assumes ext: "ext_sign cr msg key = Some (uint256ToBytes r @ uint256ToBytes s, v)"
    and range: "0 < r" "r < ecConst" "0 < s" "s < ecConst" "v \<le> 1"
  shows "\<exists>s' v'. sign cr msg key = Inr (makeSig r s' v') \<and> verifySig r s' v' \<and> s' \<le> ecConst div 2 \<and>
    (if s \<le> ecConst div 2 then s' = s \<and> v' = v else unat s' + unat s = unat ecConst \<and> unat v' = 1 - unat v)"
proof -
  have sub: "subspan (uint256ToBytes r @ uint256ToBytes s) 0 32 = Inr (uint256ToBytes r)"
    "subspan (uint256ToBytes r @ uint256ToBytes s) 32 32 = Inr (uint256ToBytes s)"
    by (simp_all add: subspan_def c256.enc_length)
  show ?thesis
  proof (cases "s \<le> ecConst div 2")
    case True
    then show ?thesis
      using range by (intro exI [of _ s] exI [of _ v]) (auto simp: sign_def ext sub c256.dec_enc verifySig_def)
  next
    case False
    have "v = 0 \<or> v = 1" using range(5) by (simp add: word_le_nat_alt word_unat_eq_iff) linarith
    then have v: "v XOR 1 \<le> 1" "unat (v XOR 1) = 1 - unat v" by auto
    have u: "unat (ecConst - s) = unat ecConst - unat s" using range(4) by (simp add: unat_sub)
    have "unat s < unat ecConst" "unat (ecConst div 2) < unat s"
      using range(4) False by (simp_all add: word_less_nat_alt word_le_nat_alt)
    then have "0 < ecConst - s" "ecConst - s < ecConst" "ecConst - s \<le> ecConst div 2"
      "unat (ecConst - s) + unat s = unat ecConst"
      using ecConst_odd_half u by (simp_all add: word_less_nat_alt word_le_nat_alt)
    then show ?thesis
      using range False v by (intro exI [of _ "ecConst - s"] exI [of _ "v XOR 1"])
        (auto simp: sign_def ext sub c256.dec_enc verifySig_def checked_sub_def not_le less_imp_le)
  qed
qed

definition demo_crypto :: crypto where
  "demo_crypto = \<lparr>sha3 = (\<lambda>bs. replicate 32 (of_nat (length bs))), ext_recover = (\<lambda>sig v msg. Some (4 # replicate 64 7)),
     ext_pubkey = (\<lambda>key. Some (4 # replicate 64 7)),
     ext_sign = (\<lambda>msg key. Some (uint256ToBytes 5 @ uint256ToBytes (ecConst - 1), 0))\<rparr>"

theorem sign_canonical_witness:
  "\<exists>s' v'. sign demo_crypto [] [] = Inr (makeSig 5 s' v') \<and> verifySig 5 s' v' \<and> unat s' = 1 \<and> v' = 1"
proof -
  have r: "(0::uint256) < 5" "(5::uint256) < ecConst" "0 < ecConst - 1" "ecConst - 1 < ecConst" "(0::uint8) \<le> 1"
    by (simp_all add: ecConst_def)
  have "ext_sign demo_crypto [] [] = Some (uint256ToBytes 5 @ uint256ToBytes (ecConst - 1), 0)"
    by (simp add: demo_crypto_def)
  from sign_canonical [OF this r] obtain s' v' where s: "sign demo_crypto [] [] = Inr (makeSig 5 s' v')" "verifySig 5 s' v'"
    "unat s' + unat (ecConst - 1) = unat ecConst \<and> unat v' = 1 - unat (0::uint8)"
    by (auto simp: ecConst_def)
  then have "unat s' = 1" "v' = 1" by (simp_all add: ecConst_def word_unat_eq_iff)
  then show ?thesis using s by blast
qed

end
