(* ===== verification/Strings.thy ===== *)
theory Strings
  imports Hex Ecdsa
begin

text \<open>
  Fixed-size byte strings (\<^verbatim>\<open>utils/strings.h\<close>, \<^verbatim>\<open>utils/strings.cpp\<close>): the order of hashes and addresses, views of
  their bytes, the parts of a signature, and addresses as text with their mixed-case checksum.
\<close>

section \<open>FixedBytes\<close>

text \<open>\<^verbatim>\<open>std::array\<close> is compared lexicographically.\<close>

fun addr_less :: "bytes \<Rightarrow> bytes \<Rightarrow> bool" where
  "addr_less [] ys = (ys \<noteq> [])"
| "addr_less (x # xs) [] = False"
| "addr_less (x # xs) (y # ys) = (if x < y then True else if y < x then False else addr_less xs ys)"

definition fb_min :: "bytes \<Rightarrow> bytes \<Rightarrow> bytes" where
  "fb_min a b = (if addr_less b a then b else a)"

definition fb_max :: "bytes \<Rightarrow> bytes \<Rightarrow> bytes" where
  "fb_max a b = (if addr_less a b then b else a)"

definition fb_nonzero :: "bytes \<Rightarrow> bool" where
  "fb_nonzero a \<longleftrightarrow> list_ex (\<lambda>b. b \<noteq> 0) a"

definition view_const :: "bytes \<Rightarrow> uint64 \<Rightarrow> uint64 \<Rightarrow> bytes res" where
  "view_const data pos len =
     (let N = of_nat (length data); real_len = min len (N - pos) in
      if pos + real_len > N then Inl (OutOfRange ''len > N'') else subspan data (unat pos) (unat real_len))"

definition toUint256 :: "Hash \<Rightarrow> uint256 res" where
  "toUint256 h = bytesToUint256 h"

definition sig_r :: "Signature \<Rightarrow> uint256 res" where
  "sig_r sig = bindR (view_const sig 0 32) bytesToUint256"

definition sig_s :: "Signature \<Rightarrow> uint256 res" where
  "sig_s sig = bindR (view_const sig 32 32) bytesToUint256"

definition sig_v :: "Signature \<Rightarrow> uint8 res" where
  "sig_v sig = bindR (view_const sig 64 1) bytesToUint8"

section \<open>Addresses as text\<close>

definition Address_isValid :: "string \<Rightarrow> bool \<Rightarrow> bool res" where
  "Address_isValid add inBytes =
     (if inBytes then Inr (length add = 20)
      else bindR (has_0x at_idx add) (\<lambda>p.
        Inr (if p then length add = 42 \<and> list_all (\<lambda>c. c \<in> set filter_chars) (drop 2 add)
             else length add = 40 \<and> list_all (\<lambda>c. c \<in> set filter_chars) add)))"

definition Address_new :: "string \<Rightarrow> bool \<Rightarrow> Address res" where
  "Address_new add inBytes =
     (if inBytes then
        (if length add \<noteq> 20 then Inl (InvalidArgument ''Address must be 20 bytes long.'')
         else Inr (map of_char add))
      else bindR (Address_isValid add False) (\<lambda>valid.
        if \<not> valid then Inl (InvalidArgument ''Invalid Hex address.'') else Hex_toBytes add))"

definition is_digit :: "char \<Rightarrow> bool" where
  "is_digit c \<longleftrightarrow> CHR ''0'' \<le> c \<and> c \<le> CHR ''9''"

definition to_upper :: "char \<Rightarrow> char" where
  "to_upper c = (if CHR ''a'' \<le> c \<and> c \<le> CHR ''z'' then char_of ((of_char c :: nat) - 32) else c)"

definition to_lower :: "char \<Rightarrow> char" where
  "to_lower c = (if CHR ''A'' \<le> c \<and> c \<le> CHR ''Z'' then char_of ((of_char c :: nat) + 32) else c)"

text \<open>The loop over the characters; \<open>hash.substr(i, 1)\<close> throws behind the end of the hash.\<close>

fun chksum_loop :: "string \<Rightarrow> nat \<Rightarrow> string \<Rightarrow> string res" where
  "chksum_loop hash i [] = Inr []"
| "chksum_loop hash i (c # s) =
     bindR (if is_digit c then Inr c
            else if i > length hash then Inl (OutOfRange (''substr''))
            else if i = length hash then Inl (InvalidArgument (''stoi''))
            else Inr (if Hex_toInt (hash ! i) \<ge> 8 then to_upper c else to_lower c)) (\<lambda>c'.
     bindR (chksum_loop hash (i + 1) s) (\<lambda>s'. Inr (c' # s')))"

definition toChksum :: "crypto \<Rightarrow> Address \<Rightarrow> hex res" where
  "toChksum cr a =
     bindR (Hex_fromBytes a False) (\<lambda>h.
     bindR (Hex_fromBytes (sha3 cr (map of_char (h_hex h))) False) (\<lambda>hash.
     bindR (chksum_loop (h_hex hash) 0 (h_hex h)) (\<lambda>s.
     Hex_new (''0x'' @ s) True)))"

definition isChksum :: "crypto \<Rightarrow> string \<Rightarrow> bool res" where
  "isChksum cr add = bindR (Address_new add False) (\<lambda>a. bindR (toChksum cr a) (\<lambda>h. Inr (add = h_hex h)))"

section \<open>Lemmas\<close>

lemma addr_less_Nil2 [simp]: "\<not> addr_less xs []"
  by (cases xs) simp_all

lemma addr_less_antisym: "addr_less a b \<Longrightarrow> \<not> addr_less b a"
  by (induction a b rule: addr_less.induct) (auto split: if_splits)

lemma addr_less_total: "length a = length b \<Longrightarrow> a \<noteq> b \<Longrightarrow> addr_less a b \<or> addr_less b a"
  by (induction a b rule: addr_less.induct) (auto split: if_splits)

text \<open>Sorting two hashes of one length does not depend on their order.\<close>

lemma fb_sort_commute:
  assumes "length a = length b"
  shows "fb_min a b = fb_min b a" "fb_max a b = fb_max b a"
  using addr_less_total [OF assms] addr_less_antisym [of a b] addr_less_antisym [of b a]
  by (cases "a = b"; auto simp: fb_min_def fb_max_def)+

lemma sig_parts:
  "sig_r (makeSig r s v) = Inr r" "sig_s (makeSig r s v) = Inr s" "sig_v (makeSig r s v) = Inr v"
proof -
  have "subspan (makeSig r s v) 64 1 = Inr [v]"
    by (simp add: makeSig_eq subspan_def c256.enc_length)
  then show "sig_r (makeSig r s v) = Inr r" "sig_s (makeSig r s v) = Inr s" "sig_v (makeSig r s v) = Inr v"
    by (simp_all add: sig_r_def sig_s_def sig_v_def view_const_def makeSig_parts c256.dec_enc bytesToUint8_def)
qed

text \<open>Changing the case of a digit changes neither its value nor that it is a digit.\<close>

lemma case_props_all:
  "list_all (\<lambda>c. Hex_toInt (to_upper c) = Hex_toInt c \<and> Hex_toInt (to_lower c) = Hex_toInt c \<and>
     to_upper c \<in> set filter_chars \<and> to_lower c \<in> set filter_chars) hex_digits"
  by code_simp

lemma hex_digits_length: "length hex_digits = 16"
  by (simp add: hex_digits_def)

lemma case_props:
  assumes "n < 16"
  shows "Hex_toInt (to_upper (hex_digits ! n)) = Hex_toInt (hex_digits ! n)"
    "Hex_toInt (to_lower (hex_digits ! n)) = Hex_toInt (hex_digits ! n)"
    "to_upper (hex_digits ! n) \<in> set filter_chars" "to_lower (hex_digits ! n) \<in> set filter_chars"
  using case_props_all assms hex_digits_length by (auto simp only: list_all_length)

lemma digits_are_digits: "c \<in> set (concat (map two_digits bs)) \<Longrightarrow> \<exists>n<16. c = hex_digits ! n"
proof -
  assume "c \<in> set (concat (map two_digits bs))"
  then obtain b :: byte where "c = hex_digits ! (unat b div 16) \<or> c = hex_digits ! (unat b mod 16)"
    by (auto simp: two_digits_eq)
  moreover have "unat b div 16 < 16" using unat_bound [of b] by simp
  moreover have "unat b mod 16 < 16" by simp
  ultimately show "\<exists>n<16. c = hex_digits ! n" by blast
qed

lemma chksum_loop_ok:
  assumes "\<forall>c\<in>set s. \<exists>n<16. c = hex_digits ! n" "i + length s \<le> length hash"
  shows "\<exists>s'. chksum_loop hash i s = Inr s' \<and> length s' = length s \<and> set s' \<subseteq> set filter_chars \<and>
    map Hex_toInt s' = map Hex_toInt s"
  using assms
proof (induction s arbitrary: i)
  case (Cons c s)
  obtain s' where s': "chksum_loop hash (i + 1) s = Inr s'" "length s' = length s" "set s' \<subseteq> set filter_chars"
    "map Hex_toInt s' = map Hex_toInt s"
    using Cons.IH [of "i + 1"] Cons.prems by auto
  obtain n where n: "n < 16" "c = hex_digits ! n" using Cons.prems(1) by auto
  show ?case
    using s' Cons.prems(2) case_props [OF n(1)] digit_props(2) [OF n(1)] by (auto simp: n(2))
qed simp

lemma toBytes_loop_cong: "map Hex_toInt s = map Hex_toInt s' \<Longrightarrow> toBytes_loop s = toBytes_loop s'"
proof (induction s arbitrary: s' rule: toBytes_loop.induct)
  case (2 c)
  then show ?case by auto
next
  case (3 c d s)
  then obtain c' d' t where "s' = c' # d' # t" by auto
  with 3 show ?case by auto
qed simp

text \<open>The text of an address, and that \<open>Address\<close> reads it back.\<close>

lemma toChksum_ok:
  assumes "length a = 20" "\<And>x. length (sha3 cr x) = 32"
  shows "\<exists>s. toChksum cr a = Inr \<lparr>h_hex = ''0x'' @ s, h_strict = True\<rparr> \<and> Address_new (''0x'' @ s) False = Inr a"
proof -
  let ?d = "concat (map two_digits a)"
  define hash where "hash = concat (map two_digits (sha3 cr (map of_char ?d)))"
  have ne: "a \<noteq> []" "sha3 cr (map of_char ?d) \<noteq> []" using assms(1) assms(2) [of "map of_char ?d"] by auto
  have len: "length ?d = 40" "length hash = 64" by (simp_all only: hash_def digits_props(4) assms)
  obtain s where s: "chksum_loop hash 0 ?d = Inr s" "length s = 40" "set s \<subseteq> set filter_chars"
    "map Hex_toInt s = map Hex_toInt ?d"
    using chksum_loop_ok [of ?d 0 hash] digits_are_digits len by force
  have "toBytes_loop s = Inr a" using toBytes_loop_cong [OF s(4)] toBytes_digits by simp
  moreover have "toChksum cr a = Inr \<lparr>h_hex = ''0x'' @ s, h_strict = True\<rparr>"
    using s(1) list_all_filter [OF s(3)] ne
    by (simp add: toChksum_def Hex_fromBytes_ok hash_def Hex_new_def str_at_def Hex_isValid_def)
  ultimately show ?thesis
    using s(2) list_all_filter [OF s(3)]
    by (simp add: Address_new_def Address_isValid_def has_0x_def at_idx_def Hex_toBytes_def)
qed

section \<open>Properties\<close>

text \<open>
  The checksummed text of every address is read back as that address, and is recognised as checksummed, for every
  hash function with 32-byte results.
\<close>

theorem toChksum_roundtrip:
  assumes "length a = 20" "\<And>x. length (sha3 cr x) = 32"
  shows "\<exists>h. toChksum cr a = Inr h \<and> Address_new (h_hex h) False = Inr a \<and> isChksum cr (h_hex h) = Inr True"
  using toChksum_ok [OF assms] by (auto simp: isChksum_def)

theorem toChksum_roundtrip_witness:
  "\<exists>h. toChksum demo_crypto (replicate 20 0xab) = Inr h \<and> Address_new (h_hex h) False = Inr (replicate 20 0xab) \<and>
     isChksum demo_crypto (h_hex h) = Inr True"
  by (rule toChksum_roundtrip) (simp_all add: demo_crypto_def)

end
