(* ===== verification/Dex.thy ===== *)
theory Dex
  imports Strings
begin

text \<open>
  The arithmetic of the exchange: \<^verbatim>\<open>contract/dexv2/dexv2library.cpp\<close> and \<^verbatim>\<open>uq112x112.h\<close>. Every operator is
  one of the checked integer types, so a result is exact or the call throws.
\<close>

section \<open>Definitions\<close>

definition zero_address :: Address where
  "zero_address = replicate 20 0"

definition sortTokens :: "Address \<Rightarrow> Address \<Rightarrow> (Address \<times> Address) res" where
  "sortTokens tokenA tokenB =
     (if tokenA = tokenB then Inl (RuntimeError ''DEXV2Library: IDENTICAL_ADDRESSES'')
      else let ret = (if addr_less tokenA tokenB then (tokenA, tokenB) else (tokenB, tokenA)) in
        if fst ret = zero_address then Inl (RuntimeError ''DEXV2Library: ZERO_ADDRESS'') else Inr ret)"

definition quote :: "uint256 \<Rightarrow> uint256 \<Rightarrow> uint256 \<Rightarrow> uint256 res" where
  "quote amountA reserveA reserveB =
     (if amountA = 0 then Inl (RuntimeError ''DEXV2Library: INSUFFICIENT_AMOUNT'')
      else if reserveA = 0 \<or> reserveB = 0 then Inl (RuntimeError ''DEXV2Library: INSUFFICIENT_LIQUIDITY'')
      else bindR (checked_mult amountA reserveB) (\<lambda>p. checked_div p reserveA))"

definition getAmountOut :: "uint256 \<Rightarrow> uint256 \<Rightarrow> uint256 \<Rightarrow> uint256 res" where
  "getAmountOut amountIn reserveIn reserveOut =
     (if amountIn = 0 then Inl (RuntimeError ''DEXV2Library: INSUFFICIENT_INPUT_AMOUNT'')
      else if reserveIn = 0 \<or> reserveOut = 0 then Inl (RuntimeError ''DEXV2Library: INSUFFICIENT_LIQUIDITY'')
      else bindR (checked_mult amountIn 997) (\<lambda>amountInWithFee.
        bindR (checked_mult amountInWithFee reserveOut) (\<lambda>numerator.
        bindR (checked_mult reserveIn 1000) (\<lambda>r.
        bindR (checked_add r amountInWithFee) (\<lambda>denominator.
          checked_div numerator denominator)))))"

definition getAmountIn :: "uint256 \<Rightarrow> uint256 \<Rightarrow> uint256 \<Rightarrow> uint256 res" where
  "getAmountIn amountOut reserveIn reserveOut =
     (if amountOut = 0 then Inl (RuntimeError ''DEXV2Library: INSUFFICIENT_OUTPUT_AMOUNT'')
      else if reserveIn = 0 \<or> reserveOut = 0 then Inl (RuntimeError ''DEXV2Library: INSUFFICIENT_LIQUIDITY'')
      else bindR (checked_mult reserveIn amountOut) (\<lambda>p.
        bindR (checked_mult p 1000) (\<lambda>numerator.
        bindR (checked_sub reserveOut amountOut) (\<lambda>d.
        bindR (checked_mult d 997) (\<lambda>denominator.
        bindR (checked_div numerator denominator) (\<lambda>q.
          checked_add q 1))))))"

text \<open>
  \<open>getAmountsOut\<close> and \<open>getAmountsIn\<close> along a path; \<open>getReserves\<close> is the lookup of the pair's
  reserves, the next hop's input being the previous hop's output.
\<close>

fun amounts_out :: "(Address \<Rightarrow> Address \<Rightarrow> (uint256 \<times> uint256) res) \<Rightarrow> uint256 \<Rightarrow> Address list \<Rightarrow> uint256 list res" where
  "amounts_out getReserves amount (a # b # path) =
     bindR (getReserves a b) (\<lambda>(rin, rout).
     bindR (getAmountOut amount rin rout) (\<lambda>out.
     bindR (amounts_out getReserves out (b # path)) (\<lambda>rest. Inr (amount # rest))))"
| "amounts_out getReserves amount path = Inr [amount]"

definition getAmountsOut ::
  "(Address \<Rightarrow> Address \<Rightarrow> (uint256 \<times> uint256) res) \<Rightarrow> uint256 \<Rightarrow> Address list \<Rightarrow> uint256 list res" where
  "getAmountsOut getReserves amountIn path =
     (if length path < 2 then Inl (RuntimeError ''DEXV2Library: INVALID_PATH'')
      else amounts_out getReserves amountIn path)"

text \<open>The loop of \<open>getAmountsIn\<close> runs from the end: \<open>rev_path\<close> is the path reversed, \<open>acc\<close> the amounts found.\<close>

fun amounts_in :: "(Address \<Rightarrow> Address \<Rightarrow> (uint256 \<times> uint256) res) \<Rightarrow> uint256 \<Rightarrow> Address list \<Rightarrow> uint256 list \<Rightarrow> uint256 list res" where
  "amounts_in getReserves amount (b # a # rev_path) acc =
     bindR (getReserves a b) (\<lambda>(rin, rout).
     bindR (getAmountIn amount rin rout) (\<lambda>x.
     amounts_in getReserves x (a # rev_path) (x # acc)))"
| "amounts_in getReserves amount rev_path acc = Inr acc"

definition getAmountsIn ::
  "(Address \<Rightarrow> Address \<Rightarrow> (uint256 \<times> uint256) res) \<Rightarrow> uint256 \<Rightarrow> Address list \<Rightarrow> uint256 list res" where
  "getAmountsIn getReserves amountOut path =
     (if length path < 2 then Inl (RuntimeError ''DEXV2Library: INVALID_PATH'')
      else amounts_in getReserves amountOut (rev path) [amountOut])"

subsection \<open>UQ112x112\<close>

definition Q112 :: uint224 where
  "Q112 = 5192296858534827628530496329220096"

definition uq_encode :: "uint112 \<Rightarrow> uint224 res" where
  "uq_encode x = checked_mult (ucast x) Q112"

definition uqdiv :: "uint224 \<Rightarrow> uint112 \<Rightarrow> uint224 res" where
  "uqdiv x y = checked_div x (ucast y)"

section \<open>Lemmas\<close>

lemma getAmountOut_Inr:
  assumes "getAmountOut a ri ro = Inr out"
  shows "unat out = unat a * 997 * unat ro div (unat ri * 1000 + unat a * 997)"
    and "a \<noteq> 0" "ri \<noteq> 0" "ro \<noteq> 0"
    and "unat ri * 1000 + unat a * 997 < 2 ^ 256"
proof -
  obtain f n r d where
    f: "checked_mult a 997 = Inr f" and n: "checked_mult f ro = Inr n" and r: "checked_mult ri 1000 = Inr r"
    and d: "checked_add r f = Inr d" and o: "checked_div n d = Inr out" and nz: "a \<noteq> 0" "ri \<noteq> 0" "ro \<noteq> 0"
    using assms by (auto simp: getAmountOut_def bindR_eq_Inr split: if_splits)
  show "unat out = unat a * 997 * unat ro div (unat ri * 1000 + unat a * 997)"
    using checked_unat(3) [OF f] checked_unat(3) [OF n] checked_unat(3) [OF r] checked_unat(1) [OF d]
      checked_unat(4) [OF o] by simp
  show "unat ri * 1000 + unat a * 997 < 2 ^ 256"
    using d checked_unat(3) [OF f] checked_unat(3) [OF r] by (simp add: res_simps)
  show "a \<noteq> 0" "ri \<noteq> 0" "ro \<noteq> 0" by fact+
qed

lemma getAmountIn_Inr:
  assumes "getAmountIn out ri ro = Inr a"
  shows "unat a = unat ri * unat out * 1000 div ((unat ro - unat out) * 997) + 1"
    and "unat out < unat ro" "out \<noteq> 0" "ri \<noteq> 0"
proof -
  obtain p n s d q where
    p: "checked_mult ri out = Inr p" and n: "checked_mult p 1000 = Inr n" and s: "checked_sub ro out = Inr s"
    and d: "checked_mult s 997 = Inr d" and q: "checked_div n d = Inr q" and a: "checked_add q 1 = Inr a"
    and nz: "out \<noteq> 0" "ri \<noteq> 0"
    using assms by (auto simp: getAmountIn_def bindR_eq_Inr split: if_splits)
  show "unat a = unat ri * unat out * 1000 div ((unat ro - unat out) * 997) + 1"
    using checked_unat(3) [OF p] checked_unat(3) [OF n] checked_unat(2) [OF s] checked_unat(3) [OF d]
      checked_unat(4) [OF q] checked_unat(1) [OF a] by simp
  have "out \<le> ro" using s by (simp add: res_simps)
  moreover have "out \<noteq> ro" using q checked_unat(3) [OF d] s by (auto simp: res_simps unat_eq_zero)
  ultimately show "unat out < unat ro" by (simp add: word_le_nat_alt word_unat_eq_iff)
  show "out \<noteq> 0" "ri \<noteq> 0" by fact+
qed

text \<open>The constant product inequality behind the price formula, on natural numbers.\<close>

lemma out_bound:
  fixes a ri ro out :: nat
  assumes out: "out = a * 997 * ro div (ri * 1000 + a * 997)" and pos: "0 < ri" "0 < ro"
  shows "out < ro"
    and "ri * ro * 1000 * 1000 \<le> ((ri + a) * 1000 - a * 3) * ((ro - out) * 1000)"
proof -
  let ?D = "ri * 1000 + a * 997"
  have D: "out * ?D \<le> a * 997 * ro" unfolding out by (rule div_times_less_eq_dividend)
  have "a * 997 * ro < ro * ?D" using pos by (simp add: algebra_simps)
  then show lt: "out < ro" unfolding out using pos by (simp add: div_less_iff_less_mult)
  have adj: "(ri + a) * 1000 - a * 3 = ?D" by (simp add: algebra_simps)
  have "ro * ?D = ri * ro * 1000 + a * 997 * ro" by (simp add: algebra_simps)
  then have "ri * ro * 1000 \<le> ro * ?D - out * ?D" using D by linarith
  also have "\<dots> = ?D * (ro - out)" by (simp add: diff_mult_distrib mult.commute)
  finally have "ri * ro * 1000 * 1000 \<le> ?D * (ro - out) * 1000" by (rule mult_le_mono1)
  then show "ri * ro * 1000 * 1000 \<le> ((ri + a) * 1000 - a * 3) * ((ro - out) * 1000)"
    unfolding adj by (simp only: mult.assoc)
qed

lemma in_enough:
  fixes a ri ro out :: nat
  assumes a: "a = ri * out * 1000 div ((ro - out) * 997) + 1" and lt: "out < ro" and "0 < ri"
  shows "out \<le> a * 997 * ro div (ri * 1000 + a * 997)"
proof -
  let ?N = "ri * out * 1000" and ?D = "(ro - out) * 997"
  have "?N < (?N div ?D + 1) * ?D" using lt dividend_less_div_times [of ?D ?N] by simp
  then have N: "?N \<le> a * ?D" by (simp only: a)
  obtain k where k: "ro = out + k" using lt by (metis less_imp_add_positive)
  have "out * (ri * 1000 + a * 997) \<le> a * 997 * ro"
    using N by (simp add: k algebra_simps)
  then show ?thesis using assms(3) by (simp add: less_eq_div_iff_mult_less_eq)
qed

section \<open>Properties\<close>

text \<open>
  C24. A quoted output keeps the constant product: \<open>getAmountOut\<close> never gives out the whole
  reserve, and after taking the input and paying the output the fee-adjusted product of the
  reserves that the pair's swap checks is at least what it was.
\<close>

theorem getAmountOut_keeps_product:
  assumes "getAmountOut amountIn reserveIn reserveOut = Inr out"
  shows "unat out < unat reserveOut \<and>
    unat reserveIn * unat reserveOut * 1000 * 1000 \<le>
      ((unat reserveIn + unat amountIn) * 1000 - unat amountIn * 3) * ((unat reserveOut - unat out) * 1000) \<and>
    unat reserveIn * unat reserveOut \<le> (unat reserveIn + unat amountIn) * (unat reserveOut - unat out)"
proof -
  note o = getAmountOut_Inr [OF assms]
  have pos: "0 < unat reserveIn" "0 < unat reserveOut" using o(3,4) by (simp_all add: unat_gt_0)
  note b = out_bound [OF o(1) pos]
  have "((unat reserveIn + unat amountIn) * 1000 - unat amountIn * 3) * ((unat reserveOut - unat out) * 1000)
      \<le> (unat reserveIn + unat amountIn) * 1000 * ((unat reserveOut - unat out) * 1000)"
    by (intro mult_le_mono) simp_all
  then have "unat reserveIn * unat reserveOut * 1000 * 1000
      \<le> (unat reserveIn + unat amountIn) * (unat reserveOut - unat out) * 1000 * 1000"
    using b(2) by (simp add: algebra_simps)
  then show ?thesis using b by simp
qed

theorem getAmountOut_keeps_product_witness:
  "getAmountOut 1000 50000 20000 = Inr 391 \<and> (50000 :: nat) * 20000 \<le> 51000 * (20000 - 391)"
proof -
  have "getAmountOut 1000 50000 20000 = Inr 391"
    by (simp add: getAmountOut_def checked_mult_def checked_add_def checked_div_def)
  then show ?thesis using getAmountOut_keeps_product [of 1000 50000 20000 391] by simp
qed

text \<open>
  C25. \<open>getAmountIn\<close> asks for enough: paying the amount it computes buys at least the requested output,
  whenever \<open>getAmountOut\<close> can compute the result.
\<close>

theorem getAmountIn_sufficient:
  assumes "getAmountIn amountOut reserveIn reserveOut = Inr amountIn"
    and "getAmountOut amountIn reserveIn reserveOut = Inr out"
  shows "amountOut \<le> out \<and> unat amountOut < unat reserveOut"
proof -
  note i = getAmountIn_Inr [OF assms(1)] and o = getAmountOut_Inr [OF assms(2)]
  have "unat amountOut \<le> unat out"
    unfolding o(1) using i by (intro in_enough) (simp_all add: unat_gt_0)
  then show ?thesis using i(2) by (simp add: word_le_nat_alt)
qed

theorem getAmountIn_sufficient_witness:
  "getAmountIn 390 50000 20000 = Inr 998 \<and> (\<exists>out. getAmountOut 998 50000 20000 = Inr out \<and> 390 \<le> out)"
proof -
  have "getAmountIn 390 50000 20000 = Inr 998" "getAmountOut 998 50000 20000 = Inr 390"
    by (simp_all add: getAmountIn_def getAmountOut_def checked_mult_def checked_add_def checked_sub_def checked_div_def)
  then show ?thesis using getAmountIn_sufficient [of 390 50000 20000 998 390] by simp
qed

text \<open>
  Sorting two tokens does not depend on the order they are given in: for addresses of equal
  length both calls throw the same error or both return the same ordered pair of
  distinct addresses.
\<close>

theorem sortTokens_symmetric:
  assumes "length tokenA = length tokenB"
  shows "sortTokens tokenA tokenB = sortTokens tokenB tokenA \<and>
    (case sortTokens tokenA tokenB of Inl _ \<Rightarrow> True
     | Inr (x, y) \<Rightarrow> addr_less x y \<and> {x, y} = {tokenA, tokenB} \<and> x \<noteq> zero_address)"
  using addr_less_total [OF assms] addr_less_antisym [of tokenA tokenB]
  by (auto simp: sortTokens_def Let_def)

theorem sortTokens_symmetric_witness:
  "sortTokens [2, 1] [1, 9] = Inr ([1, 9], [2, 1]) \<and> sortTokens [1, 9] [2, 1] = Inr ([1, 9], [2, 1])"
proof -
  have "sortTokens [2, 1] [1, 9] = Inr ([1, 9], [2, 1])" by code_simp
  then show ?thesis using sortTokens_symmetric [of "[2, 1]" "[1, 9]"] by simp
qed

text \<open>
  The fixed-point price cannot overflow: encoding a 112-bit reserve and dividing it by a nonzero
  one always succeeds and is the exact quotient scaled by \<open>2 ^ 112\<close>, rounded down.
\<close>

theorem uq112x112_price_exact:
  assumes "y \<noteq> 0"
  shows "\<exists>e q. uq_encode x = Inr e \<and> uqdiv e y = Inr q \<and> unat q = unat x * 2 ^ 112 div unat y"
proof -
  have x: "unat (ucast x :: uint224) = unat x" for x :: uint112
    by (simp add: unsigned_ucast_eq take_bit_nat_eq_self_iff) (use unat_bound [of x] in simp)
  have Q: "unat Q112 = 2 ^ 112" by (simp add: Q112_def)
  have "unat x * 2 ^ 112 < 2 ^ 224" using unat_bound [of x] by simp
  then have e: "uq_encode x = Inr (ucast x * Q112)" "unat (ucast x * Q112) = unat x * 2 ^ 112"
    using unat_mult_no_wrap [of "ucast x" Q112] by (simp_all add: uq_encode_def checked_mult_def x Q)
  have "(ucast y :: uint224) \<noteq> 0" using assms x [of y] by (auto simp: word_unat_eq_iff)
  then show ?thesis using e by (simp add: uqdiv_def checked_div_def unat_div x)
qed

theorem uq112x112_price_exact_witness:
  "\<exists>e q. uq_encode 6 = Inr e \<and> uqdiv e 4 = Inr q \<and> unat q = 6 * 2 ^ 112 div 4"
  using uq112x112_price_exact [of 4 6] by simp

end
