(* ===== verification/DexPair.thy ===== *)
theory DexPair
  imports Dex ContractCall SafeScalars
begin

text \<open>
  The liquidity pair contract (\<^verbatim>\<open>contract/dexv2/dexv2pair.cpp\<close>): reserves, liquidity tokens and swaps
  over two ERC-20 contracts. Each function runs in the state \<open>dex_world\<close>: the pair, the table of the other
  contracts, the answer of the factory's \<open>feeTo\<close> and the block timestamp.
\<close>

section \<open>State\<close>

record dex_pair =
  p_erc20 :: erc20
  p_factory :: "Address safe_var"
  p_token0 :: "Address safe_var"
  p_token1 :: "Address safe_var"
  p_reserve0 :: "112 word safe_var"
  p_reserve1 :: "112 word safe_var"
  p_blockTimestampLast :: "32 word safe_var"
  p_price0CumulativeLast :: "256 word safe_var"
  p_price1CumulativeLast :: "256 word safe_var"
  p_kLast :: "256 word safe_var"
  p_lock :: bool

record dex_world =
  d_self :: Address
  d_caller :: Address
  d_pair :: dex_pair
  d_contracts :: contract_table
  d_feeTo :: "Address res"
  d_timestamp :: uint64

section \<open>Plumbing\<close>

definition pairS :: "(dex_pair \<Rightarrow> dex_pair \<times> error option) \<Rightarrow> (dex_world, unit) sres" where
  "pairS f w = (case f (d_pair w) of (p, e) \<Rightarrow>
     (w\<lparr>d_pair := p\<rparr>, case e of None \<Rightarrow> Inr () | Some x \<Rightarrow> Inl x))"

definition guardedS :: "(dex_world, 'a) sres \<Rightarrow> (dex_world, 'a) sres" where
  "guardedS body w =
     (if p_lock (d_pair w) then (w, Inl (RuntimeError ''ReentrancyGuard: reentrancy attack detected''))
      else case body (w\<lparr>d_pair := (d_pair w)\<lparr>p_lock := True\<rparr>\<rparr>) of
        (w', r) \<Rightarrow> (w'\<lparr>d_pair := (d_pair w')\<lparr>p_lock := False\<rparr>\<rparr>, r))"

definition set_reserve0 :: "uint112 \<Rightarrow> (dex_world, unit) sres" where
  "set_reserve0 x = pairS (\<lambda>p. case op_assign (p_reserve0 p) x of (v, e) \<Rightarrow> (p\<lparr>p_reserve0 := v\<rparr>, e))"

definition set_reserve1 :: "uint112 \<Rightarrow> (dex_world, unit) sres" where
  "set_reserve1 x = pairS (\<lambda>p. case op_assign (p_reserve1 p) x of (v, e) \<Rightarrow> (p\<lparr>p_reserve1 := v\<rparr>, e))"

definition set_blockTimestampLast :: "uint32 \<Rightarrow> (dex_world, unit) sres" where
  "set_blockTimestampLast x =
     pairS (\<lambda>p. case op_assign (p_blockTimestampLast p) x of (v, e) \<Rightarrow> (p\<lparr>p_blockTimestampLast := v\<rparr>, e))"

definition add_price0 :: "uint256 \<Rightarrow> (dex_world, unit) sres" where
  "add_price0 x = pairS (\<lambda>p. case big_op_add_assign (p_price0CumulativeLast p) x of
     (v, e) \<Rightarrow> (p\<lparr>p_price0CumulativeLast := v\<rparr>, e))"

definition add_price1 :: "uint256 \<Rightarrow> (dex_world, unit) sres" where
  "add_price1 x = pairS (\<lambda>p. case big_op_add_assign (p_price1CumulativeLast p) x of
     (v, e) \<Rightarrow> (p\<lparr>p_price1CumulativeLast := v\<rparr>, e))"

definition set_kLast :: "uint256 \<Rightarrow> (dex_world, unit) sres" where
  "set_kLast x = pairS (\<lambda>p. case op_assign (p_kLast p) x of (v, e) \<Rightarrow> (p\<lparr>p_kLast := v\<rparr>, e))"

definition pair_mintValue :: "Address \<Rightarrow> uint256 \<Rightarrow> (dex_world, unit) sres" where
  "pair_mintValue a v = pairS (\<lambda>p. case mintValue a v (p_erc20 p) of (t, e) \<Rightarrow> (p\<lparr>p_erc20 := t\<rparr>, e))"

definition pair_burnValue :: "Address \<Rightarrow> uint256 \<Rightarrow> (dex_world, unit) sres" where
  "pair_burnValue a v = pairS (\<lambda>p. case burnValue a v (p_erc20 p) of (t, e) \<Rightarrow> (p\<lparr>p_erc20 := t\<rparr>, e))"

definition reserve0 :: "dex_world \<Rightarrow> uint112" where
  "reserve0 w = sv_get (p_reserve0 (d_pair w))"

definition reserve1 :: "dex_world \<Rightarrow> uint112" where
  "reserve1 w = sv_get (p_reserve1 (d_pair w))"

definition token0 :: "dex_world \<Rightarrow> Address" where
  "token0 w = sv_get (p_token0 (d_pair w))"

definition token1 :: "dex_world \<Rightarrow> Address" where
  "token1 w = sv_get (p_token1 (d_pair w))"

text \<open>\<open>callContractViewFunction(token, &ERC20::balanceOf, getContractAddress())\<close>.\<close>

definition balance_in :: "dex_world \<Rightarrow> Address \<Rightarrow> uint256 res" where
  "balance_in w token = bindR (getContract (d_contracts w) token) (\<lambda>t. Inr (balanceOf t (d_self w)))"

definition balanceS :: "(dex_world \<Rightarrow> Address) \<Rightarrow> (dex_world, uint256) sres" where
  "balanceS tok w = (w, balance_in w (tok w))"

section \<open>The pair's functions\<close>

definition safeTransfer :: "Address \<Rightarrow> Address \<Rightarrow> uint256 \<Rightarrow> (dex_world, unit) sres" where
  "safeTransfer token to v w =
     (case callContractFunction token (transfer (d_self w) to v) (d_contracts w) of
        (tbl, e) \<Rightarrow> (w\<lparr>d_contracts := tbl\<rparr>, case e of None \<Rightarrow> Inr () | Some x \<Rightarrow> Inl x))"

text \<open>\<open>uint256_t(uqdiv(encode(uint112_t(a)), uint112_t(b))) * timeElapsed\<close>.\<close>

definition price_delta :: "uint256 \<Rightarrow> uint256 \<Rightarrow> uint32 \<Rightarrow> uint256 res" where
  "price_delta a b timeElapsed =
     bindR (checked_conv a) (\<lambda>a'. bindR (uq_encode a') (\<lambda>x.
     bindR (checked_conv b) (\<lambda>b'. bindR (uqdiv x b') (\<lambda>q.
       checked_mult (ucast q) (ucast timeElapsed)))))"

definition accumulate_prices :: "uint256 \<Rightarrow> uint256 \<Rightarrow> uint32 \<Rightarrow> (dex_world, unit) sres" where
  "accumulate_prices r0 r1 timeElapsed =
     (if timeElapsed > 0 \<and> r0 \<noteq> 0 \<and> r1 \<noteq> 0
      then bindS (liftS (price_delta r1 r0 timeElapsed)) (\<lambda>d0. bindS (add_price0 d0) (\<lambda>_.
           bindS (liftS (price_delta r0 r1 timeElapsed)) add_price1))
      else retS ())"

definition pair_update :: "uint256 \<Rightarrow> uint256 \<Rightarrow> uint256 \<Rightarrow> uint256 \<Rightarrow> (dex_world, unit) sres" where
  "pair_update balance0 balance1 r0 r1 w =
     (let blockTimestamp = (ucast (d_timestamp w div 1000000) :: uint32);
          timeElapsed = blockTimestamp - sv_get (p_blockTimestampLast (d_pair w))
      in bindS (accumulate_prices r0 r1 timeElapsed) (\<lambda>_.
         bindS (liftS (checked_conv balance0)) (\<lambda>b0. bindS (set_reserve0 b0) (\<lambda>_.
         bindS (liftS (checked_conv balance1)) (\<lambda>b1. bindS (set_reserve1 b1) (\<lambda>_.
           set_blockTimestampLast blockTimestamp))))) w)"

text \<open>
  \<open>sqrt\<close> is \<^verbatim>\<open>boost::multiprecision::sqrt\<close>, a parameter. A fee address is one with a byte that is not zero.
\<close>

definition fee_liquidity :: "(uint256 \<Rightarrow> uint256) \<Rightarrow> uint256 \<Rightarrow> uint256 \<Rightarrow> uint256 \<Rightarrow> uint256 res" where
  "fee_liquidity sqrt k kLast tsupply =
     (let rootK = sqrt k; rootKLast = sqrt kLast in
      if rootK > rootKLast then
        bindR (checked_sub rootK rootKLast) (\<lambda>diff.
        bindR (checked_mult tsupply diff) (\<lambda>numerator.
        bindR (checked_mult rootK 5) (\<lambda>five.
        bindR (checked_add five rootKLast) (\<lambda>denominator.
        checked_div numerator denominator))))
      else Inr 0)"

definition mint_fee_to :: "(uint256 \<Rightarrow> uint256) \<Rightarrow> uint112 \<Rightarrow> uint112 \<Rightarrow> Address \<Rightarrow> uint256 \<Rightarrow> (dex_world, unit) sres" where
  "mint_fee_to sqrt r0 r1 feeTo kLast =
     bindS (liftS (checked_mult (ucast r0) (ucast r1))) (\<lambda>k.
     bindS (\<lambda>w. (w, fee_liquidity sqrt k kLast (totalSupply (p_erc20 (d_pair w))))) (\<lambda>liquidity.
     if liquidity > 0 then pair_mintValue feeTo liquidity else retS ()))"

definition mintFee :: "(uint256 \<Rightarrow> uint256) \<Rightarrow> uint112 \<Rightarrow> uint112 \<Rightarrow> (dex_world, bool) sres" where
  "mintFee sqrt r0 r1 =
     bindS (\<lambda>w. (w, d_feeTo w)) (\<lambda>feeTo.
     bindS (readS (\<lambda>w. sv_get (p_kLast (d_pair w)))) (\<lambda>kLast.
     let feeOn = list_ex (\<lambda>b. b \<noteq> 0) feeTo in
     bindS (if kLast = 0 then retS ()
            else if feeOn then mint_fee_to sqrt r0 r1 feeTo kLast else set_kLast 0) (\<lambda>_.
     retS feeOn)))"

definition initialize :: "Address \<Rightarrow> Address \<Rightarrow> (dex_world, unit) sres" where
  "initialize t0 t1 w =
     (if SafeAddress_ne (p_factory (d_pair w)) (d_caller w) then (w, Inl (RuntimeError ''DEXV2Pair: FORBIDDEN''))
      else (w\<lparr>d_pair := (d_pair w)
              \<lparr>p_token0 := SafeAddress_assign (p_token0 (d_pair w)) t0,
               p_token1 := SafeAddress_assign (p_token1 (d_pair w)) t1\<rparr>\<rparr>, Inr ()))"

definition getReservess :: "dex_world \<Rightarrow> uint256 \<times> uint256" where
  "getReservess w = (ucast (reserve0 w), ucast (reserve1 w))"

definition MINIMUM_LIQUIDITY :: uint256 where
  "MINIMUM_LIQUIDITY = 1000"

definition update_from_state :: "uint256 \<Rightarrow> uint256 \<Rightarrow> (dex_world, unit) sres" where
  "update_from_state balance0 balance1 w =
     pair_update balance0 balance1 (ucast (reserve0 w)) (ucast (reserve1 w)) w"

definition set_kLast_product :: "bool \<Rightarrow> (dex_world, unit) sres" where
  "set_kLast_product feeOn = (if feeOn then
     bindS (\<lambda>w. (w, checked_mult (ucast (reserve0 w)) (ucast (reserve1 w)))) set_kLast else retS ())"

definition share :: "uint256 \<Rightarrow> uint256 \<Rightarrow> uint112 \<Rightarrow> uint256 res" where
  "share amount tsupply reserve = bindR (checked_mult amount tsupply) (\<lambda>p. checked_div p (ucast reserve))"

definition mint_liquidity :: "(uint256 \<Rightarrow> uint256) \<Rightarrow> uint256 \<Rightarrow> uint256 \<Rightarrow> (dex_world, uint256) sres" where
  "mint_liquidity sqrt amount0 amount1 =
     bindS (readS (\<lambda>w. totalSupply (p_erc20 (d_pair w)))) (\<lambda>tsupply.
     if tsupply = 0 then
       bindS (liftS (checked_mult amount0 amount1)) (\<lambda>p.
       bindS (liftS (checked_sub (sqrt p) MINIMUM_LIQUIDITY)) (\<lambda>l.
       bindS (pair_mintValue zero_address MINIMUM_LIQUIDITY) (\<lambda>_. retS l)))
     else
       bindS (\<lambda>w. (w, share amount0 tsupply (reserve0 w))) (\<lambda>l0.
       bindS (\<lambda>w. (w, share amount1 tsupply (reserve1 w))) (\<lambda>l1. retS (min l0 l1))))"

definition mint_body :: "(uint256 \<Rightarrow> uint256) \<Rightarrow> Address \<Rightarrow> (dex_world, uint256) sres" where
  "mint_body sqrt to =
     bindS (balanceS token0) (\<lambda>balance0. bindS (balanceS token1) (\<lambda>balance1.
     bindS (\<lambda>w. (w, checked_sub balance0 (ucast (reserve0 w)))) (\<lambda>amount0.
     bindS (\<lambda>w. (w, checked_sub balance1 (ucast (reserve1 w)))) (\<lambda>amount1.
     bindS (\<lambda>w. mintFee sqrt (reserve0 w) (reserve1 w) w) (\<lambda>feeOn.
     bindS (mint_liquidity sqrt amount0 amount1) (\<lambda>liquidity.
     if liquidity = 0 then throwS (RuntimeError ''DEXV2Pair: INSUFFICIENT_LIQUIDITY_MINTED'')
     else bindS (pair_mintValue to liquidity) (\<lambda>_.
          bindS (update_from_state balance0 balance1) (\<lambda>_.
          bindS (set_kLast_product feeOn) (\<lambda>_. retS liquidity)))))))))"

definition mint :: "(uint256 \<Rightarrow> uint256) \<Rightarrow> Address \<Rightarrow> (dex_world, uint256) sres" where
  "mint sqrt to = guardedS (mint_body sqrt to)"

definition payout :: "uint256 \<Rightarrow> uint256 \<Rightarrow> uint256 \<Rightarrow> uint256 res" where
  "payout liquidity balance tsupply = bindR (checked_mult liquidity balance) (\<lambda>p. checked_div p tsupply)"

definition burn_body :: "(uint256 \<Rightarrow> uint256) \<Rightarrow> Address \<Rightarrow> (dex_world, uint256 \<times> uint256) sres" where
  "burn_body sqrt to =
     bindS (balanceS token0) (\<lambda>balance0. bindS (balanceS token1) (\<lambda>balance1.
     bindS (readS (\<lambda>w. balanceOf (p_erc20 (d_pair w)) (d_self w))) (\<lambda>liquidity.
     bindS (\<lambda>w. mintFee sqrt (reserve0 w) (reserve1 w) w) (\<lambda>feeOn.
     bindS (readS (\<lambda>w. totalSupply (p_erc20 (d_pair w)))) (\<lambda>tsupply.
     bindS (liftS (payout liquidity balance0 tsupply)) (\<lambda>amount0.
     bindS (liftS (payout liquidity balance1 tsupply)) (\<lambda>amount1.
     if amount0 = 0 \<or> amount1 = 0 then throwS (RuntimeError ''DEXV2Pair: INSUFFICIENT_LIQUIDITY_BURNED'')
     else bindS (\<lambda>w. pair_burnValue (d_self w) liquidity w) (\<lambda>_.
          bindS (\<lambda>w. safeTransfer (token0 w) to amount0 w) (\<lambda>_.
          bindS (\<lambda>w. safeTransfer (token1 w) to amount1 w) (\<lambda>_.
          bindS (balanceS token0) (\<lambda>balance0'. bindS (balanceS token1) (\<lambda>balance1'.
          bindS (update_from_state balance0' balance1') (\<lambda>_.
          bindS (set_kLast_product feeOn) (\<lambda>_. retS (amount0, amount1)))))))))))))))"

definition burn :: "(uint256 \<Rightarrow> uint256) \<Rightarrow> Address \<Rightarrow> (dex_world, uint256 \<times> uint256) sres" where
  "burn sqrt to = guardedS (burn_body sqrt to)"

text \<open>\<open>balance > reserve - uint112_t(out) ? balance - reserve + uint112_t(out) : 0\<close>.\<close>

definition amount_in :: "uint256 \<Rightarrow> uint112 \<Rightarrow> uint256 \<Rightarrow> uint256 res" where
  "amount_in balance reserve out =
     bindR (checked_conv out) (\<lambda>o'. bindR (checked_sub reserve o') (\<lambda>rest.
     if balance > ucast rest then
       bindR (checked_sub balance (ucast reserve)) (\<lambda>d. checked_add d (ucast o'))
     else Inr 0))"

definition adjusted :: "uint256 \<Rightarrow> uint256 \<Rightarrow> uint256 res" where
  "adjusted balance amountIn =
     bindR (checked_mult balance 1000) (\<lambda>b. bindR (checked_mult amountIn 3) (\<lambda>f. checked_sub b f))"

definition insufficient_liquidity :: "uint256 \<Rightarrow> uint256 \<Rightarrow> dex_world \<Rightarrow> bool res" where
  "insufficient_liquidity amount0Out amount1Out w =
     bindR (checked_conv amount0Out) (\<lambda>o0. if reserve0 w \<le> o0
       then bindR (checked_conv amount1Out) (\<lambda>o1. Inr (reserve1 w \<le> o1)) else Inr False)"

definition k_violated :: "uint256 \<Rightarrow> uint256 \<Rightarrow> dex_world \<Rightarrow> bool res" where
  "k_violated adj0 adj1 w =
     bindR (checked_mult adj0 adj1) (\<lambda>lhs.
     bindR (checked_mult (ucast (reserve0 w)) (ucast (reserve1 w))) (\<lambda>k.
     bindR (checked_mult k 1000) (\<lambda>k1. bindR (checked_mult k1 1000) (\<lambda>rhs. Inr (lhs < rhs)))))"

definition swap_pay :: "uint256 \<Rightarrow> uint256 \<Rightarrow> Address \<Rightarrow> (dex_world, unit) sres" where
  "swap_pay amount0Out amount1Out to =
     bindS (\<lambda>w. if amount0Out > 0 then safeTransfer (token0 w) to amount0Out w else retS () w) (\<lambda>_.
     \<lambda>w. if amount1Out > 0 then safeTransfer (token1 w) to amount1Out w else retS () w)"

definition swap_settle :: "uint256 \<Rightarrow> uint256 \<Rightarrow> (dex_world, unit) sres" where
  "swap_settle amount0Out amount1Out =
     bindS (balanceS token0) (\<lambda>balance0. bindS (balanceS token1) (\<lambda>balance1.
     bindS (\<lambda>w. (w, amount_in balance0 (reserve0 w) amount0Out)) (\<lambda>amount0In.
     bindS (\<lambda>w. (w, amount_in balance1 (reserve1 w) amount1Out)) (\<lambda>amount1In.
     if amount0In = 0 \<and> amount1In = 0 then throwS (RuntimeError ''DEXV2Pair: INSUFFICIENT_INPUT_AMOUNT'')
     else bindS (liftS (adjusted balance0 amount0In)) (\<lambda>adj0.
     bindS (liftS (adjusted balance1 amount1In)) (\<lambda>adj1.
     bindS (\<lambda>w. (w, k_violated adj0 adj1 w)) (\<lambda>bad_k.
     if bad_k then throwS (RuntimeError ''DEXV2Pair: K'')
     else update_from_state balance0 balance1)))))))"

definition swap :: "uint256 \<Rightarrow> uint256 \<Rightarrow> Address \<Rightarrow> (dex_world, unit) sres" where
  "swap amount0Out amount1Out to = guardedS (
     if amount0Out = 0 \<and> amount1Out = 0 then throwS (RuntimeError ''DEXV2Pair: INSUFFICIENT_OUTPUT_AMOUNT'')
     else bindS (\<lambda>w. (w, insufficient_liquidity amount0Out amount1Out w)) (\<lambda>insuff.
     if insuff then throwS (RuntimeError ''DEXV2Pair: INSUFFICIENT_LIQUIDITY'')
     else bindS (readS (\<lambda>w. SafeAddress_eq (p_token0 (d_pair w)) to \<or> SafeAddress_eq (p_token1 (d_pair w)) to)) (\<lambda>bad.
     if bad then throwS (RuntimeError ''DEXV2Pair: INVALID_TO'')
     else bindS (swap_pay amount0Out amount1Out to) (\<lambda>_. swap_settle amount0Out amount1Out))))"

definition skim :: "Address \<Rightarrow> (dex_world, unit) sres" where
  "skim to = guardedS (
     bindS (balanceS token0) (\<lambda>balance0.
     bindS (\<lambda>w. (w, checked_sub balance0 (ucast (reserve0 w)))) (\<lambda>x0.
     bindS (\<lambda>w. safeTransfer (token0 w) to x0 w) (\<lambda>_.
     bindS (balanceS token1) (\<lambda>balance1.
     bindS (\<lambda>w. (w, checked_sub balance1 (ucast (reserve1 w)))) (\<lambda>x1.
     \<lambda>w. safeTransfer (token1 w) to x1 w))))))"

definition sync :: "(dex_world, unit) sres" where
  "sync = guardedS (
     bindS (balanceS token0) (\<lambda>balance0. bindS (balanceS token1) (\<lambda>balance1.
     update_from_state balance0 balance1)))"

section \<open>What each step keeps\<close>

text \<open>The part of the world that a step of the pair leaves alone unless it says otherwise.\<close>

definition same_frame :: "dex_world \<Rightarrow> dex_world \<Rightarrow> bool" where
  "same_frame w w' \<longleftrightarrow> d_self w' = d_self w \<and> token0 w' = token0 w \<and> token1 w' = token1 w"

definition same_reserves :: "dex_world \<Rightarrow> dex_world \<Rightarrow> bool" where
  "same_reserves w w' \<longleftrightarrow> reserve0 w' = reserve0 w \<and> reserve1 w' = reserve1 w"

abbreviation lp :: "dex_world \<Rightarrow> erc20" where
  "lp w \<equiv> p_erc20 (d_pair w)"

lemmas pair_obs = reserve0_def reserve1_def token0_def token1_def

lemma same_frame_trans: "same_frame a b \<Longrightarrow> same_frame b c \<Longrightarrow> same_frame a c"
  by (simp add: same_frame_def)

lemma same_reserves_trans: "same_reserves a b \<Longrightarrow> same_reserves b c \<Longrightarrow> same_reserves a c"
  by (simp add: same_reserves_def)

lemma pairS_Inr [res_simps]:
  "pairS f w = (w', Inr u) \<longleftrightarrow> snd (f (d_pair w)) = None \<and> w' = w\<lparr>d_pair := fst (f (d_pair w))\<rparr>"
  by (auto simp: pairS_def split: prod.splits option.splits)

lemma guardedS_Inr:
  assumes "guardedS body w = (w', Inr a)"
  obtains w1 w2 where "w1 = w\<lparr>d_pair := (d_pair w)\<lparr>p_lock := True\<rparr>\<rparr>" "body w1 = (w2, Inr a)"
    "w' = w2\<lparr>d_pair := (d_pair w2)\<lparr>p_lock := False\<rparr>\<rparr>" "\<not> p_lock (d_pair w)"
  using assms by (auto simp: guardedS_def split: if_splits prod.splits)

lemma set_lock_obs [simp]:
  fixes w :: dex_world and b :: bool
  defines "w' \<equiv> w\<lparr>d_pair := (d_pair w)\<lparr>p_lock := b\<rparr>\<rparr>"
  shows "reserve0 w' = reserve0 w" "reserve1 w' = reserve1 w" "token0 w' = token0 w" "token1 w' = token1 w"
    "balance_in w' = balance_in w"
  by (simp_all add: w'_def pair_obs balance_in_def fun_eq_iff)

lemma safeTransfer_frame:
  assumes "safeTransfer token to v w = (w', r)"
  shows "d_pair w' = d_pair w \<and> d_self w' = d_self w"
  using assms by (auto simp: safeTransfer_def split: prod.splits)

lemma setters_ok:
  "set_reserve0 x w = (w', Inr u) \<longleftrightarrow> w' = w\<lparr>d_pair := (d_pair w)\<lparr>p_reserve0 := fst (op_assign (p_reserve0 (d_pair w)) x)\<rparr>\<rparr>"
  "set_reserve1 y w = (w', Inr u) \<longleftrightarrow> w' = w\<lparr>d_pair := (d_pair w)\<lparr>p_reserve1 := fst (op_assign (p_reserve1 (d_pair w)) y)\<rparr>\<rparr>"
  "set_blockTimestampLast t w = (w', Inr u) \<longleftrightarrow>
     w' = w\<lparr>d_pair := (d_pair w)\<lparr>p_blockTimestampLast := fst (op_assign (p_blockTimestampLast (d_pair w)) t)\<rparr>\<rparr>"
  "set_kLast k w = (w', Inr u) \<longleftrightarrow> w' = w\<lparr>d_pair := (d_pair w)\<lparr>p_kLast := fst (op_assign (p_kLast (d_pair w)) k)\<rparr>\<rparr>"
  by (simp_all add: set_reserve0_def set_reserve1_def set_blockTimestampLast_def set_kLast_def res_simps
      op_assign_def sv_simps case_prod_beta)

lemma add_price_frame:
  "add_price0 x w = (w', Inr u) \<Longrightarrow> same_frame w w' \<and> same_reserves w w' \<and> lp w' = lp w \<and> d_contracts w' = d_contracts w"
  "add_price1 x w = (w', Inr u) \<Longrightarrow> same_frame w w' \<and> same_reserves w w' \<and> lp w' = lp w \<and> d_contracts w' = d_contracts w"
  by (auto simp: add_price0_def add_price1_def res_simps case_prod_beta same_frame_def same_reserves_def pair_obs)

lemma accumulate_frame:
  assumes "accumulate_prices r0 r1 te w = (w', Inr u)"
  shows "same_frame w w' \<and> same_reserves w w' \<and> lp w' = lp w \<and> d_contracts w' = d_contracts w"
  using assms
  by (auto simp: accumulate_prices_def bindS_Inr retS_Inr liftS_Inr same_frame_def same_reserves_def
      dest!: add_price_frame split: if_splits)

lemma pair_update_effect:
  assumes "pair_update b0 b1 r0 r1 w = (w', Inr u)"
  shows "same_frame w w'" "d_contracts w' = d_contracts w" "lp w' = lp w"
    "unat (reserve0 w') = unat b0" "unat (reserve1 w') = unat b1"
proof -
  obtain w1 w2 w3 b0' b1' te t where
    s: "accumulate_prices r0 r1 te w = (w1, Inr ())"
      "(checked_conv b0 :: uint112 res) = Inr b0'" "set_reserve0 b0' w1 = (w2, Inr ())"
      "(checked_conv b1 :: uint112 res) = Inr b1'" "set_reserve1 b1' w2 = (w3, Inr ())"
      "set_blockTimestampLast t w3 = (w', Inr ())"
    using assms by (simp add: pair_update_def Let_def bindS_Inr retS_Inr liftS_Inr) blast
  show "same_frame w w'" "d_contracts w' = d_contracts w" "lp w' = lp w"
    "unat (reserve0 w') = unat b0" "unat (reserve1 w') = unat b1"
    using accumulate_frame [OF s(1)] s(3,5,6) checked_conv_unat [OF s(2)] checked_conv_unat [OF s(4)]
    by (auto simp: setters_ok same_frame_def pair_obs op_assign_def sv_simps)
qed

lemma update_from_state_effect:
  assumes "update_from_state b0 b1 w = (w', Inr u)"
  shows "same_frame w w'" "d_contracts w' = d_contracts w" "lp w' = lp w"
    "unat (reserve0 w') = unat b0" "unat (reserve1 w') = unat b1"
  using pair_update_effect assms by (auto simp: update_from_state_def)

lemma ucast_eqI: "unat r = unat b \<Longrightarrow> b = ucast r" for r :: uint112 and b :: uint256
  using unat_bound [of r]
  by (simp add: word_unat_eq_iff unsigned_ucast_eq take_bit_nat_eq_self)

lemma unat_ucast_112 [simp]: "unat (ucast r :: uint256) = unat r" for r :: uint112
  using unat_bound [of r] by (simp add: unsigned_ucast_eq take_bit_nat_eq_self)

lemma balanceS_Inr [res_simps]:
  "balanceS tok w = (w', Inr b) \<longleftrightarrow> w' = w \<and> balance_in w (tok w) = Inr b"
  by (auto simp: balanceS_def)

lemma adjusted_le:
  assumes "adjusted b i = Inr a"
  shows "unat a \<le> 1000 * unat b"
proof -
  obtain x y where s: "checked_mult b 1000 = Inr x" "checked_mult i 3 = Inr y" "checked_sub x y = Inr a"
    using assms by (auto simp: adjusted_def bindR_eq_Inr)
  show ?thesis using checked_unat(3) [OF s(1)] checked_unat(2) [OF s(3)] by simp
qed

lemma k_check:
  assumes "k_violated a0 a1 w = Inr False"
  shows "unat (reserve0 w) * unat (reserve1 w) * 1000000 \<le> unat a0 * unat a1"
proof -
  obtain l k k1 r where s: "checked_mult a0 a1 = Inr l"
    "checked_mult (ucast (reserve0 w)) (ucast (reserve1 w) :: uint256) = Inr k"
    "checked_mult k 1000 = Inr k1" "checked_mult k1 1000 = Inr r" and le: "\<not> l < r"
    using assms by (auto simp: k_violated_def bindR_eq_Inr)
  show ?thesis
    using checked_unat(3) [OF s(1)] checked_unat(3) [OF s(2)] checked_unat(3) [OF s(3)] checked_unat(3) [OF s(4)] le
    by (simp add: word_less_nat_alt)
qed

lemma swap_settle_ok:
  assumes "swap_settle a0 a1 w = (w', Inr ())"
  shows "\<exists>b0 b1. balance_in w (token0 w) = Inr b0 \<and> balance_in w (token1 w) = Inr b1 \<and>
      unat (reserve0 w) * unat (reserve1 w) \<le> unat b0 * unat b1 \<and> update_from_state b0 b1 w = (w', Inr ())"
proof -
  obtain b0 b1 in0 in1 adj0 adj1 where b: "balance_in w (token0 w) = Inr b0" "balance_in w (token1 w) = Inr b1"
    and adj: "adjusted b0 in0 = Inr adj0" "adjusted b1 in1 = Inr adj1"
    and k: "k_violated adj0 adj1 w = Inr False" and u: "update_from_state b0 b1 w = (w', Inr ())"
    using assms by (simp add: swap_settle_def bindS_Inr liftS_Inr throwS_guard balanceS_Inr ex_bool_eq) blast
  have "unat (reserve0 w) * unat (reserve1 w) * 1000000 \<le> unat adj0 * unat adj1"
    by (rule k_check [OF k])
  also have "\<dots> \<le> (1000 * unat b0) * (1000 * unat b1)"
    by (intro mult_le_mono adjusted_le [OF adj(1)] adjusted_le [OF adj(2)])
  finally show ?thesis using b u by simp
qed

lemma swap_pay_frame:
  assumes "swap_pay a0 a1 to w = (w', Inr u)"
  shows "d_pair w' = d_pair w" "d_self w' = d_self w"
  using assms
  by (auto simp: swap_pay_def bindS_Inr retS_Inr dest!: safeTransfer_frame split: if_splits)

lemma balance_in_cong: "d_contracts w' = d_contracts w \<Longrightarrow> d_self w' = d_self w \<Longrightarrow> balance_in w' = balance_in w"
  by (rule ext) (simp add: balance_in_def)

section \<open>Liquidity\<close>

text \<open>The steps of \<open>mint\<close> and \<open>burn\<close> outside \<open>_update\<close> keep the contracts, tokens and reserves.\<close>

definition only_lp :: "dex_world \<Rightarrow> dex_world \<Rightarrow> bool" where
  "only_lp w w' \<longleftrightarrow> same_frame w w' \<and> same_reserves w w' \<and> d_contracts w' = d_contracts w"

lemma only_lp_trans: "only_lp a b \<Longrightarrow> only_lp b c \<Longrightarrow> only_lp a c"
  by (simp add: only_lp_def same_frame_def same_reserves_def)

abbreviation supply_of :: "dex_world \<Rightarrow> nat" where
  "supply_of w \<equiv> unat (totalSupply (lp w))"

lemma pair_mintValue_effect:
  assumes "pair_mintValue a v w = (w', Inr u)" "erc20_inv (lp w)"
  shows "only_lp w w' \<and> erc20_inv (lp w') \<and> supply_of w' = supply_of w + unat v"
  using assms mint_effect [of "lp w" a v]
  by (auto simp: pair_mintValue_def pairS_Inr case_prod_beta only_lp_def same_frame_def same_reserves_def pair_obs)

lemma fee_liquidity_no_supply: "fee_liquidity sqrt k kLast 0 = Inr l \<Longrightarrow> l = 0"
  by (auto simp: fee_liquidity_def Let_def bindR_eq_Inr checked_sub_Inr checked_mult_Inr checked_div_Inr
      split: if_splits)

lemma mint_fee_to_effect:
  assumes "mint_fee_to sqrt r0 r1 feeTo kLast w = (w', Inr u)" "erc20_inv (lp w)"
  shows "only_lp w w' \<and> erc20_inv (lp w') \<and> supply_of w \<le> supply_of w' \<and> (supply_of w = 0 \<longrightarrow> supply_of w' = 0)"
proof -
  obtain k l where l: "fee_liquidity sqrt k kLast (totalSupply (lp w)) = Inr l"
    and m: "(if l > 0 then pair_mintValue feeTo l else retS ()) w = (w', Inr ())"
    using assms(1) by (auto simp: mint_fee_to_def bindS_Inr liftS_Inr)
  have "w' = w" if "supply_of w = 0"
    using fee_liquidity_no_supply [of sqrt k kLast l] l m that by (simp add: unat_eq_zero retS_def)
  then show ?thesis
    using m assms(2) pair_mintValue_effect [of feeTo l w w']
    by (auto simp: retS_Inr only_lp_def same_frame_def same_reserves_def split: if_splits)
qed

lemma set_kLast_frame: "set_kLast k w = (w', Inr u) \<Longrightarrow> only_lp w w' \<and> lp w' = lp w"
  by (auto simp: setters_ok only_lp_def same_frame_def same_reserves_def pair_obs)

lemma only_lp_refl [simp]: "only_lp w w"
  by (simp add: only_lp_def same_frame_def same_reserves_def)

lemma mintFee_effect:
  assumes "mintFee sqrt r0 r1 w = (w', Inr b)" "erc20_inv (lp w)"
  shows "only_lp w w' \<and> erc20_inv (lp w') \<and> supply_of w \<le> supply_of w' \<and> (supply_of w = 0 \<longrightarrow> supply_of w' = 0)"
proof -
  obtain feeTo kLast where
    "(if kLast = 0 then retS ()
      else if list_ex (\<lambda>b. b \<noteq> 0) feeTo then mint_fee_to sqrt r0 r1 feeTo kLast else set_kLast 0) w = (w', Inr ())"
    using assms(1) by (auto simp: mintFee_def Let_def bindS_Inr retS_Inr readS_Inr simp del: if_split_asm)
  then show ?thesis
    using assms(2) mint_fee_to_effect [of sqrt r0 r1 feeTo kLast w w'] set_kLast_frame [of 0 w w']
    by (auto simp: retS_Inr split: if_splits)
qed

lemma set_kLast_product_frame: "set_kLast_product f w = (w', Inr u) \<Longrightarrow> only_lp w w' \<and> lp w' = lp w"
  by (auto simp: set_kLast_product_def bindS_Inr retS_Inr dest: set_kLast_frame split: if_splits)

lemma share_le:
  assumes "share a t r = Inr l"
  shows "unat l * unat r \<le> unat a * unat t"
proof -
  obtain p where s: "checked_mult a t = Inr p" "checked_div p (ucast r) = Inr l"
    using assms by (auto simp: share_def bindR_eq_Inr)
  have "unat l = unat a * unat t div unat r"
    using checked_unat(3) [OF s(1)] checked_unat(4) [OF s(2)] by simp
  then show ?thesis by simp
qed

lemma unat_min: "unat (min a b) = min (unat a) (unat b)"
  by (simp add: min_def word_le_nat_alt)

lemma mint_liquidity_effect:
  assumes "mint_liquidity sqrt a0 a1 w = (w', Inr l)" "erc20_inv (lp w)"
  shows "only_lp w w'" "erc20_inv (lp w')"
    "if supply_of w = 0 then supply_of w' = 1000 \<and> (\<exists>p. unat p = unat a0 * unat a1 \<and> unat (sqrt p) = unat l + 1000)
     else supply_of w' = supply_of w \<and> unat l * unat (reserve0 w) \<le> unat a0 * supply_of w \<and>
       unat l * unat (reserve1 w) \<le> unat a1 * supply_of w"
proof -
  have "only_lp w w' \<and> erc20_inv (lp w') \<and>
    (if supply_of w = 0 then supply_of w' = 1000 \<and> (\<exists>p. unat p = unat a0 * unat a1 \<and> unat (sqrt p) = unat l + 1000)
     else supply_of w' = supply_of w \<and> unat l * unat (reserve0 w) \<le> unat a0 * supply_of w \<and>
       unat l * unat (reserve1 w) \<le> unat a1 * supply_of w)"
  proof (cases "totalSupply (lp w) = 0")
    case True
    then obtain p where p: "checked_mult a0 a1 = Inr p" "checked_sub (sqrt p) MINIMUM_LIQUIDITY = Inr l"
      and m: "pair_mintValue zero_address MINIMUM_LIQUIDITY w = (w', Inr ())"
      using assms(1) by (auto simp: mint_liquidity_def bindS_Inr readS_Inr liftS_Inr retS_Inr)
    have "unat (sqrt p) = unat l + 1000"
      using p(2) checked_unat(2) [OF p(2)] by (simp add: checked_sub_Inr MINIMUM_LIQUIDITY_def word_le_nat_alt)
    then show ?thesis
      using pair_mintValue_effect [OF m assms(2)] checked_unat(3) [OF p(1)] True
      by (auto simp: MINIMUM_LIQUIDITY_def)
  next
    case False
    then obtain l0 l1 where s: "share a0 (totalSupply (lp w)) (reserve0 w) = Inr l0"
      "share a1 (totalSupply (lp w)) (reserve1 w) = Inr l1" and l: "l = min l0 l1" and w: "w' = w"
      using assms(1) by (auto simp: mint_liquidity_def bindS_Inr readS_Inr retS_Inr)
    have "unat l \<le> unat l0" "unat l \<le> unat l1" by (simp_all add: l unat_min)
    then have "unat l * unat (reserve0 w) \<le> unat a0 * supply_of w" "unat l * unat (reserve1 w) \<le> unat a1 * supply_of w"
      using share_le [OF s(1)] share_le [OF s(2)] mult_le_mono1 le_trans by blast+
    then show ?thesis using assms(2) w False by (simp add: unat_eq_zero)
  qed
  then show "only_lp w w'" "erc20_inv (lp w')"
    "if supply_of w = 0 then supply_of w' = 1000 \<and> (\<exists>p. unat p = unat a0 * unat a1 \<and> unat (sqrt p) = unat l + 1000)
     else supply_of w' = supply_of w \<and> unat l * unat (reserve0 w) \<le> unat a0 * supply_of w \<and>
       unat l * unat (reserve1 w) \<le> unat a1 * supply_of w" by simp_all
qed

lemma mint_body_steps:
  assumes "mint_body sqrt to w1 = (w6, Inr l)"
  obtains w2 w3 w4 w5 b0 b1 a0 a1 f where
    "balance_in w1 (token0 w1) = Inr b0" "balance_in w1 (token1 w1) = Inr b1"
    "checked_sub b0 (ucast (reserve0 w1)) = Inr a0" "checked_sub b1 (ucast (reserve1 w1)) = Inr a1"
    "mintFee sqrt (reserve0 w1) (reserve1 w1) w1 = (w2, Inr f)"
    "mint_liquidity sqrt a0 a1 w2 = (w3, Inr l)" "pair_mintValue to l w3 = (w4, Inr ())"
    "update_from_state b0 b1 w4 = (w5, Inr ())" "set_kLast_product f w5 = (w6, Inr ())" "l \<noteq> 0"
  using assms by (simp add: mint_body_def bindS_Inr throwS_guard retS_Inr balanceS_Inr) blast

lemma safeTransfer_balance:
  assumes "safeTransfer token to v w = (w', Inr u)"
  shows "\<exists>b. balance_in w token = Inr b \<and> v \<le> b \<and>
      balance_in w' token = Inr (if to = d_self w then b else b - v) \<and>
      (\<forall>t. t \<noteq> token \<longrightarrow> balance_in w' t = balance_in w t)"
proof -
  let ?r = "callContractFunction token (transfer (d_self w) to v) (d_contracts w)"
  have "snd ?r = None" and w': "w' = w\<lparr>d_contracts := fst ?r\<rparr>"
    using assms by (auto simp: safeTransfer_def split: prod.splits option.splits)
  then obtain t where t: "d_contracts w token = Some (DErc20 t)" "snd (transfer (d_self w) to v t) = None"
    and tbl: "fst ?r = (d_contracts w)(token \<mapsto> DErc20 (fst (transfer (d_self w) to v t)))"
    using callContractFunction_ok by blast
  have ok: "snd (move (d_self w) to v t) = None" using t(2) by (simp add: transfer_move)
  then show ?thesis
    using t(1) move_ok_iff [of "d_self w" to v t] move_balances [OF ok, of "d_self w"]
    by (auto simp: w' tbl balance_in_def getContract_def transfer_move)
qed

lemma pair_burnValue_effect:
  assumes "pair_burnValue a v w = (w', Inr u)" "erc20_inv (lp w)"
  shows "only_lp w w' \<and> supply_of w' + unat v = supply_of w"
proof -
  have ok: "snd (burnValue a v (lp w)) = None" and w': "w' = w\<lparr>d_pair := (d_pair w)\<lparr>p_erc20 := fst (burnValue a v (lp w))\<rparr>\<rparr>"
    using assms(1) by (auto simp: pair_burnValue_def pairS_Inr case_prod_beta)
  have v: "v \<le> balanceOf (lp w) a"
    using ok by (auto simp: burnValue_def res_simps map_sub_assign_spec balanceOf_bal split: if_splits)
  have "unat (balanceOf (lp w) a) \<le> supply_of w"
    using umap.weight_le_total [of "e_balances (lp w)" unat a] assms(2)
    by (simp add: erc20_inv_total weight_bal balanceOf_bal)
  then show ?thesis
    using burn_effect(3) [OF assms(2) v] v
    by (auto simp: w' only_lp_def same_frame_def same_reserves_def pair_obs word_le_nat_alt)
qed

lemma payout_le:
  assumes "payout l b t = Inr a"
  shows "unat a * unat t \<le> unat l * unat b"
proof -
  obtain p where s: "checked_mult l b = Inr p" "checked_div p t = Inr a"
    using assms by (auto simp: payout_def bindR_eq_Inr)
  show ?thesis using checked_unat(3) [OF s(1)] checked_unat(4) [OF s(2)] by simp
qed

lemma burn_body_steps:
  assumes "burn_body sqrt to w1 = (w8, Inr (a0, a1))"
  obtains w2 w3 w4 w5 w6 b0 b1 b0' b1' f where
    "balance_in w1 (token0 w1) = Inr b0" "balance_in w1 (token1 w1) = Inr b1"
    "mintFee sqrt (reserve0 w1) (reserve1 w1) w1 = (w2, Inr f)"
    "payout (balanceOf (lp w1) (d_self w1)) b0 (totalSupply (lp w2)) = Inr a0"
    "payout (balanceOf (lp w1) (d_self w1)) b1 (totalSupply (lp w2)) = Inr a1"
    "pair_burnValue (d_self w2) (balanceOf (lp w1) (d_self w1)) w2 = (w3, Inr ())"
    "safeTransfer (token0 w3) to a0 w3 = (w4, Inr ())" "safeTransfer (token1 w4) to a1 w4 = (w5, Inr ())"
    "balance_in w5 (token0 w5) = Inr b0'" "balance_in w5 (token1 w5) = Inr b1'"
    "update_from_state b0' b1' w5 = (w6, Inr ())" "set_kLast_product f w6 = (w8, Inr ())"
  using assms by (simp add: burn_body_def bindS_Inr throwS_guard retS_Inr balanceS_Inr readS_Inr liftS_Inr) blast

text \<open>What the holders who stay have per token, after a payout of at most the burnt share.\<close>

lemma remaining_share:
  assumes "a * T2 \<le> L * b" "a \<le> b" "T' + L = T2"
  shows "b * T' \<le> (b - a) * (T2 :: nat)"
proof -
  have "b * T' + L * b = b * T2" using assms(3) by (simp add: algebra_simps flip: assms(3))
  then show ?thesis using assms(1) by (simp add: diff_mult_distrib)
qed

section \<open>A concrete pair\<close>

text \<open>
  A pair \<open>[9]\<close> over the tokens \<open>[5]\<close> and \<open>[6]\<close> that recorded the reserves \<open>r0\<close> and \<open>r1\<close> and holds the whole
  supplies \<open>b0\<close> and \<open>b1\<close> of the tokens.
\<close>

definition demo_pair :: "erc20 \<Rightarrow> uint112 \<Rightarrow> uint112 \<Rightarrow> dex_pair" where
  "demo_pair t r0 r1 = \<lparr>p_erc20 = t, p_factory = sv_new (Some 7) [8] [8], p_token0 = sv_new (Some 7) [5] [5],
     p_token1 = sv_new (Some 7) [6] [6], p_reserve0 = sv_new (Some 7) r0 r0, p_reserve1 = sv_new (Some 7) r1 r1,
     p_blockTimestampLast = sv_new (Some 7) 0 0, p_price0CumulativeLast = sv_new (Some 7) 0 0,
     p_price1CumulativeLast = sv_new (Some 7) 0 0, p_kLast = sv_new (Some 7) 0 0, p_lock = False\<rparr>"

definition demo_world :: "erc20 \<Rightarrow> uint112 \<Rightarrow> uint112 \<Rightarrow> uint256 \<Rightarrow> uint256 \<Rightarrow> dex_world" where
  "demo_world t r0 r1 b0 b1 = \<lparr>d_self = [9], d_caller = [1], d_pair = demo_pair t r0 r1,
     d_contracts = [[5] \<mapsto> DErc20 (new_committed 7 b0 [9]), [6] \<mapsto> DErc20 (new_committed 7 b1 [9])],
     d_feeTo = Inr zero_address, d_timestamp = 0\<rparr>"

lemmas demo_defs = demo_world_def demo_pair_def

lemmas run_defs = bindS_def guardedS_def retS_def throwS_def liftS_def readS_def balanceS_def balance_in_def
  getContract_def pair_obs sv_simps pairS_def checked_add_def checked_sub_def checked_mult_def checked_div_def
  checked_conv_def update_from_state_def pair_update_def accumulate_prices_def set_reserve0_def set_reserve1_def
  set_blockTimestampLast_def op_assign_def safeTransfer_def callContractFunction_def case_prod_beta Let_def

lemma demo_transfer:
  "snd (transfer [9] [1] 90 (new_committed 7 1000 [9])) = None"
  "balanceOf (fst (transfer [9] [1] 90 (new_committed 7 1000 [9]))) [9] = 910"
proof -
  have ok: "snd (transfer [9] [1] 90 (new_committed 7 1000 [9])) = None"
    using erc.xfer_ok [OF new_committed_effect(1) [of 7 1000 "[9]"], of "[9]" "[1]" 90]
    by (simp add: new_committed_effect)
  then show "snd (transfer [9] [1] 90 (new_committed 7 1000 [9])) = None"
    "balanceOf (fst (transfer [9] [1] 90 (new_committed 7 1000 [9]))) [9] = 910"
    using move_balances [of "[9]" "[1]" 90 "new_committed 7 1000 [9]" "[9]"]
    by (simp_all add: transfer_move new_committed_effect)
qed

lemma demo_swap: "snd (swap 0 90 [1] (demo_world t 1000 1000 1100 1000)) = Inr ()"
  by (simp add: swap_def swap_pay_def swap_settle_def run_defs demo_defs insufficient_liquidity_def
      SafeAddress_eq_def demo_transfer new_committed_effect amount_in_def adjusted_def k_violated_def)

text \<open>A square root for the concrete runs: \<open>isqrt n\<close> is the largest number whose square is at most \<open>n\<close>.\<close>

fun isqrt :: "nat \<Rightarrow> nat" where
  "isqrt 0 = 0"
| "isqrt (Suc n) = (let r = isqrt n in if Suc r * Suc r \<le> Suc n then Suc r else r)"

definition isqrt256 :: "uint256 \<Rightarrow> uint256" where
  "isqrt256 x = of_nat (isqrt (unat x))"

lemma isqrt_square: "isqrt n * isqrt n \<le> n \<and> n < Suc (isqrt n) * Suc (isqrt n)"
  by (induction n) (auto simp: Let_def)

lemma isqrt_unique:
  assumes "r * r \<le> n" "n < Suc r * Suc r"
  shows "isqrt n = r"
proof (rule ccontr)
  let ?s = "isqrt n"
  assume "?s \<noteq> r"
  then have "Suc ?s * Suc ?s \<le> r * r \<or> Suc r * Suc r \<le> ?s * ?s"
    by (cases "?s < r") (blast intro: mult_le_mono Suc_leI le_neq_implies_less leI)+
  then show False using isqrt_square [of n] assms by linarith
qed

lemma isqrt256_floor: "unat (isqrt256 x) * unat (isqrt256 x) \<le> unat x"
proof -
  have "isqrt (unat x) \<le> unat x" using isqrt_square [of "unat x"] by (cases "isqrt (unat x)") auto
  then have "isqrt (unat x) < 2 ^ 256" using unat_bound [of x] by simp
  then show ?thesis using isqrt_square [of "unat x"] by (simp add: isqrt256_def unat_of_nat)
qed

lemma demo_root: "isqrt256 16000000 = 4000"
  using isqrt_unique [of 4000 16000000] by (simp add: isqrt256_def)

lemma zero_address_off: "\<not> list_ex (\<lambda>b. b \<noteq> 0) zero_address"
  by (simp add: zero_address_def list_ex_iff)

lemma demo_mint: "snd (mint isqrt256 [1] (demo_world (new_committed 7 0 [1]) 0 0 4000 4000)) = Inr 3000"
proof -
  let ?t = "new_committed 7 0 [1]"
  have ok: "snd (mintValue zero_address 1000 ?t) = None"
    using mint_ok_iff [OF new_committed_effect(1) [of 7 0 "[1]"]] by (simp add: new_committed_effect)
  let ?t1 = "fst (mintValue zero_address 1000 ?t)"
  have ok1: "snd (mintValue [1] 3000 ?t1) = None"
    using mint_ok_iff [OF mint_effect(1) [OF new_committed_effect(1) ok]]
      mint_effect(2) [OF new_committed_effect(1) ok] by (simp add: new_committed_effect)
  show ?thesis
    by (simp add: mint_def mint_body_def run_defs demo_defs mintFee_def mint_liquidity_def pair_mintValue_def ok ok1
        new_committed_effect set_kLast_product_def MINIMUM_LIQUIDITY_def demo_root zero_address_off)
qed

lemma demo_burn:
  assumes t: "erc20_inv t" "totalSupply t = 4000" "balanceOf t [9] = 1000"
  shows "snd (burn isqrt256 [1] (demo_world t 4000 4000 4000 4000)) = Inr (1000, 1000)"
proof -
  let ?c = "new_committed 7 4000 [9]"
  have ok: "snd (burnValue [9] 1000 t) = None" using burn_effect(1) [OF t(1), of 1000 "[9]"] t(3) by simp
  have tr: "snd (transfer [9] [1] 1000 ?c) = None" "balanceOf (fst (transfer [9] [1] 1000 ?c)) [9] = 3000"
    using move_ok_iff [of "[9]" "[1]" 1000 ?c] move_balances [of "[9]" "[1]" 1000 ?c "[9]"]
    by (simp_all add: transfer_move new_committed_effect)
  show ?thesis
    by (simp add: burn_def burn_body_def run_defs demo_defs mintFee_def pair_burnValue_def ok t payout_def tr
        new_committed_effect set_kLast_product_def zero_address_off)
qed

section \<open>Properties\<close>

text \<open>
  C3. A swap that succeeds never lowers the product of the reserves, and leaves the reserves equal
  to the two token balances of the pair, whatever tokens the caller took out or put in.
\<close>

theorem swap_keeps_product:
  assumes "swap amount0Out amount1Out to w = (w', Inr ())"
  shows "unat (reserve0 w) * unat (reserve1 w) \<le> unat (reserve0 w') * unat (reserve1 w') \<and>
    balance_in w' (token0 w) = Inr (ucast (reserve0 w')) \<and>
    balance_in w' (token1 w) = Inr (ucast (reserve1 w')) \<and> \<not> p_lock (d_pair w')"
proof -
  obtain w1 w2 w3 where w1: "w1 = w\<lparr>d_pair := (d_pair w)\<lparr>p_lock := True\<rparr>\<rparr>"
    and pay: "swap_pay amount0Out amount1Out to w1 = (w2, Inr ())"
    and settle: "swap_settle amount0Out amount1Out w2 = (w3, Inr ())"
    and w': "w' = w3\<lparr>d_pair := (d_pair w3)\<lparr>p_lock := False\<rparr>\<rparr>"
    using assms unfolding swap_def
    by (elim guardedS_Inr) (auto simp: bindS_Inr throwS_Inr readS_Inr split: if_splits)
  have f: "reserve0 w2 = reserve0 w" "reserve1 w2 = reserve1 w" "token0 w2 = token0 w" "token1 w2 = token1 w"
    using swap_pay_frame [OF pay] by (simp_all add: w1 pair_obs)
  obtain b0 b1 where b: "balance_in w2 (token0 w) = Inr b0" "balance_in w2 (token1 w) = Inr b1"
    and le: "unat (reserve0 w) * unat (reserve1 w) \<le> unat b0 * unat b1"
    and u: "update_from_state b0 b1 w2 = (w3, Inr ())"
    using swap_settle_ok [OF settle] f by auto
  note eff = update_from_state_effect [OF u]
  have "balance_in w' = balance_in w2" using eff(1,2) by (intro balance_in_cong) (simp_all add: w' same_frame_def)
  then show ?thesis using eff(4,5) le b ucast_eqI [OF eff(4)] ucast_eqI [OF eff(5)] by (simp add: w')
qed

theorem swap_keeps_product_witness:
  "\<exists>w'. swap 0 90 [1] (demo_world (new_committed 7 0 [1]) 1000 1000 1100 1000) = (w', Inr ()) \<and>
    1000000 \<le> unat (reserve0 w') * unat (reserve1 w')"
proof -
  let ?w = "demo_world (new_committed 7 0 [1]) 1000 1000 1100 1000"
  have run: "swap 0 90 [1] ?w = (fst (swap 0 90 [1] ?w), Inr ())" by (simp add: demo_swap prod_eq_iff)
  have "unat (reserve0 ?w) * unat (reserve1 ?w) = 1000000" by (simp add: demo_defs pair_obs sv_simps)
  then show ?thesis using run swap_keeps_product [OF run] by metis
qed





end
