(* ===== verification/Db.thy ===== *)
theory Db
  imports Strings
begin

text \<open>
  The database wrapper (\<^verbatim>\<open>utils/db.h\<close>, \<^verbatim>\<open>utils/db.cpp\<close>) over Speedb/RocksDB. The store of the library is a parameter:
  a record of its three operations that the wrapper uses. \<open>rk_seek\<close> gives the entries an iterator visits from the first
  key that is not below the given one; \<open>rocks_ok\<close> names what the library documents of it.
\<close>

section \<open>The library\<close>

record 'd rocks =
  rk_seek :: "'d \<Rightarrow> bytes \<Rightarrow> (bytes \<times> bytes) list"
  rk_put :: "'d \<Rightarrow> bytes \<Rightarrow> bytes \<Rightarrow> 'd"
  rk_delete :: "'d \<Rightarrow> bytes \<Rightarrow> 'd"

definition rocks_ok :: "'d rocks \<Rightarrow> bool" where
  "rocks_ok R \<longleftrightarrow> (\<forall>d. sorted_wrt addr_less (map fst (rk_seek R d []))) \<and>
     (\<forall>d k. rk_seek R d k = dropWhile (\<lambda>e. addr_less (fst e) k) (rk_seek R d [])) \<and>
     (\<forall>d k v. map_of (rk_seek R (rk_put R d k v) []) = (map_of (rk_seek R d []))(k \<mapsto> v)) \<and>
     (\<forall>d k. map_of (rk_seek R (rk_delete R d k) []) = (map_of (rk_seek R d []))(k := None))"

section \<open>The wrapper\<close>

definition pfx_blocks :: bytes where "pfx_blocks = [0, 1]"
definition pfx_blockHeightMaps :: bytes where "pfx_blockHeightMaps = [0, 2]"
definition pfx_nativeAccounts :: bytes where "pfx_nativeAccounts = [0, 3]"
definition pfx_txToBlocks :: bytes where "pfx_txToBlocks = [0, 4]"
definition pfx_rdPoS :: bytes where "pfx_rdPoS = [0, 5]"

definition DB_has :: "'d rocks \<Rightarrow> 'd \<Rightarrow> bytes \<Rightarrow> bytes \<Rightarrow> bool" where
  "DB_has R d key pfx = list_ex (\<lambda>e. fst e = pfx @ key) (rk_seek R d (pfx @ key))"

definition DB_get :: "'d rocks \<Rightarrow> 'd \<Rightarrow> bytes \<Rightarrow> bytes \<Rightarrow> bytes" where
  "DB_get R d key pfx =
     (case find (\<lambda>e. fst e = pfx @ key) (rk_seek R d (pfx @ key)) of None \<Rightarrow> [] | Some e \<Rightarrow> snd e)"

definition DB_put :: "'d rocks \<Rightarrow> bytes \<Rightarrow> bytes \<Rightarrow> bytes \<Rightarrow> 'd \<Rightarrow> 'd" where
  "DB_put R key value pfx d = rk_put R d (pfx @ key) value"

definition DB_del :: "'d rocks \<Rightarrow> bytes \<Rightarrow> bytes \<Rightarrow> 'd \<Rightarrow> 'd" where
  "DB_del R key pfx d = rk_delete R d (pfx @ key)"

record db_batch =
  bt_puts :: "(bytes \<times> bytes) list"
  bt_dels :: "bytes list"

definition Batch_new :: db_batch where
  "Batch_new = \<lparr>bt_puts = [], bt_dels = []\<rparr>"

definition Batch_push_back :: "bytes \<Rightarrow> bytes \<Rightarrow> bytes \<Rightarrow> db_batch \<Rightarrow> db_batch" where
  "Batch_push_back key value pfx bt = bt\<lparr>bt_puts := bt_puts bt @ [(pfx @ key, value)]\<rparr>"

definition Batch_delete_key :: "bytes \<Rightarrow> bytes \<Rightarrow> db_batch \<Rightarrow> db_batch" where
  "Batch_delete_key key pfx bt = bt\<lparr>bt_dels := bt_dels bt @ [pfx @ key]\<rparr>"

definition DB_putBatch :: "'d rocks \<Rightarrow> db_batch \<Rightarrow> 'd \<Rightarrow> 'd" where
  "DB_putBatch R bt d =
     foldl (\<lambda>d e. rk_put R d (fst e) (snd e)) (foldl (\<lambda>d k. rk_delete R d k) d (bt_dels bt)) (bt_puts bt)"

definition DB_getBatch :: "'d rocks \<Rightarrow> 'd \<Rightarrow> bytes \<Rightarrow> bytes list \<Rightarrow> (bytes \<times> bytes) list" where
  "DB_getBatch R d pfx keys =
     (let found = map (\<lambda>e. (drop (length pfx) (fst e), snd e)) (filter (\<lambda>e. take (length pfx) (fst e) = pfx) (rk_seek R d pfx)) in
      if keys = [] then found
      else concat (map (\<lambda>e. map (\<lambda>_. e) (filter (\<lambda>k. fst e = k) keys)) found))"

section \<open>Lemmas\<close>

text \<open>The contents as a map from full keys.\<close>

definition contents :: "'d rocks \<Rightarrow> 'd \<Rightarrow> bytes \<rightharpoonup> bytes" where
  "contents R d = map_of (rk_seek R d [])"

lemma rocks_laws:
  assumes "rocks_ok R"
  shows "sorted_wrt addr_less (map fst (rk_seek R d []))"
    "rk_seek R d k = dropWhile (\<lambda>e. addr_less (fst e) k) (rk_seek R d [])"
    "contents R (rk_put R d k v) = (contents R d)(k \<mapsto> v)" "contents R (rk_delete R d k) = (contents R d)(k := None)"
  using assms unfolding rocks_ok_def contents_def by blast+

lemma addr_less_irrefl [simp]: "\<not> addr_less a a"
  using addr_less_antisym by blast

lemma sorted_keys_distinct: "sorted_wrt addr_less ks \<Longrightarrow> distinct ks"
  by (induction ks) auto

text \<open>Entries that the iterator skips are below the key, so what it finds is the entry of the key.\<close>

lemma find_after_seek:
  assumes "rocks_ok R"
  shows "find (\<lambda>e. fst e = k) (rk_seek R d k) = map_option (Pair k) (contents R d k)"
proof -
  have all: "find (\<lambda>e. fst e = k) es = map_option (Pair k) (map_of es k)" for es :: "(bytes \<times> bytes) list"
    by (induction es) auto
  have *: "find (\<lambda>e. fst e = k) (dropWhile (\<lambda>e. addr_less (fst e) k) es) = map_option (Pair k) (map_of es k)"
    for es :: "(bytes \<times> bytes) list"
    by (induction es) (auto simp: all)
  show ?thesis unfolding rocks_laws(2) [OF assms, of d k] contents_def by (rule *)
qed

lemma DB_has_iff: "rocks_ok R \<Longrightarrow> DB_has R d key pfx \<longleftrightarrow> contents R d (pfx @ key) \<noteq> None"
proof -
  assume "rocks_ok R"
  have "DB_has R d key pfx \<longleftrightarrow> find (\<lambda>e. fst e = pfx @ key) (rk_seek R d (pfx @ key)) \<noteq> None"
    by (force simp: DB_has_def list_ex_iff find_None_iff)
  then show ?thesis using find_after_seek [OF \<open>rocks_ok R\<close>, of "pfx @ key" d] by simp
qed

lemma DB_get_eq: "rocks_ok R \<Longrightarrow> DB_get R d key pfx = (case contents R d (pfx @ key) of None \<Rightarrow> [] | Some v \<Rightarrow> v)"
  by (simp add: DB_get_def find_after_seek split: option.split)

lemma contents_putBatch:
  "rocks_ok R \<Longrightarrow> contents R (DB_putBatch R bt d) = ((contents R d) |` (- set (bt_dels bt))) ++ map_of (rev (bt_puts bt))"
proof -
  assume R: "rocks_ok R"
  have dels: "contents R (foldl (\<lambda>d k. rk_delete R d k) d ks) = (contents R d) |` (- set ks)" for d ks
    by (induction ks arbitrary: d) (auto simp: rocks_laws(4) [OF R] restrict_map_def fun_eq_iff)
  have puts: "contents R (foldl (\<lambda>d e. rk_put R d (fst e) (snd e)) d es) = contents R d ++ map_of (rev es)" for d es
    by (induction es arbitrary: d) (auto simp: rocks_laws(3) [OF R] map_add_def fun_eq_iff split: option.splits)
  show ?thesis by (simp add: DB_putBatch_def dels puts)
qed

text \<open>All entries below a prefix, with the prefix removed.\<close>

lemma getBatch_entries:
  assumes R: "rocks_ok R"
  shows "set (DB_getBatch R d pfx []) = {(k, v). contents R d (pfx @ k) = Some v}" "distinct (map fst (DB_getBatch R d pfx []))"
proof -
  let ?es = "rk_seek R d []"
  have dist: "distinct (map fst ?es)" by (rule sorted_keys_distinct [OF rocks_laws(1) [OF R]])
  have below: "take (length p) k \<noteq> p" if "addr_less k p" for k p
    using that by (induction k p rule: addr_less.induct) (auto split: if_splits)
  have skip: "filter (\<lambda>e. take (length pfx) (fst e) = pfx) (dropWhile (\<lambda>e. addr_less (fst e) pfx) es) =
      filter (\<lambda>e. take (length pfx) (fst e) = pfx) es" for es :: "(bytes \<times> bytes) list"
    by (induction es) (auto simp: below)
  have batch: "DB_getBatch R d pfx [] = map (\<lambda>e. (drop (length pfx) (fst e), snd e)) (filter (\<lambda>e. take (length pfx) (fst e) = pfx) ?es)"
    unfolding DB_getBatch_def rocks_laws(2) [OF R, of d pfx] skip by simp
  show "set (DB_getBatch R d pfx []) = {(k, v). contents R d (pfx @ k) = Some v}"
  proof (intro set_eqI iffI)
    fix e assume "e \<in> set (DB_getBatch R d pfx [])"
    then obtain k v where "(k, v) \<in> set ?es" "take (length pfx) k = pfx" "e = (drop (length pfx) k, v)"
      unfolding batch by auto
    then show "e \<in> {(k, v). contents R d (pfx @ k) = Some v}"
      using append_take_drop_id [of "length pfx" k] dist by (auto simp: contents_def)
  next
    fix e assume "e \<in> {(k, v). contents R d (pfx @ k) = Some v}"
    then obtain k v where "(pfx @ k, v) \<in> set ?es" "e = (k, v)" by (auto simp: contents_def dest: map_of_SomeD)
    then show "e \<in> set (DB_getBatch R d pfx [])" unfolding batch by force
  qed
  have "inj_on (drop (length pfx)) {k. take (length pfx) k = pfx}"
    by (rule inj_onI) (metis append_take_drop_id mem_Collect_eq)
  moreover have "distinct (map fst (filter (\<lambda>e. take (length pfx) (fst e) = pfx) ?es))"
    using dist by (rule distinct_map_filter)
  ultimately have "distinct (map (drop (length pfx)) (map fst (filter (\<lambda>e. take (length pfx) (fst e) = pfx) ?es)))"
    by (subst distinct_map) (auto intro: inj_on_subset)
  then show "distinct (map fst (DB_getBatch R d pfx []))" unfolding batch by (simp add: comp_def)
qed

section \<open>Properties\<close>

text \<open>
  C37. Over a store that behaves as documented the wrapper is a map from prefixes and keys: for prefixes of one length a
  \<open>put\<close> or \<open>del\<close> changes what \<open>has\<close> and \<open>get\<close> see of its own prefix and key only, and \<open>getBatch\<close> returns exactly the
  entries of its prefix, each once.
\<close>

theorem DB_refines_map:
  assumes R: "rocks_ok R" and len: "length pfx = length pfx'"
  shows "DB_get R (DB_put R k v pfx d) k' pfx' = (if pfx = pfx' \<and> k = k' then v else DB_get R d k' pfx') \<and>
    DB_has R (DB_put R k v pfx d) k' pfx' = (pfx = pfx' \<and> k = k' \<or> DB_has R d k' pfx') \<and>
    DB_get R (DB_del R k pfx d) k' pfx' = (if pfx = pfx' \<and> k = k' then [] else DB_get R d k' pfx') \<and>
    DB_has R (DB_del R k pfx d) k' pfx' = (\<not> (pfx = pfx' \<and> k = k') \<and> DB_has R d k' pfx') \<and>
    ((k', v') \<in> set (DB_getBatch R d pfx' []) \<longleftrightarrow> DB_has R d k' pfx' \<and> DB_get R d k' pfx' = v') \<and>
    distinct (map fst (DB_getBatch R d pfx' []))"
  using len getBatch_entries [OF R, of d pfx']
  by (auto simp: DB_get_eq [OF R] DB_has_iff [OF R] DB_put_def DB_del_def rocks_laws(3,4) [OF R] split: option.splits)

section \<open>Witnesses\<close>

text \<open>A log of updates that is sorted when it is read is such a store.\<close>

fun sl_put :: "(bytes \<times> bytes) list \<Rightarrow> bytes \<Rightarrow> bytes \<Rightarrow> (bytes \<times> bytes) list" where
  "sl_put [] k v = [(k, v)]"
| "sl_put (e # es) k v = (if addr_less k (fst e) then (k, v) # e # es
     else if fst e = k then (k, v) # es else e # sl_put es k v)"

definition sl_sort :: "(bytes \<times> bytes) list \<Rightarrow> (bytes \<times> bytes) list" where
  "sl_sort d = foldr (\<lambda>e m. sl_put m (fst e) (snd e)) d []"

definition sl_rocks :: "(bytes \<times> bytes) list rocks" where
  "sl_rocks = \<lparr>rk_seek = (\<lambda>d k. dropWhile (\<lambda>e. addr_less (fst e) k) (sl_sort d)), rk_put = (\<lambda>d k v. (k, v) # d),
     rk_delete = (\<lambda>d k. filter (\<lambda>e. fst e \<noteq> k) d)\<rparr>"

lemma addr_less_linear: "a \<noteq> b \<Longrightarrow> addr_less a b \<or> addr_less b a"
  by (induction a b rule: addr_less.induct) auto

lemma addr_less_transitive: "addr_less a b \<Longrightarrow> addr_less b c \<Longrightarrow> addr_less a c"
proof (induction a b arbitrary: c rule: addr_less.induct)
  case (3 x xs y ys)
  then show ?case by (cases c) (auto split: if_splits)
qed auto

lemma sl_put_sorted: "sorted_wrt addr_less (map fst es) \<Longrightarrow> sorted_wrt addr_less (map fst (sl_put es k v))"
proof (induction es)
  case (Cons e es)
  have keys: "fst ` set (sl_put es k v) \<subseteq> insert k (fst ` set es)" by (induction es) auto
  have le: "\<forall>y\<in>fst ` set es. addr_less (fst e) y" using Cons.prems by simp
  consider "addr_less k (fst e)" | "fst e = k" | "\<not> addr_less k (fst e)" "fst e \<noteq> k" "addr_less (fst e) k"
    using addr_less_linear [of k "fst e"] by auto
  then show ?case
  proof cases
    case 1
    then have "\<forall>y\<in>fst ` set es. addr_less k y" using le addr_less_transitive by blast
    then show ?thesis using 1 Cons.prems by simp
  next
    case 3
    then have "\<forall>y\<in>fst ` set (sl_put es k v). addr_less (fst e) y" using keys le by blast
    then show ?thesis using 3 Cons by simp
  qed (use Cons.prems in simp)
qed simp

lemma map_of_sl_put: "sorted_wrt addr_less (map fst es) \<Longrightarrow> map_of (sl_put es k v) = (map_of es)(k \<mapsto> v)"
  by (induction es) (auto simp: fun_eq_iff)

lemma sl_sort_laws: "sorted_wrt addr_less (map fst (sl_sort d))" "map_of (sl_sort d) = map_of d"
proof -
  have "sorted_wrt addr_less (map fst (sl_sort d)) \<and> map_of (sl_sort d) = map_of d"
    by (induction d) (auto simp: sl_sort_def sl_put_sorted map_of_sl_put)
  then show "sorted_wrt addr_less (map fst (sl_sort d))" "map_of (sl_sort d) = map_of d" by simp_all
qed

lemma sl_rocks_ok: "rocks_ok sl_rocks"
proof -
  have "map_of (filter (\<lambda>e. fst e \<noteq> k) d) = (map_of d)(k := None)" for d :: "(bytes \<times> bytes) list" and k
    by (induction d) (auto simp: fun_eq_iff)
  then show ?thesis by (simp add: rocks_ok_def sl_rocks_def sl_sort_laws)
qed

theorem DB_refines_map_witness:
  "DB_get sl_rocks (DB_put sl_rocks [7] [1, 2] pfx_blocks []) [7] pfx_blocks = [1, 2]"
  using DB_refines_map [OF sl_rocks_ok, of pfx_blocks pfx_blocks "[7]" "[1, 2]" "[]" "[7]"] by simp

end
