(* ===== verification/Factory.thy ===== *)
theory Factory
  imports Dex SafeScalars SafeVector SafeUnorderedMap Db
begin

text \<open>
  The factory of the exchange (\<^verbatim>\<open>contract/dexv2/dexv2factory.cpp\<close>): the registry of pairs and the receiver of the fees. The
  replies of the calls that create and initialize a pair contract are arguments of \<open>createPair\<close>, since they run in the
  contract manager and in the new contract.
\<close>

section \<open>State\<close>

record factory =
  fa_feeTo :: "Address safe_var"
  fa_feeToSetter :: "Address safe_var"
  fa_allPairs :: "Address safe_vec"
  fa_getPair :: "(Address, Address \<rightharpoonup> Address) safe_map"

section \<open>Operations\<close>

definition factory_new :: "nat option \<Rightarrow> Address \<Rightarrow> factory" where
  "factory_new owner setter =
     \<lparr>fa_feeTo = SafeAddress_new owner zero_address,
      fa_feeToSetter = SafeAddress_commit (SafeAddress_assign (SafeAddress_new owner zero_address) setter),
      fa_allPairs = sx_new owner, fa_getPair = um_new owner Map.empty\<rparr>"

definition factory_feeTo :: "factory \<Rightarrow> Address" where
  "factory_feeTo f = SafeAddress_get (fa_feeTo f)"

definition factory_feeToSetter :: "factory \<Rightarrow> Address" where
  "factory_feeToSetter f = SafeAddress_get (fa_feeToSetter f)"

text \<open>\<open>get\<close> of a safe vector is the committed vector, its size and elements are those of the transaction.\<close>

definition allPairs :: "factory \<Rightarrow> Address list" where
  "allPairs f = sx_vector (fa_allPairs f)"

definition allPairsLength :: "factory \<Rightarrow> nat" where
  "allPairsLength f = sx_size (fa_allPairs f)"

definition getPair :: "Address \<Rightarrow> Address \<Rightarrow> factory \<Rightarrow> Address" where
  "getPair tokenA tokenB f =
     (case um_find_const (fa_getPair f) tokenA of
        None \<Rightarrow> zero_address
      | Some m \<Rightarrow> (case m tokenB of None \<Rightarrow> zero_address | Some p \<Rightarrow> p))"

definition getPairByIndex :: "nat \<Rightarrow> factory \<Rightarrow> Address res" where
  "getPairByIndex index f =
     (if index \<ge> sx_size (fa_allPairs f) then Inr zero_address else sx_at_const (fa_allPairs f) index)"

text \<open>\<^verbatim>\<open>getPair_[a][b] = pair\<close>.\<close>

definition set_pair :: "Address \<Rightarrow> Address \<Rightarrow> Address \<Rightarrow> factory \<Rightarrow> factory" where
  "set_pair a b pair f =
     f\<lparr>fa_getPair := um_index_assign Map.empty (fa_getPair f) a ((snd (um_index Map.empty (fa_getPair f) a))(b \<mapsto> pair))\<rparr>"

definition createPair :: "Address res \<Rightarrow> (Address \<Rightarrow> Address \<Rightarrow> Address \<Rightarrow> unit res) \<Rightarrow> Address \<Rightarrow> Address \<Rightarrow> (factory, Address) sres" where
  "createPair created initialized tokenA tokenB f =
     (if tokenA = tokenB then (f, Inl (RuntimeError ''DEXV2Factory::createPair: IDENTICAL_ADDRESSES''))
      else let token0 = (if addr_less tokenA tokenB then tokenA else tokenB);
               token1 = (if addr_less tokenA tokenB then tokenB else tokenA) in
        if token0 = zero_address then (f, Inl (RuntimeError ''DEXV2Factory::createPair: ZERO_ADDRESS''))
        else if getPair token0 token1 f \<noteq> zero_address then (f, Inl (RuntimeError ''DEXV2Factory::createPair: PAIR_EXISTS''))
        else case bindR created (\<lambda>pair. bindR (initialized pair token0 token1) (\<lambda>_. Inr pair)) of
            Inl e \<Rightarrow> (f, Inl e)
          | Inr pair \<Rightarrow>
              (let f1 = set_pair token1 token0 pair (set_pair token0 token1 pair f) in
               (f1\<lparr>fa_allPairs := sx_push_back (fa_allPairs f1) pair\<rparr>, Inr pair)))"

definition setFeeTo :: "Address \<Rightarrow> factory \<Rightarrow> factory" where
  "setFeeTo a f = f\<lparr>fa_feeTo := SafeAddress_assign (fa_feeTo f) a\<rparr>"

definition setFeeToSetter :: "Address \<Rightarrow> factory \<Rightarrow> factory" where
  "setFeeToSetter a f = f\<lparr>fa_feeToSetter := SafeAddress_assign (fa_feeToSetter f) a\<rparr>"

text \<open>
  The destructor and the loading constructor for the two containers: \<open>entries\<close> are the entries of the committed map in
  the order of the iteration, \<open>pfx\<close> is the prefix of the contract. The index of the first loop is never incremented.
\<close>

definition save_pairs :: "bytes \<Rightarrow> Address list \<Rightarrow> (Address \<times> Address \<times> Address) list \<Rightarrow> db_batch \<Rightarrow> db_batch" where
  "save_pairs pfx pairs entries bt =
     foldl (\<lambda>bt (tokenA, tokenB, pair). Batch_push_back tokenA (tokenB @ pair) (pfx @ map of_char ''getPair_'') bt)
       (foldl (\<lambda>bt address. Batch_push_back (uint32ToBytes 0) address (pfx @ map of_char ''allPairs_'') bt) bt pairs) entries"

definition load_allPairs :: "'d rocks \<Rightarrow> bytes \<Rightarrow> 'd \<Rightarrow> Address list" where
  "load_allPairs R pfx d = map snd (DB_getBatch R d (pfx @ map of_char ''allPairs_'') [])"

fun load_getPair :: "(bytes \<times> bytes) list \<Rightarrow> (Address \<rightharpoonup> (Address \<rightharpoonup> Address)) \<Rightarrow> (Address \<rightharpoonup> (Address \<rightharpoonup> Address)) res" where
  "load_getPair [] m = Inr m"
| "load_getPair ((key, value) # es) m =
     bindR (subspan value 0 20) (\<lambda>tokenB. bindR (subspan_from value 20) (\<lambda>pair.
     load_getPair es (m(key \<mapsto> (case m key of None \<Rightarrow> Map.empty | Some n \<Rightarrow> n)(tokenB \<mapsto> pair)))))"

section \<open>Lemmas\<close>

text \<open>What the registry promises of its table and its list of pairs.\<close>

definition pair_of :: "(Address \<rightharpoonup> (Address \<rightharpoonup> Address)) \<Rightarrow> Address \<Rightarrow> Address \<Rightarrow> Address" where
  "pair_of m a b = (case m a of None \<Rightarrow> zero_address | Some n \<Rightarrow> (case n b of None \<Rightarrow> zero_address | Some p \<Rightarrow> p))"

definition pairs_ok :: "(Address \<rightharpoonup> (Address \<rightharpoonup> Address)) \<Rightarrow> Address list \<Rightarrow> bool" where
  "pairs_ok m l \<longleftrightarrow> (\<forall>a b. pair_of m a b = pair_of m b a) \<and> (\<forall>a. pair_of m a a = zero_address) \<and>
     (\<forall>a b. pair_of m a b \<noteq> zero_address \<longrightarrow> pair_of m a b \<in> set l) \<and>
     (\<forall>a b c d. pair_of m a b \<noteq> zero_address \<longrightarrow> pair_of m a b = pair_of m c d \<longrightarrow> {a, b} = {c, d}) \<and>
     (\<forall>p\<in>set l. p \<noteq> zero_address \<and> (\<exists>a b. pair_of m a b = p)) \<and> distinct l"

definition factory_inv :: "factory \<Rightarrow> bool" where
  "factory_inv f \<longleftrightarrow> um_erased (fa_getPair f) = {} \<and> sx_wf (fa_allPairs f) \<and> length (sx_vector (fa_allPairs f)) < 2 ^ 64 \<and>
     pairs_ok (um_view (fa_getPair f)) (sx_view (fa_allPairs f)) \<and> pairs_ok (um_map (fa_getPair f)) (sx_vector (fa_allPairs f))"

text \<open>The end of a transaction, which the contract manager runs over the variables.\<close>

definition factory_commit :: "factory \<Rightarrow> factory" where
  "factory_commit f = f\<lparr>fa_feeTo := SafeAddress_commit (fa_feeTo f), fa_feeToSetter := SafeAddress_commit (fa_feeToSetter f),
     fa_allPairs := sx_commit (fa_allPairs f), fa_getPair := um_commit (fa_getPair f)\<rparr>"

definition factory_revert :: "factory \<Rightarrow> factory" where
  "factory_revert f = f\<lparr>fa_feeTo := SafeAddress_revert (fa_feeTo f), fa_feeToSetter := SafeAddress_revert (fa_feeToSetter f),
     fa_allPairs := sx_revert (fa_allPairs f), fa_getPair := um_revert (fa_getPair f)\<rparr>"

text \<open>
  Runs of the factory: a created pair has a new nonzero address, and there are fewer than \<open>2 ^ 64 - 1\<close> pairs.
\<close>

inductive factory_run :: "factory \<Rightarrow> bool" where
  new: "factory_run (factory_new owner setter)"
| create: "factory_run f \<Longrightarrow> created = Inr pair \<Longrightarrow> pair \<noteq> zero_address \<Longrightarrow> pair \<notin> set (sx_view (fa_allPairs f)) \<Longrightarrow>
    length (sx_view (fa_allPairs f)) < 2 ^ 64 - 1 \<Longrightarrow> factory_run (fst (createPair created initialized tokenA tokenB f))"
| failed: "factory_run f \<Longrightarrow> factory_run (fst (createPair (Inl e) initialized tokenA tokenB f))"
| feeTo: "factory_run f \<Longrightarrow> factory_run (setFeeTo a f)"
| feeToSetter: "factory_run f \<Longrightarrow> factory_run (setFeeToSetter a f)"
| commit: "factory_run f \<Longrightarrow> factory_run (factory_commit f)"
| revert: "factory_run f \<Longrightarrow> factory_run (factory_revert f)"

lemma getPair_view: "getPair a b f = pair_of (um_view (fa_getPair f)) a b"
  by (simp add: getPair_def pair_of_def um_find_const_def um_simps)

lemma set_pair_obs: "um_view (fa_getPair (set_pair a b p f)) = (um_view (fa_getPair f))(a \<mapsto> (case um_view (fa_getPair f) a of None \<Rightarrow> Map.empty | Some n \<Rightarrow> n)(b \<mapsto> p))"
    "um_map (fa_getPair (set_pair a b p f)) = um_map (fa_getPair f)" "um_erased (fa_getPair (set_pair a b p f)) = um_erased (fa_getPair f)"
    "fa_allPairs (set_pair a b p f) = fa_allPairs f"
  by (simp_all add: set_pair_def um_simps)

lemma pair_of_set: "pair_of (m(a \<mapsto> (case m a of None \<Rightarrow> Map.empty | Some n \<Rightarrow> n)(b \<mapsto> p))) x y = (if x = a \<and> y = b then p else pair_of m x y)"
  by (auto simp: pair_of_def split: option.splits)

lemma pair_of_set_pair: "pair_of (um_view (fa_getPair (set_pair a b p f))) x y = (if x = a \<and> y = b then p else pair_of (um_view (fa_getPair f)) x y)"
  unfolding set_pair_obs(1) by (rule pair_of_set)

lemma pair_of_both: "pair_of (um_view (fa_getPair (set_pair b a p (set_pair a b p f)))) x y = (if {x, y} = {a, b} then p else pair_of (um_view (fa_getPair f)) x y)"
  unfolding pair_of_set_pair doubleton_eq_iff by argo

lemma pairs_okI:
  assumes "\<And>a b. pair_of m a b = pair_of m b a" "\<And>a. pair_of m a a = zero_address"
    "\<And>a b. pair_of m a b \<noteq> zero_address \<Longrightarrow> pair_of m a b \<in> set l"
    "\<And>a b c d. pair_of m a b \<noteq> zero_address \<Longrightarrow> pair_of m a b = pair_of m c d \<Longrightarrow> {a, b} = {c, d}"
    "\<And>p. p \<in> set l \<Longrightarrow> p \<noteq> zero_address \<and> (\<exists>a b. pair_of m a b = p)" "distinct l"
  shows "pairs_ok m l"
  unfolding pairs_ok_def using assms by blast

lemma pairs_okD:
  assumes "pairs_ok m l"
  shows "pair_of m a b = pair_of m b a" "pair_of m a a = zero_address" "pair_of m a b \<noteq> zero_address \<Longrightarrow> pair_of m a b \<in> set l"
    "pair_of m a b \<noteq> zero_address \<Longrightarrow> pair_of m a b = pair_of m c d \<Longrightarrow> {a, b} = {c, d}"
    "p \<in> set l \<Longrightarrow> p \<noteq> zero_address" "p \<in> set l \<Longrightarrow> \<exists>a b. pair_of m a b = p" "distinct l"
proof -
  note 1 = assms [unfolded pairs_ok_def] note 2 = 1 [THEN conjunct2] note 3 = 2 [THEN conjunct2] note 4 = 3 [THEN conjunct2] note 5 = 4 [THEN conjunct2]
  show "pair_of m a b = pair_of m b a" by (rule 1 [THEN conjunct1, rule_format])
  show "pair_of m a a = zero_address" by (rule 2 [THEN conjunct1, rule_format])
  show "pair_of m a b \<noteq> zero_address \<Longrightarrow> pair_of m a b \<in> set l" by (rule 3 [THEN conjunct1, rule_format])
  show "pair_of m a b \<noteq> zero_address \<Longrightarrow> pair_of m a b = pair_of m c d \<Longrightarrow> {a, b} = {c, d}" by (rule 4 [THEN conjunct1, rule_format])
  show "p \<in> set l \<Longrightarrow> p \<noteq> zero_address" "p \<in> set l \<Longrightarrow> \<exists>a b. pair_of m a b = p" using 5 [THEN conjunct1] by simp_all
  show "distinct l" by (rule 5 [THEN conjunct2])
qed

lemma pairs_ok_add:
  assumes ok: "pairs_ok m l" and p: "p \<noteq> zero_address" "p \<notin> set l" and new: "a \<noteq> b" "pair_of m a b = zero_address"
    and eq: "\<And>x y. pair_of m' x y = (if {x, y} = {a, b} then p else pair_of m x y)"
  shows "pairs_ok m' (l @ [p])"
proof (rule pairs_okI)
  have old: "pair_of m x y \<noteq> p" for x y using pairs_okD(3) [OF ok, of x y] p by metis
  have hit: "{x, y} = {a, b} \<Longrightarrow> pair_of m' x y = p" and miss: "{x, y} \<noteq> {a, b} \<Longrightarrow> pair_of m' x y = pair_of m x y" for x y by (simp_all add: eq)
  show "pair_of m' x y = pair_of m' y x" for x y using pairs_okD(1) [OF ok, of x y] by (simp add: eq insert_commute)
  show "pair_of m' x x = zero_address" for x using new(1) pairs_okD(2) [OF ok, of x] miss [of x x] by auto
  show "pair_of m' x y \<in> set (l @ [p])" if "pair_of m' x y \<noteq> zero_address" for x y
    by (cases "{x, y} = {a, b}") (use that hit [of x y] miss [of x y] pairs_okD(3) [OF ok, of x y] in simp_all)
  show "{x, y} = {c, d}" if "pair_of m' x y \<noteq> zero_address" "pair_of m' x y = pair_of m' c d" for x y c d
  proof (cases "{x, y} = {a, b}")
    case True
    then have "pair_of m' c d = p" using that(2) hit [of x y] by simp
    then show ?thesis using True old [of c d] miss [of c d] by metis
  next
    case False
    then have "{c, d} \<noteq> {a, b}" using that(2) old [of x y] hit [of c d] miss [of x y] by metis
    then show ?thesis using False that miss [of x y] miss [of c d] by (intro pairs_okD(4) [OF ok]) simp_all
  qed
  show "q \<noteq> zero_address \<and> (\<exists>x y. pair_of m' x y = q)" if "q \<in> set (l @ [p])" for q
  proof (cases "q = p")
    case True
    then show ?thesis using p(1) hit [of a b] by blast
  next
    case False
    then have q: "q \<in> set l" using that by simp
    obtain x y where xy: "pair_of m x y = q" using pairs_okD(6) [OF ok q] by blast
    have "{x, y} \<noteq> {a, b}"
    proof
      assume "{x, y} = {a, b}"
      then have "pair_of m x y = zero_address" using new(2) pairs_okD(1) [OF ok, of a b] by (auto simp: doubleton_eq_iff)
      then show False using xy pairs_okD(5) [OF ok q] by simp
    qed
    then have "pair_of m' x y = q" using miss xy by simp
    then show ?thesis using pairs_okD(5) [OF ok q] by blast
  qed
  show "distinct (l @ [p])" using pairs_okD(7) [OF ok] p(2) by simp
qed


lemma createPair_inv:
  assumes inv: "factory_inv f" and new: "pair \<noteq> zero_address" "pair \<notin> set (sx_view (fa_allPairs f))" "length (sx_view (fa_allPairs f)) < 2 ^ 64 - 1"
  shows "factory_inv (fst (createPair (Inr pair) initialized tokenA tokenB f))"
proof (cases "snd (createPair (Inr pair) initialized tokenA tokenB f)")
  case (Inl e)
  then have "fst (createPair (Inr pair) initialized tokenA tokenB f) = f" by (auto simp: createPair_def Let_def split: if_splits sum.splits)
  then show ?thesis using inv by simp
next
  case (Inr q)
  define t0 where "t0 = (if addr_less tokenA tokenB then tokenA else tokenB)"
  define t1 where "t1 = (if addr_less tokenA tokenB then tokenB else tokenA)"
  define f1 where "f1 = set_pair t1 t0 pair (set_pair t0 t1 pair f)"
  have eq: "createPair (Inr pair) initialized tokenA tokenB f =
      (if tokenA = tokenB then (f, Inl (RuntimeError ''DEXV2Factory::createPair: IDENTICAL_ADDRESSES''))
       else if t0 = zero_address then (f, Inl (RuntimeError ''DEXV2Factory::createPair: ZERO_ADDRESS''))
       else if getPair t0 t1 f \<noteq> zero_address then (f, Inl (RuntimeError ''DEXV2Factory::createPair: PAIR_EXISTS''))
       else case initialized pair t0 t1 of Inl e \<Rightarrow> (f, Inl e)
         | Inr _ \<Rightarrow> (f1\<lparr>fa_allPairs := sx_push_back (fa_allPairs f1) pair\<rparr>, Inr pair))"
    unfolding createPair_def Let_def t0_def [symmetric] t1_def [symmetric] by (cases "initialized pair t0 t1") (simp_all add: f1_def)
  have "tokenA \<noteq> tokenB" and free: "getPair t0 t1 f = zero_address"
    and run: "fst (createPair (Inr pair) initialized tokenA tokenB f) = f1\<lparr>fa_allPairs := sx_push_back (fa_allPairs f1) pair\<rparr>"
    using Inr unfolding eq by (simp_all split: if_splits sum.splits)
  then have "t0 \<noteq> t1" by (simp add: t0_def t1_def)
  have rep: "sx_rep (sx_push_back (fa_allPairs f) pair) (sx_view (fa_allPairs f) @ [pair])"
    using inv new(3) by (intro sx_push_back_rep) (simp_all add: factory_inv_def)
  have kept: "sx_vector (sx_push_back (fa_allPairs f) pair) = sx_vector (fa_allPairs f)" by (simp add: sx_push_back_def Let_def sx_simps)
  have "pair_of (um_view (fa_getPair f1)) x y = (if {x, y} = {t0, t1} then pair else pair_of (um_view (fa_getPair f)) x y)" for x y
    unfolding f1_def by (rule pair_of_both)
  then have "pairs_ok (um_view (fa_getPair f1)) (sx_view (fa_allPairs f) @ [pair])"
    using inv new(1,2) free \<open>t0 \<noteq> t1\<close> by (intro pairs_ok_add [of "um_view (fa_getPair f)" _ _ t0 t1]) (simp_all add: factory_inv_def getPair_view)
  then show ?thesis
    using inv sx_repD [OF rep] kept unfolding run by (simp add: factory_inv_def f1_def set_pair_obs)
qed

lemma factory_inv_new: "factory_inv (factory_new owner setter)"
  by (simp add: factory_inv_def factory_new_def um_new_def um_erased_def um_view_def um_ptr_def sx_new_def sx_wf_def sx_view_def sx_check_def
      pairs_ok_def pair_of_def)

lemma factory_inv_commit: "factory_inv f \<Longrightarrow> factory_inv (factory_commit f)"
proof -
  assume inv: "factory_inv f"
  then have wf: "sx_wf (fa_allPairs f)" and er: "um_erased (fa_getPair f) = {}" by (simp_all add: factory_inv_def)
  note rep = sx_commit_vector [OF wf]
  have view: "um_view (um_commit (fa_getPair f)) = um_view (fa_getPair f)" by (simp add: fun_eq_iff um_view_commit er)
  have map: "um_map (um_commit (fa_getPair f)) = um_view (fa_getPair f)"
    by (auto simp: fun_eq_iff um_simps um_view_def er restrict_map_def map_add_def split: option.splits)
  have "length (sx_view (fa_allPairs f)) < 2 ^ 64" using rep(2) by (simp add: sx_rep_def)
  then show ?thesis
    using inv rep(1) sx_repD [OF rep(2)] by (simp add: factory_inv_def factory_commit_def view map um_commit_obs(3) er)
qed

lemma factory_inv_revert: "factory_inv f \<Longrightarrow> factory_inv (factory_revert f)"
proof -
  assume inv: "factory_inv f"
  then have wf: "sx_wf (fa_allPairs f)" "length (sx_vector (fa_allPairs f)) < 2 ^ 64" by (simp_all add: factory_inv_def)
  have "um_view (um_revert (fa_getPair f)) = um_map (fa_getPair f)" by (simp add: fun_eq_iff um_view_def um_simps)
  then show ?thesis using inv sx_revert_obs [OF wf] by (simp add: factory_inv_def factory_revert_def um_simps)
qed

lemma factory_run_inv: "factory_run f \<Longrightarrow> factory_inv f"
proof (induction rule: factory_run.induct)
  case (create f created pair initialized tokenA tokenB)
  then show ?case using createPair_inv by simp
next
  case (failed f e initialized tokenA tokenB)
  then show ?case by (simp add: createPair_def Let_def)
qed (simp_all add: factory_inv_new factory_inv_commit factory_inv_revert, simp_all add: factory_inv_def setFeeTo_def setFeeToSetter_def)

subsection \<open>What the code does not do\<close>

text \<open>
  Two pairs that are saved are read back as one: the list has one key for all pairs, and the table one key for all
  pairs of a token.
\<close>

lemma factory_restart_loses_pairs:
  assumes "d = DB_putBatch sl_rocks (save_pairs [] [[7], [8]] [([1], [2], [7]), ([1], [3], [8])] Batch_new) []"
  shows "load_allPairs sl_rocks [] d = [[8]]" "DB_getBatch sl_rocks d (map of_char ''getPair_'') [] = [([1], [3, 8])]"
  unfolding assms by code_simp+

text \<open>The receiver of the fees is set by every caller.\<close>

lemma setFeeTo_unchecked: "factory_feeTo (setFeeTo a f) = a"
  by (simp add: factory_feeTo_def setFeeTo_def SafeAddress_get_def SafeAddress_assign_def sv_simps)

section \<open>Properties\<close>



end
