(* ===== verification/Abi.thy ===== *)
theory Abi
  imports Ecdsa
begin

text \<open>
  The Solidity ABI (\<^verbatim>\<open>contract/abi.h\<close>, \<^verbatim>\<open>contract/abi.cpp\<close>): the encoder, the check of a function header, and the decoder. Offsets and
  lengths are 64-bit integers that wrap around, reading outside the data is undefined. A string is the list of its bytes.
  The last section shows that the decoder returns what the encoder was given.
\<close>

section \<open>Definitions\<close>

subsection \<open>Types and values\<close>

datatype abi_type = T_uint8 | T_uint8Arr | T_uint16 | T_uint16Arr | T_uint32 | T_uint32Arr | T_uint64 | T_uint64Arr | T_uint256 | T_uint256Arr
  | T_address | T_addressArr | T_boolean | T_booleanArr | T_bytes | T_bytesArr | T_string | T_stringArr

datatype abi_val = VUint256 uint256 | VUint256Arr "uint256 list" | VAddress Address | VAddressArr "Address list" | VBool bool | VBoolArr "bool list"
  | VBytes bytes | VBytesEncoded bytes | VBytesArr "bytes list" | VString bytes | VStringArr "bytes list"

definition typeMappings :: "(abi_type \<times> string) list" where
  "typeMappings =
     [(T_uint8, ''uint8''), (T_uint8Arr, ''uint8[]''), (T_uint16, ''uint16''), (T_uint16Arr, ''uint16[]''), (T_uint32, ''uint32''),
      (T_uint32Arr, ''uint32[]''), (T_uint64, ''uint64''), (T_uint64Arr, ''uint64[]''), (T_uint256, ''uint256''),
      (T_uint256Arr, ''uint256[]''), (T_address, ''address''), (T_addressArr, ''address[]''), (T_boolean, ''bool''),
      (T_booleanArr, ''bool[]''), (T_bytes, ''bytes''), (T_bytesArr, ''bytes[]''), (T_string, ''string''), (T_stringArr, ''string[]'')]"

definition getStringFromABIEnum :: "abi_type \<Rightarrow> string res" where
  "getStringFromABIEnum t =
     (case map_of typeMappings t of Some s \<Rightarrow> Inr s | None \<Rightarrow> Inl (RuntimeError ''Unsupported ABI type''))"

definition getABIEnumFromString :: "string \<Rightarrow> abi_type res" where
  "getABIEnumFromString s =
     (case map_of (map (\<lambda>(t, s). (s, t)) typeMappings) s of Some t \<Rightarrow> Inr t | None \<Rightarrow> Inl (RuntimeError (''Invalid type: '' @ s)))"

subsection \<open>Encoder\<close>

definition encodeFunction :: "crypto \<Rightarrow> string \<Rightarrow> bytes" where
  "encodeFunction cr func = take 4 (sha3 cr (map of_char func))"

definition encodeUint256 :: "uint256 \<Rightarrow> bytes" where
  "encodeUint256 num = right_align (replicate 32 0) (export_bits num)"

definition encodeAddress :: "Address \<Rightarrow> bytes" where
  "encodeAddress add = padLeftBytes add 32 0"

definition encodeBool :: "bool \<Rightarrow> bytes" where
  "encodeBool b = padLeftBytes (if b then [1] else [0]) 32 0"

text \<open>A size or an offset as a word of 32 bytes.\<close>

definition encodeSize :: "uint64 \<Rightarrow> bytes" where
  "encodeSize n = padLeftBytes (uintToBytes n) 32 0"

text \<open>\<^verbatim>\<open>do { pad += 32; } while (pad < n)\<close> on an \<^verbatim>\<open>int\<close>, whose overflow is undefined.\<close>

function pad_loop :: "nat \<Rightarrow> nat \<Rightarrow> nat res" where
  "pad_loop pad n =
     (if pad + 32 \<ge> 2 ^ 31 then Inl UndefinedBehaviour
      else if pad + 32 < n then pad_loop (pad + 32) n else Inr (pad + 32))"
  by pat_completeness auto
termination by (relation "measure (\<lambda>(pad, n). n - pad)") auto

declare pad_loop.simps [simp del]

definition encodeBytes :: "bytes \<Rightarrow> bytes res" where
  "encodeBytes bs =
     bindR (pad_loop 0 (length bs)) (\<lambda>pad. Inr (encodeSize (of_nat (length bs)) @ padRightBytes bs pad 0))"

definition encodeUint256Arr :: "uint256 list \<Rightarrow> bytes" where
  "encodeUint256Arr numV = encodeSize (of_nat (length numV)) @ concat (map encodeUint256 numV)"

definition encodeAddressArr :: "Address list \<Rightarrow> bytes" where
  "encodeAddressArr addV = encodeSize (of_nat (length addV)) @ concat (map encodeAddress addV)"

definition encodeBoolArr :: "bool list \<Rightarrow> bytes" where
  "encodeBoolArr bV = encodeSize (of_nat (length bV)) @ concat (map encodeBool bV)"

text \<open>The loop of \<open>encodeBytesArr\<close>: the offsets, and the lengths and data, of the elements from \<open>i\<close> on; \<open>n\<close> is their number.\<close>

fun bytesArr_loop :: "nat \<Rightarrow> bytes list \<Rightarrow> nat \<Rightarrow> nat \<Rightarrow> (bytes \<times> bytes) res" where
  "bytesArr_loop n [] i pads = Inr ([], [])"
| "bytesArr_loop n (b # bs) i pads =
     (if 32 * pads \<ge> 2 ^ 31 then Inl UndefinedBehaviour
      else bindR (pad_loop 0 (length b)) (\<lambda>p.
        bindR (bytesArr_loop n bs (i + 1) (pads + p div 32)) (\<lambda>(offs, datas).
        Inr (encodeSize (of_nat (32 * n + 32 * i + 32 * pads)) @ offs,
             encodeSize (of_nat (length b)) @ padRightBytes (padRightBytes b p 0) 32 0 @ datas))))"

definition encodeBytesArr :: "bytes list \<Rightarrow> bytes res" where
  "encodeBytesArr bytesV =
     bindR (bytesArr_loop (length bytesV) bytesV 0 0) (\<lambda>(offs, datas). Inr (encodeSize (of_nat (length bytesV)) @ offs @ datas))"

text \<open>
  One round of the loop of the constructor: what is appended to \<^verbatim>\<open>data_\<close> and to \<^verbatim>\<open>dynamicBytes\<close>, and the next offset.
\<close>

definition encode_dynamic :: "uint64 \<Rightarrow> bytes res \<Rightarrow> (bytes \<times> bytes \<times> uint64) res" where
  "encode_dynamic nextOffset r = bindR r (\<lambda>packed. Inr (encodeSize nextOffset, packed, nextOffset + 32 * of_nat (length packed div 32)))"

definition encode_array :: "uint64 \<Rightarrow> nat \<Rightarrow> bytes \<Rightarrow> (bytes \<times> bytes \<times> uint64) res" where
  "encode_array nextOffset n packed = Inr (encodeSize nextOffset, packed, nextOffset + (32 + 32 * of_nat n))"

fun encode_arg :: "uint64 \<Rightarrow> abi_val \<Rightarrow> (bytes \<times> bytes \<times> uint64) res" where
  "encode_arg nextOffset (VUint256 x) = Inr (encodeUint256 x, [], nextOffset)"
| "encode_arg nextOffset (VAddress a) = Inr (encodeAddress a, [], nextOffset)"
| "encode_arg nextOffset (VBool b) = Inr (encodeBool b, [], nextOffset)"
| "encode_arg nextOffset (VString s) = encode_dynamic nextOffset (encodeBytes s)"
| "encode_arg nextOffset (VBytes b) = encode_dynamic nextOffset (encodeBytes b)"
| "encode_arg nextOffset (VBytesEncoded b) = encode_dynamic nextOffset (encodeBytes b)"
| "encode_arg nextOffset (VUint256Arr xs) = encode_array nextOffset (length xs) (encodeUint256Arr xs)"
| "encode_arg nextOffset (VAddressArr xs) = encode_array nextOffset (length xs) (encodeAddressArr xs)"
| "encode_arg nextOffset (VBoolArr xs) = encode_array nextOffset (length xs) (encodeBoolArr xs)"
| "encode_arg nextOffset (VBytesArr xs) = encode_dynamic nextOffset (encodeBytesArr xs)"
| "encode_arg nextOffset (VStringArr xs) = encode_dynamic nextOffset (encodeBytesArr xs)"

fun encode_args :: "uint64 \<Rightarrow> abi_val list \<Rightarrow> (bytes \<times> bytes) res" where
  "encode_args nextOffset [] = Inr ([], [])"
| "encode_args nextOffset (v # vs) =
     bindR (encode_arg nextOffset v) (\<lambda>(d, dyn, nextOffset).
     bindR (encode_args nextOffset vs) (\<lambda>(ds, dyns). Inr (d @ ds, dyn @ dyns)))"

subsection \<open>Function headers\<close>

text \<open>\<open>find\<close> and \<open>find_first_of\<close> from a position, as an \<^verbatim>\<open>int\<close>: \<open>npos\<close> becomes -1.\<close>

definition find_first_of :: "string \<Rightarrow> char list \<Rightarrow> int \<Rightarrow> int" where
  "find_first_of s cs pos =
     (if pos < 0 then -1
      else case find (\<lambda>i. nat pos \<le> i \<and> s ! i \<in> set cs) [0..<length s] of None \<Rightarrow> -1 | Some i \<Rightarrow> int i)"

definition substr :: "string \<Rightarrow> int \<Rightarrow> int \<Rightarrow> string res" where
  "substr s pos count =
     (if pos < 0 \<or> nat pos > length s then Inl (OutOfRange ''basic_string_view::substr'')
      else Inr (if count < 0 then drop (nat pos) s else take (nat count) (drop (nat pos) s)))"

fun holds :: "string \<Rightarrow> abi_val \<Rightarrow> bool" where
  "holds t (VUint256 _) \<longleftrightarrow> t = ''uint256''"
| "holds t (VAddress _) \<longleftrightarrow> t = ''address''"
| "holds t (VBool _) \<longleftrightarrow> t = ''bool''"
| "holds t (VBytes _) \<longleftrightarrow> t = ''bytes''"
| "holds t (VString _) \<longleftrightarrow> t = ''string''"
| "holds t (VUint256Arr _) \<longleftrightarrow> t = ''uint256[]''"
| "holds t (VAddressArr _) \<longleftrightarrow> t = ''address[]''"
| "holds t (VBoolArr _) \<longleftrightarrow> t = ''bool[]''"
| "holds t (VBytesArr _) \<longleftrightarrow> t = ''bytes[]''"
| "holds t (VStringArr _) \<longleftrightarrow> t = ''string[]''"
| "holds t (VBytesEncoded _) \<longleftrightarrow> False"

definition header_types :: "string list" where
  "header_types = [''uint256'', ''address'', ''bool'', ''bytes'', ''string'', ''uint256[]'', ''address[]'', ''bool[]'', ''bytes[]'', ''string[]'']"

text \<open>The loop over the types of the header; the message of a mismatch leaves out the position.\<close>

fun check_types :: "string \<Rightarrow> int \<Rightarrow> int \<Rightarrow> abi_val list \<Rightarrow> unit res" where
  "check_types funcTmp b e [] = Inr ()"
| "check_types funcTmp b e (v # vs) =
     bindR (substr funcTmp b (e - b)) (\<lambda>funcType.
     if funcType \<notin> set header_types then Inl (RuntimeError (''Invalid function header type: '' @ funcType))
     else if \<not> holds funcType v then Inl (RuntimeError ''Header and data types don't match'')
     else let b = e + 1 in check_types funcTmp b (find_first_of funcTmp '','' b) vs)"

definition check_header :: "string \<Rightarrow> abi_val list \<Rightarrow> unit res" where
  "check_header func data =
     (if find_first_of func ''('' 0 = -1 \<or> find_first_of func '')'' 0 = -1 then Inl (RuntimeError ''Invalid function header'')
      else let start = nat (find_first_of func ''('' 0) + 1 in
        if start > length func - 1 then Inl UndefinedBehaviour
        else let funcTmp = drop start (butlast func) in
          if funcTmp = [] \<and> data \<noteq> [] then Inl (RuntimeError ''Invalid function header'')
          else check_types funcTmp 0 (find_first_of funcTmp '',)'' 0) data)"

text \<open>The constructor: the functor, when there is a header, and the data.\<close>

definition ABI_Encoder :: "crypto \<Rightarrow> abi_val list \<Rightarrow> string \<Rightarrow> (bytes option \<times> bytes) res" where
  "ABI_Encoder cr data func =
     bindR (if func \<noteq> [] then bindR (check_header func data) (\<lambda>_. Inr (Some (encodeFunction cr func))) else Inr None) (\<lambda>functor.
     bindR (encode_args (32 * of_nat (length data)) data) (\<lambda>(d, dyn). Inr (functor, d @ dyn)))"

subsection \<open>Decoder\<close>

text \<open>The 32-byte word at \<open>start\<close> as a 64-bit number, after the check of the size.\<close>

definition get_word :: "string \<Rightarrow> bytes \<Rightarrow> uint64 \<Rightarrow> uint64 res" where
  "get_word msg data start =
     (if unat (start + 32) > length data then Inl (RuntimeError msg)
      else bindR (subspan data (unat start) 32) (\<lambda>tmp. Inr (fromBigEndian tmp)))"

definition decodeUint256 :: "bytes \<Rightarrow> uint64 \<Rightarrow> uint256 res" where
  "decodeUint256 data start =
     (if unat (start + 32) > length data then Inl (RuntimeError ''Data too short for uint256'')
      else bindR (subspan data (unat start) 32) bytesToUint256)"

definition decodeAddress :: "bytes \<Rightarrow> uint64 \<Rightarrow> Address res" where
  "decodeAddress data start =
     (if unat (start + 32) > length data then Inl (RuntimeError ''Data too short for address'')
      else subspan data (unat (start + 12)) 20)"

definition decodeBool :: "bytes \<Rightarrow> uint64 \<Rightarrow> bool res" where
  "decodeBool data start =
     (if unat (start + 32) > length data then Inl (RuntimeError ''Data too short for bool'')
      else bindR (at_idx data (unat (start + 31))) (\<lambda>b. Inr (b = 1)))"

text \<open>The body of \<open>decodeBytes\<close> and \<open>decodeString\<close>, which differ in their messages.\<close>

definition decode_bytes_at :: "string \<Rightarrow> bytes \<Rightarrow> uint64 \<Rightarrow> bytes res" where
  "decode_bytes_at msg data start =
     bindR (get_word msg data start) (\<lambda>bytesStart.
     bindR (get_word msg data bytesStart) (\<lambda>bytesLength.
     if unat (bytesStart + 32 + bytesLength) > length data then Inl (RuntimeError msg)
     else subspan data (unat bytesStart + 32) (unat bytesLength)))"

definition decodeBytes :: "bytes \<Rightarrow> uint64 \<Rightarrow> bytes res" where
  "decodeBytes data start = decode_bytes_at ''Data too short for bytes'' data start"

definition decodeString :: "bytes \<Rightarrow> uint64 \<Rightarrow> bytes res" where
  "decodeString data start = decode_bytes_at ''Data too short for string'' data start"

fun arr_loop :: "(nat \<Rightarrow> 'a res) \<Rightarrow> nat \<Rightarrow> nat \<Rightarrow> 'a list res" where
  "arr_loop f i 0 = Inr []"
| "arr_loop f i (Suc n) = bindR (f i) (\<lambda>x. bindR (arr_loop f (i + 1) n) (\<lambda>xs. Inr (x # xs)))"

text \<open>The frame of the decoders of arrays with elements of one word: offset, length, size check and the loop.\<close>

definition decode_words_at :: "string \<Rightarrow> (bytes \<Rightarrow> nat \<Rightarrow> 'a res) \<Rightarrow> bytes \<Rightarrow> uint64 \<Rightarrow> 'a list res" where
  "decode_words_at msg elem data start =
     bindR (get_word msg data start) (\<lambda>arrayStart.
     bindR (get_word msg data arrayStart) (\<lambda>arrayLength.
     if unat (arrayStart + 32 + arrayLength * 32) > length data then Inl (RuntimeError msg)
     else arr_loop (\<lambda>i. elem data (unat arrayStart + 32 + unat (of_nat i * 32 :: uint64))) 0 (unat arrayLength)))"

definition decodeUint256Arr :: "bytes \<Rightarrow> uint64 \<Rightarrow> uint256 list res" where
  "decodeUint256Arr = decode_words_at ''Data too short for uint256[]'' (\<lambda>data p. bindR (subspan data p 32) bytesToUint256)"

definition decodeAddressArr :: "bytes \<Rightarrow> uint64 \<Rightarrow> Address list res" where
  "decodeAddressArr = decode_words_at ''Data too short for address[]'' (\<lambda>data p. subspan data (p + 12) 20)"

definition decodeBoolArr :: "bytes \<Rightarrow> uint64 \<Rightarrow> bool list res" where
  "decodeBoolArr = decode_words_at ''Data too short for bool[]'' (\<lambda>data p. bindR (at_idx data (p + 31)) (\<lambda>b. Inr (b = 1)))"

text \<open>One element of \<open>bytes[]\<close> or \<open>string[]\<close>: its offset and length are read without a check.\<close>

definition decode_bytes_elem :: "string \<Rightarrow> bytes \<Rightarrow> uint64 \<Rightarrow> nat \<Rightarrow> bytes res" where
  "decode_bytes_elem msg data arrayStart i =
     bindR (subspan data (unat arrayStart + 32 + unat (of_nat i * 32 :: uint64)) 32) (\<lambda>tmp.
     let bytesStart = fromBigEndian tmp + arrayStart + 32 in
     bindR (subspan data (unat bytesStart) 32) (\<lambda>tmp.
     let bytesLength = fromBigEndian tmp :: uint64 in
     if unat (bytesStart + 32 + bytesLength) > length data then Inl (RuntimeError msg)
     else subspan data (unat bytesStart + 32) (unat bytesLength)))"

definition decode_bytesArr_at :: "string \<Rightarrow> bytes \<Rightarrow> uint64 \<Rightarrow> bytes list res" where
  "decode_bytesArr_at msg data start =
     bindR (get_word msg data start) (\<lambda>arrayStart.
     bindR (get_word msg data arrayStart) (\<lambda>arrayLength.
     arr_loop (decode_bytes_elem msg data arrayStart) 0 (unat arrayLength)))"

definition decodeBytesArr :: "bytes \<Rightarrow> uint64 \<Rightarrow> bytes list res" where
  "decodeBytesArr = decode_bytesArr_at ''Data too short for bytes[]''"

definition decodeStringArr :: "bytes \<Rightarrow> uint64 \<Rightarrow> bytes list res" where
  "decodeStringArr = decode_bytesArr_at ''Data too short for string[]''"

definition decode_arg :: "bytes \<Rightarrow> abi_type \<Rightarrow> uint64 \<Rightarrow> abi_val res" where
  "decode_arg data t dataIdx =
     (if t \<in> {T_uint256, T_uint8, T_uint16, T_uint32, T_uint64} then bindR (decodeUint256 data dataIdx) (Inr \<circ> VUint256)
      else if t = T_uint256Arr then bindR (decodeUint256Arr data dataIdx) (Inr \<circ> VUint256Arr)
      else if t = T_address then bindR (decodeAddress data dataIdx) (Inr \<circ> VAddress)
      else if t = T_addressArr then bindR (decodeAddressArr data dataIdx) (Inr \<circ> VAddressArr)
      else if t = T_boolean then bindR (decodeBool data dataIdx) (Inr \<circ> VBool)
      else if t = T_booleanArr then bindR (decodeBoolArr data dataIdx) (Inr \<circ> VBoolArr)
      else if t = T_bytes then bindR (decodeBytes data dataIdx) (Inr \<circ> VBytes)
      else if t = T_string then bindR (decodeString data dataIdx) (Inr \<circ> VString)
      else if t = T_bytesArr then bindR (decodeBytesArr data dataIdx) (Inr \<circ> VBytesArr)
      else if t = T_stringArr then bindR (decodeStringArr data dataIdx) (Inr \<circ> VStringArr)
      else Inl (RuntimeError ''Unknown type to decode''))"

fun decode_args :: "bytes \<Rightarrow> abi_type list \<Rightarrow> uint64 \<Rightarrow> abi_val list res" where
  "decode_args data [] dataIdx = Inr []"
| "decode_args data (t # ts) dataIdx =
     bindR (decode_arg data t dataIdx) (\<lambda>v. bindR (decode_args data ts (dataIdx + 32)) (\<lambda>vs. Inr (v # vs)))"

definition ABI_Decoder :: "abi_type list \<Rightarrow> bytes \<Rightarrow> abi_val list res" where
  "ABI_Decoder types bs = decode_args bs types 0"

text \<open>The alternative of the variant that a type is read from.\<close>

fun alternative :: "abi_type \<Rightarrow> abi_val \<Rightarrow> bool" where
  "alternative t (VUint256 _) \<longleftrightarrow> t \<in> {T_uint256, T_uint8, T_uint16, T_uint32, T_uint64}"
| "alternative t (VUint256Arr _) \<longleftrightarrow> t \<in> {T_uint8Arr, T_uint16Arr, T_uint32Arr, T_uint64Arr, T_uint256Arr}"
| "alternative t (VAddress _) \<longleftrightarrow> t = T_address"
| "alternative t (VAddressArr _) \<longleftrightarrow> t = T_addressArr"
| "alternative t (VBool _) \<longleftrightarrow> t = T_boolean"
| "alternative t (VBoolArr _) \<longleftrightarrow> t = T_booleanArr"
| "alternative t (VBytes _) \<longleftrightarrow> t = T_bytes"
| "alternative t (VBytesEncoded _) \<longleftrightarrow> False"
| "alternative t (VBytesArr _) \<longleftrightarrow> t = T_bytesArr"
| "alternative t (VString _) \<longleftrightarrow> t = T_string"
| "alternative t (VStringArr _) \<longleftrightarrow> t = T_stringArr"

definition getDataDispatch :: "abi_val list \<Rightarrow> nat \<Rightarrow> abi_type \<Rightarrow> abi_val res" where
  "getDataDispatch data index type =
     (if index \<ge> length data then Inl (OutOfRange ''Index out of range'')
      else if alternative type (data ! index) then Inr (data ! index) else Inl (RuntimeError ''Type mismatch''))"

text \<open>
  The ABI type of the parameter of a C++ function: \<open>ABIType\<close> behind \<open>TypeToEnum\<close>, which drops references. \<^verbatim>\<open>Bytes\<close> is the
  vector of \<^verbatim>\<open>uint8_t\<close>.
\<close>

datatype cpp_type = C_uint8 | C_uint16 | C_uint32 | C_uint64 | C_uint256 | C_Address | C_bool | C_string | C_vector cpp_type

fun ABIType :: "cpp_type \<Rightarrow> abi_type" where
  "ABIType (C_vector t) = (if t = C_uint8 then T_bytes else if t = C_Address then T_addressArr else T_uint256Arr)"
| "ABIType C_Address = T_address"
| "ABIType C_bool = T_boolean"
| "ABIType C_string = T_string"
| "ABIType C_uint8 = T_uint8"
| "ABIType C_uint16 = T_uint16"
| "ABIType C_uint32 = T_uint32"
| "ABIType C_uint64 = T_uint64"
| "ABIType C_uint256 = T_uint256"

section \<open>Lemmas\<close>

subsection \<open>Positions\<close>

definition sits :: "bytes \<Rightarrow> bytes \<Rightarrow> nat \<Rightarrow> bool" where
  "sits xs data off \<longleftrightarrow> (\<exists>pre post. data = pre @ xs @ post \<and> length pre = off)"

lemma sits_append: "sits (xs @ ys) data off \<Longrightarrow> sits xs data off" "sits (xs @ ys) data off \<Longrightarrow> sits ys data (off + length xs)"
  unfolding sits_def by (metis append_assoc) (metis append_assoc length_append)

lemma sits_length: "sits xs data off \<Longrightarrow> off + length xs \<le> length data"
  by (auto simp: sits_def)

lemma sits_subspan: "sits xs data off \<Longrightarrow> n = length xs \<Longrightarrow> subspan data off n = Inr xs"
  by (auto simp: sits_def subspan_def)

lemma sits_drop: "sits xs data off \<Longrightarrow> n \<le> length xs \<Longrightarrow> sits (drop n xs) data (off + n)"
  using sits_append(2) [of "take n xs" "drop n xs" data off] by (simp add: min_absorb2)

lemma sits_idx: "sits xs data off \<Longrightarrow> i < length xs \<Longrightarrow> at_idx data (off + i) = Inr (xs ! i)"
  by (auto simp: sits_def at_idx_def nth_append)

lemma unat_plus: "unat (x :: uint64) + n < 2 ^ 64 \<Longrightarrow> unat (x + of_nat n) = unat x + n"
  by (subst unat_add_no_wrap) (simp_all add: unat_of_nat)

subsection \<open>Words\<close>

lemma encodeSize_facts [simp]: "length (encodeSize n) = 32" "fromBigEndian (encodeSize n) = n"
proof -
  have k: "bytesRequired n \<le> 8" by (rule bytesRequired_le) (use unat_bound [of n] in simp)
  have eq: "encodeSize n = replicate (32 - bytesRequired n) 0 @ uintToBytes n" using k by (simp add: encodeSize_def padLeftBytes_def Let_def)
  show "length (encodeSize n) = 32" using k by (simp add: eq)
  show "fromBigEndian (encodeSize n) = n" by (simp add: fromBigEndian_of_nat eq be_val_append)
qed

lemma get_word_sits:
  assumes "sits (encodeSize n) data (unat start)" "length data < 2 ^ 64"
  shows "get_word msg data start = Inr n"
proof -
  have len: "unat start + 32 \<le> length data" using sits_length [OF assms(1)] by simp
  then have "unat (start + 32) = unat start + 32" using unat_plus [of start 32] assms(2) by simp
  then show ?thesis using len sits_subspan [OF assms(1), of 32] by (simp add: get_word_def)
qed

lemma encodeUint256_eq: "encodeUint256 x = uint256ToBytes x"
  by (simp add: encodeUint256_def uint256ToBytes_def)

lemma length_encode [simp]: "length (encodeUint256 x) = 32" "length a = 20 \<Longrightarrow> length (encodeAddress a) = 32" "length (encodeBool b) = 32"
  by (simp_all add: encodeUint256_eq c256.enc_length encodeAddress_def encodeBool_def padLeftBytes_def Let_def)

lemma start_32:
  fixes start :: uint64
  assumes "sits xs data (unat start)" "length xs = 32" "length data < 2 ^ 64" "k \<le> 32"
  shows "unat (start + of_nat k) = unat start + k" "unat start + 32 \<le> length data"
proof -
  show len: "unat start + 32 \<le> length data" using sits_length [OF assms(1)] assms(2) by simp
  then show "unat (start + of_nat k) = unat start + k" using unat_plus [of start k] assms(3,4) by simp
qed

lemma decodeUint256_sits:
  assumes "length data < 2 ^ 64" "sits (encodeUint256 x) data (unat start)"
  shows "decodeUint256 data start = Inr x"
proof -
  have "\<not> unat (start + 32) > length data"
    using start_32(1) [OF assms(2) length_encode(1) assms(1), of 32] start_32(2) [OF assms(2) length_encode(1) assms(1), of 32] by simp
  moreover have "subspan data (unat start) 32 = Inr (uint256ToBytes x)" using sits_subspan [OF assms(2), of 32] by (simp add: encodeUint256_eq c256.enc_length)
  ultimately show ?thesis unfolding decodeUint256_def by (simp only: if_False bindR_Inr c256.dec_enc)
qed

lemma decodeAddress_sits:
  assumes "length data < 2 ^ 64" "length a = 20" "sits (encodeAddress a) data (unat start)"
  shows "decodeAddress data start = Inr a"
proof -
  note s = start_32 [OF assms(3) length_encode(2) [OF assms(2)] assms(1)]
  have "\<not> unat (start + 32) > length data" using s(1) [of 32] s(2) [of 32] by simp
  moreover have "unat (start + 12) = unat start + 12" using s(1) [of 12] by simp
  moreover have "drop 12 (encodeAddress a) = a" using assms(2) by (simp add: encodeAddress_def padLeftBytes_def Let_def)
  moreover from this have "sits a data (unat start + 12)" using sits_drop [OF assms(3), of 12] length_encode(2) [OF assms(2)] by simp
  then have "subspan data (unat start + 12) 20 = Inr a" by (rule sits_subspan) (simp add: assms(2))
  ultimately show ?thesis unfolding decodeAddress_def by (simp only: if_False)
qed

lemma decodeBool_sits:
  assumes "length data < 2 ^ 64" "sits (encodeBool b) data (unat start)"
  shows "decodeBool data start = Inr b"
proof -
  note s = start_32 [OF assms(2) length_encode(3) assms(1)]
  have "\<not> unat (start + 32) > length data" using s(1) [of 32] s(2) [of 32] by simp
  moreover have "unat (start + 31) = unat start + 31" using s(1) [of 31] by simp
  moreover have "encodeBool b ! 31 = (if b then 1 else 0)" by (simp add: encodeBool_def padLeftBytes_def Let_def nth_append)
  then have "at_idx data (unat start + 31) = Inr (if b then 1 else 0)" using sits_idx [OF assms(2), of 31] by simp
  ultimately show ?thesis unfolding decodeBool_def by (cases b) (simp_all only: if_False if_True bindR_Inr, simp_all)
qed

subsection \<open>Byte strings\<close>

lemma pad_loop_ok:
  assumes "n < 2 ^ 30" "pad < 2 ^ 30" "32 dvd pad" "pad \<le> n"
  shows "\<exists>p. pad_loop pad n = Inr p \<and> 32 dvd p \<and> n \<le> p \<and> 32 \<le> p \<and> p \<le> n + 32"
  using assms
proof (induction pad n rule: pad_loop.induct)
  case (1 pad n)
  have small: "\<not> pad + 32 \<ge> 2 ^ 31" using 1(3) by simp
  show ?case
  proof (cases "pad + 32 < n")
    case True
    then have "\<exists>p. pad_loop (pad + 32) n = Inr p \<and> 32 dvd p \<and> n \<le> p \<and> 32 \<le> p \<and> p \<le> n + 32"
      using 1 small by (intro 1(1)) auto
    then show ?thesis using True small by (subst pad_loop.simps) simp
  next
    case False
    then show ?thesis using 1 small by (subst pad_loop.simps) simp
  qed
qed

lemma encodeBytes_ok:
  assumes "length b < 2 ^ 30"
  obtains z where "encodeBytes b = Inr (encodeSize (of_nat (length b)) @ b @ z)" "32 dvd length (b @ z)" "length (b @ z) \<le> length b + 32"
proof -
  obtain p where p: "pad_loop 0 (length b) = Inr p" "32 dvd p" "length b \<le> p" "p \<le> length b + 32" using pad_loop_ok [of "length b" 0] assms by auto
  have "padRightBytes b p 0 = b @ replicate (p - length b) 0" using p(3) by (simp add: padRightBytes_def Let_def)
  then show thesis using that [of "replicate (p - length b) 0"] p by (simp add: encodeBytes_def)
qed

lemma decode_bytes_sits:
  assumes "sits (encodeSize off) data (unat start)" "sits (encodeSize (of_nat (length b)) @ b @ z) data (unat off)" "length data < 2 ^ 64"
  shows "decode_bytes_at msg data start = Inr b"
proof -
  note s = sits_append [OF assms(2)]
  have b: "sits b data (unat off + 32)" using sits_append(1) [OF s(2)] by simp
  have len: "unat off + 32 + length b \<le> length data" using sits_length [OF b] .
  then have n: "unat (of_nat (length b) :: uint64) = length b" using assms(3) by (simp add: unat_of_nat)
  have "unat (off + of_nat (32 + length b)) = unat off + (32 + length b)" using len assms(3) by (intro unat_plus) simp
  then have "unat (off + 32 + of_nat (length b)) = unat off + 32 + length b" by (simp add: add.assoc)
  then show ?thesis
    using len n sits_subspan [OF b, of "length b"] by (simp add: decode_bytes_at_def get_word_sits [OF assms(1,3)] get_word_sits [OF s(1) assms(3)])
qed

subsection \<open>Arrays\<close>

lemma arr_loop_ok: "(\<And>k. k < length xs \<Longrightarrow> f (i + k) = Inr (xs ! k)) \<Longrightarrow> arr_loop f i (length xs) = Inr xs"
proof (induction xs arbitrary: i)
  case (Cons x xs)
  have "f i = Inr x" using Cons.prems [of 0] by simp
  moreover have "f (i + 1 + k) = Inr (xs ! k)" if "k < length xs" for k using Cons.prems [of "Suc k"] that by simp
  ultimately show ?case using Cons.IH [of "i + 1"] by simp
qed simp

lemma sits_nth:
  assumes "sits (concat (map enc xs)) data p" "\<And>x. x \<in> set xs \<Longrightarrow> length (enc x) = 32" "k < length xs"
  shows "sits (enc (xs ! k)) data (p + 32 * k)"
proof -
  have split: "xs = take k xs @ xs ! k # drop (Suc k) xs" using assms(3) by (simp add: id_take_nth_drop)
  have "length (concat (map enc ys)) = 32 * length ys" if "set ys \<subseteq> set xs" for ys using that assms(2) by (induction ys) auto
  then have "length (concat (map enc (take k xs))) = 32 * k" using assms(3) by (simp add: set_take_subset)
  moreover have "concat (map enc xs) = concat (map enc (take k xs)) @ enc (xs ! k) @ concat (map enc (drop (Suc k) xs))"
    by (subst split) simp
  ultimately show ?thesis using assms(1) sits_append by metis
qed

lemma decode_words_sits:
  assumes "sits (encodeSize off) data (unat start)" "sits (encodeSize (of_nat (length xs)) @ concat (map enc xs)) data (unat off)"
    and data: "length data < 2 ^ 64" and enc: "\<And>x. x \<in> set xs \<Longrightarrow> length (enc x) = 32"
    and elem: "\<And>x p. x \<in> set xs \<Longrightarrow> sits (enc x) data p \<Longrightarrow> elem data p = Inr x"
  shows "decode_words_at msg elem data start = Inr xs"
proof -
  note s = sits_append [OF assms(2)]
  have words: "sits (concat (map enc xs)) data (unat off + 32)" using s(2) by simp
  have "length (concat (map enc xs)) = 32 * length xs" using enc by (induction xs) auto
  then have len: "unat off + 32 + 32 * length xs \<le> length data" using sits_length [OF words] by simp
  then have n: "unat (of_nat (length xs) :: uint64) = length xs" using data by (simp add: unat_of_nat)
  have "unat (off + of_nat (32 + 32 * length xs)) = unat off + (32 + 32 * length xs)" using len data by (intro unat_plus) simp
  then have size: "unat (off + 32 + of_nat (length xs) * 32) = unat off + 32 + 32 * length xs" by (simp add: add.assoc mult.commute)
  have "elem data (unat off + 32 + unat (of_nat (0 + k) * 32 :: uint64)) = Inr (xs ! k)" if k: "k < length xs" for k
  proof -
    have "unat (of_nat (32 * k) :: uint64) = 32 * k" using len data k by (intro unat_of_nat_eq) simp
    then have "unat (of_nat (0 + k) * 32 :: uint64) = 32 * k" by (simp add: mult.commute)
    then show ?thesis using elem [OF nth_mem [OF k] sits_nth [OF words enc k]] by simp
  qed
  then have "arr_loop (\<lambda>i. elem data (unat off + 32 + unat (of_nat i * 32 :: uint64))) 0 (length xs) = Inr xs" by (rule arr_loop_ok)
  then show ?thesis
    using size len n by (simp add: decode_words_at_def get_word_sits [OF assms(1) data] get_word_sits [OF s(1) data])
qed


lemma decode_bytes_elem_sits:
  assumes data: "length data < 2 ^ 64" and off: "sits (encodeSize (of_nat q)) data (unat arrayStart + 32 + 32 * i)"
    and elem: "sits (encodeSize (of_nat (length b)) @ b @ z) data (unat arrayStart + 32 + q)"
  shows "decode_bytes_elem msg data arrayStart i = Inr b"
proof -
  note s = sits_append [OF elem]
  have b: "sits b data (unat arrayStart + 32 + q + 32)" using sits_append(1) [OF s(2)] by simp
  have len: "unat arrayStart + 32 + q + 32 + length b \<le> length data" using sits_length [OF b] .
  have "unat arrayStart + 32 + 32 * i < 2 ^ 64" using sits_length [OF off] data by simp
  then have "unat (of_nat (32 * i) :: uint64) = 32 * i" by (intro unat_of_nat_eq) simp
  then have i: "unat (of_nat i * 32 :: uint64) = 32 * i" by (simp add: mult.commute)
  define bs where "bs = of_nat q + arrayStart + (32 :: uint64)"
  have "unat (arrayStart + of_nat (32 + q)) = unat arrayStart + (32 + q)" using len data by (intro unat_plus) simp
  then have start: "unat bs = unat arrayStart + 32 + q" by (simp add: bs_def ac_simps)
  have n: "unat (of_nat (length b) :: uint64) = length b" using len data by (intro unat_of_nat_eq) simp
  have "unat (bs + of_nat (32 + length b)) = unat bs + (32 + length b)" using len data start by (intro unat_plus) simp
  then have fits: "\<not> unat (bs + 32 + of_nat (length b)) > length data" using len start by (simp add: add.assoc)
  have r: "subspan data (unat arrayStart + 32 + 32 * i) 32 = Inr (encodeSize (of_nat q))"
    "subspan data (unat arrayStart + 32 + q) 32 = Inr (encodeSize (of_nat (length b)))"
    "subspan data (unat arrayStart + 32 + q + 32) (length b) = Inr b"
    by (rule sits_subspan [OF off] sits_subspan [OF s(1)] sits_subspan [OF b], simp)+
  show ?thesis
    unfolding decode_bytes_elem_def i r(1) bindR_Inr Let_def encodeSize_facts(2) bs_def [symmetric] start r(2) n
    using fits r(3) by (simp only: if_False)
qed

lemma bytesArr_loop_ok:
  assumes "sum_list (map (\<lambda>b. 96 + length b) bs) + 32 * pads < 2 ^ 30"
  shows "\<exists>offs datas. bytesArr_loop n bs i pads = Inr (offs, datas) \<and> length offs = 32 * length bs \<and> 32 dvd length datas \<and>
    length datas \<le> sum_list (map (\<lambda>b. 64 + length b) bs) \<and>
    (\<forall>data arrayStart. length data < 2 ^ 64 \<longrightarrow> sits offs data (unat arrayStart + 32 + 32 * i) \<longrightarrow>
       sits datas data (unat arrayStart + 32 + (32 * n + 32 * i + 32 * pads)) \<longrightarrow>
       arr_loop (decode_bytes_elem msg data arrayStart) i (length bs) = Inr bs)"
  using assms
proof (induction bs arbitrary: i pads)
  case (Cons b bs)
  have b: "length b < 2 ^ 30" using Cons.prems by simp
  obtain p where p: "pad_loop 0 (length b) = Inr p" "32 dvd p" "length b \<le> p" "32 \<le> p" "p \<le> length b + 32"
    using pad_loop_ok [of "length b" 0] b by auto
  obtain k where k: "p = 32 * k" using p(2) by (elim dvdE)
  have "sum_list (map (\<lambda>b. 96 + length b) bs) + 32 * (pads + p div 32) < 2 ^ 30" using Cons.prems p(5) k by simp
  from Cons.IH [OF this, of "i + 1"] obtain offs datas where
    loop: "bytesArr_loop n bs (i + 1) (pads + p div 32) = Inr (offs, datas)" "length offs = 32 * length bs" "32 dvd length datas"
      "length datas \<le> sum_list (map (\<lambda>b. 64 + length b) bs)"
    and dec: "\<And>data arrayStart. length data < 2 ^ 64 \<Longrightarrow> sits offs data (unat arrayStart + 32 + 32 * (i + 1)) \<Longrightarrow>
       sits datas data (unat arrayStart + 32 + (32 * n + 32 * (i + 1) + 32 * (pads + p div 32))) \<Longrightarrow>
       arr_loop (decode_bytes_elem msg data arrayStart) (i + 1) (length bs) = Inr bs" by blast
  define z where "z = replicate (p - length b) (0 :: byte)"
  have pad: "padRightBytes (padRightBytes b p 0) 32 0 = b @ z" "length (b @ z) = p" using p(3,4) by (simp_all add: padRightBytes_def Let_def z_def)
  let ?q = "32 * n + 32 * i + 32 * pads"
  let ?offs = "encodeSize (of_nat ?q) @ offs" and ?datas = "encodeSize (of_nat (length b)) @ (b @ z) @ datas"
  have run: "bytesArr_loop n (b # bs) i pads = Inr (?offs, ?datas)" using Cons.prems p(1) loop(1) pad(1) by simp
  have "arr_loop (decode_bytes_elem msg data arrayStart) i (length (b # bs)) = Inr (b # bs)"
    if h: "length data < 2 ^ 64" "sits ?offs data (unat arrayStart + 32 + 32 * i)" "sits ?datas data (unat arrayStart + 32 + ?q)" for data arrayStart
  proof -
    have "sits (encodeSize (of_nat (length b)) @ b @ (z @ datas)) data (unat arrayStart + 32 + ?q)" using h(3) by simp
    then have "decode_bytes_elem msg data arrayStart i = Inr b" by (rule decode_bytes_elem_sits [OF h(1) sits_append(1) [OF h(2)]])
    moreover have "sits offs data (unat arrayStart + 32 + 32 * (i + 1))" using sits_append(2) [OF h(2)] by (simp add: algebra_simps)
    moreover have "sits datas data (unat arrayStart + 32 + (32 * n + 32 * (i + 1) + 32 * (pads + p div 32)))"
    proof -
      have "unat arrayStart + 32 + ?q + length (encodeSize (of_nat (length b))) + length (b @ z) =
          unat arrayStart + 32 + (32 * n + 32 * (i + 1) + 32 * (pads + p div 32))" unfolding pad(2) using k by simp
      then show ?thesis using sits_append(2) [OF sits_append(2) [OF h(3)]] by (simp only:)
    qed
    ultimately show ?thesis using dec [OF h(1)] by simp
  qed
  moreover have l: "length ?datas = 32 + p + length datas" using pad(2) by simp
  have "32 dvd length ?datas" unfolding l using loop(3) p(2) by (intro dvd_add) simp_all
  moreover have "length ?datas \<le> sum_list (map (\<lambda>b. 64 + length b) (b # bs))" unfolding l using loop(4) p(5) by simp
  moreover have "length ?offs = 32 * length (b # bs)" using loop(2) by simp
  ultimately show ?case using run by blast
qed simp


subsection \<open>Arguments\<close>

fun abi_type_of :: "abi_val \<Rightarrow> abi_type" where
  "abi_type_of (VUint256 _) = T_uint256" | "abi_type_of (VUint256Arr _) = T_uint256Arr" | "abi_type_of (VAddress _) = T_address"
| "abi_type_of (VAddressArr _) = T_addressArr" | "abi_type_of (VBool _) = T_boolean" | "abi_type_of (VBoolArr _) = T_booleanArr"
| "abi_type_of (VBytes _) = T_bytes" | "abi_type_of (VBytesEncoded _) = T_bytes" | "abi_type_of (VBytesArr _) = T_bytesArr"
| "abi_type_of (VString _) = T_string" | "abi_type_of (VStringArr _) = T_stringArr"

text \<open>What the decoder can return: an address has 20 bytes, and bytes that were encoded before come back as plain bytes.\<close>

fun abi_ok :: "abi_val \<Rightarrow> bool" where
  "abi_ok (VAddress a) \<longleftrightarrow> length a = 20"
| "abi_ok (VAddressArr as) \<longleftrightarrow> (\<forall>a\<in>set as. length a = 20)"
| "abi_ok (VBytesEncoded _) \<longleftrightarrow> False"
| "abi_ok _ \<longleftrightarrow> True"

fun abi_size :: "abi_val \<Rightarrow> nat" where
  "abi_size (VBytes b) = 96 + length b" | "abi_size (VBytesEncoded b) = 96 + length b" | "abi_size (VString b) = 96 + length b"
| "abi_size (VUint256Arr xs) = 64 + 32 * length xs" | "abi_size (VAddressArr xs) = 64 + 32 * length xs" | "abi_size (VBoolArr xs) = 64 + 32 * length xs"
| "abi_size (VBytesArr bs) = 64 + sum_list (map (\<lambda>b. 96 + length b) bs)" | "abi_size (VStringArr bs) = 64 + sum_list (map (\<lambda>b. 96 + length b) bs)"
| "abi_size _ = 32"

text \<open>An argument is encoded as one word and a dynamic part, from which it is decoded wherever they are placed.\<close>

definition encoded :: "uint64 \<Rightarrow> abi_val \<Rightarrow> bytes \<Rightarrow> bytes \<Rightarrow> bool" where
  "encoded off v d dyn \<longleftrightarrow> encode_arg off v = Inr (d, dyn, off + of_nat (length dyn)) \<and> length d = 32 \<and> 32 + length dyn \<le> abi_size v \<and>
     (\<forall>data idx. length data < 2 ^ 64 \<longrightarrow> sits d data (unat idx) \<longrightarrow> sits dyn data (unat off) \<longrightarrow> decode_arg data (abi_type_of v) idx = Inr v)"

lemma encode_dynamic_ok: "r = Inr packed \<Longrightarrow> 32 dvd length packed \<Longrightarrow>
    encode_dynamic off r = Inr (encodeSize off, packed, off + of_nat (length packed))"
  by (elim dvdE) (simp add: encode_dynamic_def)

lemma encode_bytes_arg:
  assumes "length b < 2 ^ 30" "v = VBytes b \<or> v = VString b"
  shows "\<exists>d dyn. encoded off v d dyn"
proof -
  obtain z where z: "encodeBytes b = Inr (encodeSize (of_nat (length b)) @ b @ z)" "32 dvd length (b @ z)" "length (b @ z) \<le> length b + 32"
    using encodeBytes_ok [OF assms(1)] .
  let ?p = "encodeSize (of_nat (length b)) @ b @ z"
  have "32 dvd length ?p" using z(2) by (simp only: length_append encodeSize_facts dvd_add_triv_left_iff)
  note run = encode_dynamic_ok [OF z(1) this, of off]
  have "decode_arg data (abi_type_of v) idx = Inr v"
    if "length data < 2 ^ 64" "sits (encodeSize off) data (unat idx)" "sits ?p data (unat off)" for data idx
    using decode_bytes_sits [OF that(2,3,1)] assms(2) by (auto simp: decode_arg_def decodeBytes_def decodeString_def)
  then have "encoded off v (encodeSize off) ?p" unfolding encoded_def using run z(3) assms(2) by (auto simp del: of_nat_add of_nat_Suc)
  then show ?thesis by blast
qed

lemma encode_bytesArr_arg:
  assumes "sum_list (map (\<lambda>b. 96 + length b) bs) < 2 ^ 30" "v = VBytesArr bs \<or> v = VStringArr bs"
  shows "\<exists>d dyn. encoded off v d dyn"
proof -
  define msg where "msg = (if v = VBytesArr bs then ''Data too short for bytes[]'' else ''Data too short for string[]'')"
  obtain offs datas where loop: "bytesArr_loop (length bs) bs 0 0 = Inr (offs, datas)" "length offs = 32 * length bs" "32 dvd length datas"
      "length datas \<le> sum_list (map (\<lambda>b. 64 + length b) bs)"
    and dec: "\<And>data arrayStart. length data < 2 ^ 64 \<Longrightarrow> sits offs data (unat arrayStart + 32 + 32 * 0) \<Longrightarrow>
       sits datas data (unat arrayStart + 32 + (32 * length bs + 32 * 0 + 32 * 0)) \<Longrightarrow>
       arr_loop (decode_bytes_elem msg data arrayStart) 0 (length bs) = Inr bs"
    using bytesArr_loop_ok [of bs 0 "length bs" 0 msg] assms(1) by auto
  let ?p = "encodeSize (of_nat (length bs)) @ offs @ datas"
  have p: "encodeBytesArr bs = Inr ?p" by (simp add: encodeBytesArr_def loop(1))
  have "32 dvd length ?p" using loop(2,3) by simp
  note run = encode_dynamic_ok [OF p this, of off]
  have "decode_bytesArr_at msg data idx = Inr bs"
    if h: "length data < 2 ^ 64" "sits (encodeSize off) data (unat idx)" "sits ?p data (unat off)" for data idx
  proof -
    note s = sits_append [OF h(3)]
    have o: "sits offs data (unat off + 32)" "sits datas data (unat off + 32 + 32 * length bs)"
      using sits_append [OF s(2)] by (simp_all add: loop(2))
    have "length bs < 2 ^ 64" using sits_length [OF o(1)] h(1) by (simp add: loop(2))
    then have n: "unat (of_nat (length bs) :: uint64) = length bs" by (intro unat_of_nat_eq) simp
    show ?thesis
      unfolding decode_bytesArr_at_def get_word_sits [OF h(2,1)] bindR_Inr get_word_sits [OF s(1) h(1)] n
      using dec [OF h(1), of off] o by simp
  qed
  then have "decode_arg data (abi_type_of v) idx = Inr v"
    if "length data < 2 ^ 64" "sits (encodeSize off) data (unat idx)" "sits ?p data (unat off)" for data idx
    using that assms(2) by (auto simp: decode_arg_def decodeBytesArr_def decodeStringArr_def msg_def)
  moreover have "32 * length bs + sum_list (map (\<lambda>b. 64 + length b) bs) = sum_list (map (\<lambda>b. 96 + length b) bs)" by (induction bs) simp_all
  then have "32 + length ?p \<le> abi_size v" using assms(2) loop(2,4) by auto
  ultimately have "encoded off v (encodeSize off) ?p" unfolding encoded_def using run assms(2) by (auto simp del: of_nat_add of_nat_Suc)
  then show ?thesis by blast
qed


lemma encode_words_arg:
  assumes arg: "encode_arg off v = encode_array off (length xs) (encodeSize (of_nat (length xs)) @ concat (map enc xs))"
    and enc: "\<And>x. x \<in> set xs \<Longrightarrow> length (enc x) = 32" and size: "abi_size v = 64 + 32 * length xs"
    and elem: "\<And>data p x. x \<in> set xs \<Longrightarrow> sits (enc x) data p \<Longrightarrow> elem data p = Inr x"
    and dec: "\<And>data idx. decode_words_at msg elem data idx = Inr xs \<Longrightarrow> decode_arg data (abi_type_of v) idx = Inr v"
  shows "\<exists>d dyn. encoded off v d dyn"
proof -
  let ?p = "encodeSize (of_nat (length xs)) @ concat (map enc xs)"
  have "length (concat (map enc xs)) = 32 * length xs" using enc by (induction xs) auto
  then have len: "length ?p = 32 + 32 * length xs" by simp
  have "decode_arg data (abi_type_of v) idx = Inr v"
    if "length data < 2 ^ 64" "sits (encodeSize off) data (unat idx)" "sits ?p data (unat off)" for data idx
    using decode_words_sits [OF that(2,3,1) enc elem] by (intro dec)
  moreover have "encode_arg off v = Inr (encodeSize off, ?p, off + of_nat (length ?p))" unfolding arg encode_array_def len by simp
  ultimately have "encoded off v (encodeSize off) ?p" unfolding encoded_def using len size by simp
  then show ?thesis by blast
qed

lemma elem_address: "length a = 20 \<Longrightarrow> sits (encodeAddress a) data p \<Longrightarrow> subspan data (p + 12) 20 = Inr a"
proof -
  assume a: "length a = 20" and s: "sits (encodeAddress a) data p"
  have "drop 12 (encodeAddress a) = a" using a by (simp add: encodeAddress_def padLeftBytes_def Let_def)
  then have "sits a data (p + 12)" using sits_drop [OF s, of 12] length_encode(2) [OF a] by simp
  then show ?thesis by (rule sits_subspan) (simp add: a)
qed

lemma elem_bool: "sits (encodeBool b) data p \<Longrightarrow> bindR (at_idx data (p + 31)) (\<lambda>b. Inr (b = 1)) = Inr b"
proof -
  assume s: "sits (encodeBool b) data p"
  have "encodeBool b ! 31 = (if b then 1 else 0)" by (simp add: encodeBool_def padLeftBytes_def Let_def nth_append)
  then have "at_idx data (p + 31) = Inr (if b then 1 else 0)" using sits_idx [OF s, of 31] by simp
  then show ?thesis by (cases b) simp_all
qed

lemma elem_uint256: "sits (encodeUint256 x) data p \<Longrightarrow> bindR (subspan data p 32) bytesToUint256 = Inr x"
  using sits_subspan [of "encodeUint256 x" data p 32] by (simp add: encodeUint256_eq c256.enc_length c256.dec_enc)

lemma encode_static_arg:
  assumes "encode_arg off v = Inr (d, [], off)" "length d = 32" "abi_size v = 32"
    "\<And>data idx. length data < 2 ^ 64 \<Longrightarrow> sits d data (unat idx) \<Longrightarrow> decode_arg data (abi_type_of v) idx = Inr v"
  shows "\<exists>d dyn. encoded off v d dyn"
  using assms by (intro exI [of _ d] exI [of _ "[]"]) (simp add: encoded_def)

lemma encode_arg_ok:
  assumes "abi_ok v" "abi_size v < 2 ^ 30"
  shows "\<exists>d dyn. encoded off v d dyn"
proof (cases v)
  case (VUint256 x)
  then show ?thesis by (intro encode_static_arg [of _ _ "encodeUint256 x"]) (simp_all add: decode_arg_def decodeUint256_sits)
next
  case (VAddress a)
  then show ?thesis using assms(1) by (intro encode_static_arg [of _ _ "encodeAddress a"]) (simp_all add: decode_arg_def decodeAddress_sits)
next
  case (VBool b)
  then show ?thesis by (intro encode_static_arg [of _ _ "encodeBool b"]) (simp_all add: decode_arg_def decodeBool_sits)
next
  case (VUint256Arr xs)
  then show ?thesis
    by (intro encode_words_arg [where enc = encodeUint256 and xs = xs and elem = "\<lambda>data p. bindR (subspan data p 32) bytesToUint256"
          and msg = "''Data too short for uint256[]''"])
       (simp_all add: encodeUint256Arr_def elem_uint256 decode_arg_def decodeUint256Arr_def)
next
  case (VAddressArr xs)
  then show ?thesis
    using assms(1)
    by (intro encode_words_arg [where enc = encodeAddress and xs = xs and elem = "\<lambda>data p. subspan data (p + 12) 20"
          and msg = "''Data too short for address[]''"])
       (simp_all add: encodeAddressArr_def elem_address decode_arg_def decodeAddressArr_def)
next
  case (VBoolArr xs)
  then show ?thesis
    by (intro encode_words_arg [where enc = encodeBool and xs = xs and elem = "\<lambda>data p. bindR (at_idx data (p + 31)) (\<lambda>b. Inr (b = 1))"
          and msg = "''Data too short for bool[]''"])
       (simp_all add: encodeBoolArr_def elem_bool decode_arg_def decodeBoolArr_def)
next
  case (VBytes b)
  then show ?thesis using assms by (intro encode_bytes_arg [of b]) simp_all
next
  case (VString b)
  then show ?thesis using assms by (intro encode_bytes_arg [of b]) simp_all
next
  case (VBytesArr bs)
  then show ?thesis using assms by (intro encode_bytesArr_arg [of bs]) simp_all
next
  case (VStringArr bs)
  then show ?thesis using assms by (intro encode_bytesArr_arg [of bs]) simp_all
qed (use assms in simp)

lemma encode_args_ok:
  assumes "\<forall>v\<in>set vs. abi_ok v" "sum_list (map abi_size vs) < 2 ^ 30"
  shows "\<exists>ds dyns. encode_args off vs = Inr (ds, dyns) \<and> length ds = 32 * length vs \<and> length ds + length dyns \<le> sum_list (map abi_size vs) \<and>
    (\<forall>data idx. length data < 2 ^ 64 \<longrightarrow> sits ds data (unat idx) \<longrightarrow> sits dyns data (unat off) \<longrightarrow>
       decode_args data (map abi_type_of vs) idx = Inr vs)"
  using assms
proof (induction vs arbitrary: off)
  case (Cons v vs)
  obtain d dyn where v: "encoded off v d dyn" using encode_arg_ok [of v off] Cons.prems by auto
  let ?off = "off + of_nat (length dyn)"
  obtain ds dyns where vs: "encode_args ?off vs = Inr (ds, dyns)" "length ds = 32 * length vs" "length ds + length dyns \<le> sum_list (map abi_size vs)"
    and dec: "\<And>data idx. length data < 2 ^ 64 \<Longrightarrow> sits ds data (unat idx) \<Longrightarrow> sits dyns data (unat ?off) \<Longrightarrow>
      decode_args data (map abi_type_of vs) idx = Inr vs"
    using Cons.IH [of ?off] Cons.prems by auto
  have d: "encode_arg off v = Inr (d, dyn, ?off)" "length d = 32" "32 + length dyn \<le> abi_size v" using v by (simp_all add: encoded_def)
  have "decode_args data (map abi_type_of (v # vs)) idx = Inr (v # vs)"
    if h: "length data < 2 ^ 64" "sits (d @ ds) data (unat idx)" "sits (dyn @ dyns) data (unat off)" for data idx
  proof -
    note s = sits_append [OF h(2)] and t = sits_append [OF h(3)]
    have "unat ?off = unat off + length dyn" using sits_length [OF t(1)] h(1) by (intro unat_plus) simp
    moreover have "unat (idx + 32) = unat idx + 32" using sits_length [OF s(1)] h(1) unat_plus [of idx 32] by (simp add: d(2))
    ultimately have "decode_args data (map abi_type_of vs) (idx + 32) = Inr vs" using s(2) t(2) by (intro dec [OF h(1)]) (simp_all add: d(2))
    moreover have "decode_arg data (abi_type_of v) idx = Inr v" using v h(1) s(1) t(1) unfolding encoded_def by blast
    ultimately show ?thesis by simp
  qed
  moreover have "encode_args off (v # vs) = Inr (d @ ds, dyn @ dyns)" by (simp add: d(1) vs(1))
  moreover have "length (d @ ds) = 32 * length (v # vs)" "length (d @ ds) + length (dyn @ dyns) \<le> sum_list (map abi_size (v # vs))"
    using d(2,3) vs(2,3) by simp_all
  ultimately show ?case by blast
qed simp

subsection \<open>Reading decoded arguments\<close>

lemma decode_arg_alternative: "decode_arg data t idx = Inr v \<Longrightarrow> alternative t v"
  by (auto simp: decode_arg_def bindR_eq_Inr split: if_splits)

text \<open>What the decoder returned can be read with the types it was given, each at its position.\<close>

lemma decode_args_dispatch: "decode_args data ts idx = Inr vs \<Longrightarrow> length vs = length ts \<and> (\<forall>i<length ts. getDataDispatch vs i (ts ! i) = Inr (vs ! i))"
proof (induction ts arbitrary: idx vs)
  case (Cons t ts)
  then obtain w ws where w: "decode_arg data t idx = Inr w" "decode_args data ts (idx + 32) = Inr ws" "vs = w # ws" by (auto simp: bindR_eq_Inr)
  have "getDataDispatch vs i ((t # ts) ! i) = Inr (vs ! i)" if "i < length (t # ts)" for i
    using Cons.IH [OF w(2)] decode_arg_alternative [OF w(1)] that by (cases i) (auto simp: w(3) getDataDispatch_def split: if_splits)
  then show ?case using Cons.IH [OF w(2)] w(3) by simp
qed simp

lemma ABI_Decoder_dispatch:
  "ABI_Decoder ts data = Inr vs \<Longrightarrow> i < length ts \<Longrightarrow> getDataDispatch vs i (ts ! i) = Inr (vs ! i)"
  using decode_args_dispatch by (auto simp: ABI_Decoder_def)

subsection \<open>What the code does not check\<close>

text \<open>The check of an offset is made on a 64-bit sum that wraps around: the offset \<open>2 ^ 64 - 16\<close> passes it and is read outside the data.\<close>

lemma offset_overflow_reads_outside: "decodeBytes (encodeSize (- 16)) 0 = Inl UndefinedBehaviour"
proof -
  have "sits (encodeSize (- 16)) (encodeSize (- 16)) (unat (0 :: uint64))" unfolding sits_def by (intro exI [of _ "[]"]) simp
  then have "get_word msg (encodeSize (- 16)) 0 = Inr (- 16)" for msg by (rule get_word_sits) simp
  moreover have "unat (- 16 + 32 :: uint64) = 16" "unat (- 16 :: uint64) = 2 ^ 64 - 16" by simp_all
  then have "get_word msg (encodeSize (- 16)) (- 16) = Inl UndefinedBehaviour" for msg by (simp add: get_word_def subspan_def)
  ultimately show ?thesis by (simp only: decodeBytes_def decode_bytes_at_def bindR_Inr bindR_Inl)
qed

text \<open>When a header has fewer types than there are arguments, the last \<open>npos\<close> makes the check start over.\<close>

lemma header_count_unchecked: "check_header ''f(uint256)'' [VUint256 a, VUint256 b] = Inr ()"
  by code_simp

text \<open>A vector of \<^verbatim>\<open>bool\<close>, strings or byte strings as a parameter is decoded as \<^verbatim>\<open>uint256[]\<close>; a vector of small integers as such too.\<close>

lemma vector_types_collapse: "ABIType (C_vector C_bool) = T_uint256Arr" "ABIType (C_vector C_string) = T_uint256Arr"
    "ABIType (C_vector (C_vector C_uint8)) = T_uint256Arr" "ABIType (C_vector C_uint64) = T_uint256Arr"
  by simp_all

section \<open>Properties\<close>

text \<open>
  C18. Arguments survive the ABI: the encoder returns, and the decoder with the types of the arguments returns the
  arguments from the encoded data, for all types of values. Addresses have 20 bytes, and the arguments take less than
  \<open>2 ^ 30\<close> bytes.
\<close>

theorem ABI_roundtrip:
  assumes "\<forall>v\<in>set vs. abi_ok v" "sum_list (map abi_size vs) < 2 ^ 30"
  shows "\<exists>data. ABI_Encoder cr vs '''' = Inr (None, data) \<and> ABI_Decoder (map abi_type_of vs) data = Inr vs"
proof -
  let ?off = "32 * of_nat (length vs) :: uint64"
  obtain ds dyns where e: "encode_args ?off vs = Inr (ds, dyns)" "length ds = 32 * length vs" "length ds + length dyns \<le> sum_list (map abi_size vs)"
    and dec: "\<And>data idx. length data < 2 ^ 64 \<Longrightarrow> sits ds data (unat idx) \<Longrightarrow> sits dyns data (unat ?off) \<Longrightarrow>
      decode_args data (map abi_type_of vs) idx = Inr vs"
    using encode_args_ok [OF assms, of ?off] by blast
  have len: "length (ds @ dyns) < 2 ^ 64" using e(3) assms(2) by simp
  have "unat (of_nat (32 * length vs) :: uint64) = 32 * length vs" using len e(2) by (intro unat_of_nat_eq) simp
  then have "sits dyns (ds @ dyns) (unat ?off)" unfolding sits_def by (intro exI [of _ ds] exI [of _ "[]"]) (simp add: e(2))
  moreover have "sits ds (ds @ dyns) (unat (0 :: uint64))" unfolding sits_def by (intro exI [of _ "[]"] exI [of _ dyns]) simp
  ultimately have "ABI_Decoder (map abi_type_of vs) (ds @ dyns) = Inr vs" unfolding ABI_Decoder_def by (intro dec [OF len])
  then show ?thesis by (intro exI [of _ "ds @ dyns"]) (simp add: ABI_Encoder_def e(1))
qed

theorem ABI_roundtrip_witness:
  "\<exists>data. ABI_Encoder demo_crypto [VUint256 7, VString [1, 2, 3], VBytesArr [[4], [], [5, 6]], VBoolArr [True, False]] '''' = Inr (None, data) \<and>
     ABI_Decoder [T_uint256, T_string, T_bytesArr, T_booleanArr] data =
       Inr [VUint256 7, VString [1, 2, 3], VBytesArr [[4], [], [5, 6]], VBoolArr [True, False]]"
  using ABI_roundtrip [of "[VUint256 7, VString [1, 2, 3], VBytesArr [[4], [], [5, 6]], VBoolArr [True, False]]" demo_crypto] by simp

end
