(* ===== verification/Router.thy ===== *)
theory Router
  imports Dex Abi
begin

text \<open>
  The router of the exchange (\<^verbatim>\<open>contract/dexv2/dexv2router02.cpp\<close>): liquidity and swaps along a path with the bounds that the
  caller sets. The contracts it calls are arbitrary contracts behind addresses, so their functions are the fields of
  \<open>router_env\<close>, over a state \<open>'w\<close> of all contracts; what the router decides itself is the model.
\<close>

section \<open>Environment\<close>

text \<open>The functions of other contracts that the router calls, and what it reads of the running call.\<close>

record 'w router_env =
  re_getPair :: "Address \<Rightarrow> Address \<Rightarrow> 'w \<Rightarrow> Address res"
  re_getReservess :: "Address \<Rightarrow> 'w \<Rightarrow> (uint256 \<times> uint256) res"
  re_createPair :: "Address \<Rightarrow> Address \<Rightarrow> ('w, Address) sres"
  re_transferFrom :: "Address \<Rightarrow> Address \<Rightarrow> Address \<Rightarrow> uint256 \<Rightarrow> ('w, unit) sres"
  re_transfer :: "Address \<Rightarrow> Address \<Rightarrow> uint256 \<Rightarrow> ('w, unit) sres"
  re_mint :: "Address \<Rightarrow> Address \<Rightarrow> ('w, uint256) sres"
  re_burn :: "Address \<Rightarrow> Address \<Rightarrow> ('w, bytes) sres"
  re_swap :: "Address \<Rightarrow> uint256 \<Rightarrow> uint256 \<Rightarrow> Address \<Rightarrow> ('w, unit) sres"
  re_deposit :: "uint256 \<Rightarrow> Address \<Rightarrow> ('w, unit) sres"
  re_withdraw :: "Address \<Rightarrow> uint256 \<Rightarrow> ('w, unit) sres"
  re_sendTokens :: "Address \<Rightarrow> uint256 \<Rightarrow> ('w, unit) sres"
  re_wrappedNative :: Address
  re_caller :: Address
  re_value :: uint256
  re_address :: Address
  re_timestamp :: uint256

section \<open>Operations\<close>

definition viewS :: "('w \<Rightarrow> 'a res) \<Rightarrow> ('w, 'a) sres" where
  "viewS f w = (w, f w)"

definition ensure :: "'w router_env \<Rightarrow> uint256 \<Rightarrow> ('w, unit) sres" where
  "ensure E deadline =
     (if deadline < re_timestamp E then throwS (RuntimeError ''DEXV2Router02::ensure: EXPIRED'') else retS ())"

text \<open>\<open>getReserves\<close> of the library: the reserves as the pair returns them, not in the order of the tokens.\<close>

definition lib_getReserves :: "'w router_env \<Rightarrow> 'w \<Rightarrow> Address \<Rightarrow> Address \<Rightarrow> (uint256 \<times> uint256) res" where
  "lib_getReserves E w a b = bindR (re_getPair E a b w) (\<lambda>pair. re_getReservess E pair w)"

definition liquidity_amounts :: "uint256 \<times> uint256 \<Rightarrow> uint256 \<Rightarrow> uint256 \<Rightarrow> uint256 \<Rightarrow> uint256 \<Rightarrow> (uint256 \<times> uint256) res" where
  "liquidity_amounts reserves amountADesired amountBDesired amountAMin amountBMin =
     (let (reserveA, reserveB) = reserves in
      if reserveA = 0 \<and> reserveB = 0 then Inr (amountADesired, amountBDesired)
      else bindR (quote amountADesired reserveA reserveB) (\<lambda>amountBoptimal.
        if amountBoptimal \<le> amountBDesired then
          if amountBoptimal < amountBMin then Inl (RuntimeError ''DEXV2Router02::_addLiquidity: INSUFFICIENT_B_AMOUNT'')
          else Inr (amountADesired, amountBoptimal)
        else bindR (quote amountBDesired reserveB reserveA) (\<lambda>amountAoptimal.
          if amountAoptimal \<le> amountADesired then
            if amountAoptimal < amountAMin then Inl (RuntimeError ''DEXV2Router02::_addLiquidity: INSUFFICIENT_A_AMOUNT'')
            else Inr (amountAoptimal, amountBDesired)
          else Inl (RuntimeError ''DEXV2Router02::_addLiquidity: INSUFFICIENT_A_AMOUNT''))))"

definition add_liquidity_amounts ::
  "'w router_env \<Rightarrow> Address \<Rightarrow> Address \<Rightarrow> uint256 \<Rightarrow> uint256 \<Rightarrow> uint256 \<Rightarrow> uint256 \<Rightarrow> ('w, uint256 \<times> uint256) sres" where
  "add_liquidity_amounts E tokenA tokenB amountADesired amountBDesired amountAMin amountBMin =
     bindS (viewS (re_getPair E tokenA tokenB)) (\<lambda>found.
     bindS (if found = zero_address then re_createPair E tokenA tokenB else retS found) (\<lambda>pair.
     bindS (viewS (re_getReservess E pair)) (\<lambda>reserves.
     liftS (liquidity_amounts reserves amountADesired amountBDesired amountAMin amountBMin))))"

text \<open>\<open>_swap\<close>: one swap per hop, the output of a hop goes to the pair of the next one.\<close>

fun router_swap :: "'w router_env \<Rightarrow> uint256 list \<Rightarrow> Address list \<Rightarrow> Address \<Rightarrow> ('w, unit) sres" where
  "router_swap E (x # amountOut # amounts) (input # output # path) dest =
     bindS (viewS (re_getPair E input output)) (\<lambda>pair.
     if pair = zero_address then throwS (RuntimeError ''DEXV2Router02::_swap: PAIR_NOT_FOUND'')
     else bindS (liftS (sortTokens input output)) (\<lambda>(token0, _).
       bindS (case path of [] \<Rightarrow> retS dest | b # _ \<Rightarrow> viewS (re_getPair E output b)) (\<lambda>to.
       bindS (if input = token0 then re_swap E pair 0 amountOut to else re_swap E pair amountOut 0 to) (\<lambda>_.
       router_swap E (amountOut # amounts) (output # path) dest))))"
| "router_swap E amounts [token] dest = retS ()"
| "router_swap E amounts path dest = throwS UndefinedBehaviour"

definition encoded_amounts :: "crypto \<Rightarrow> uint256 list \<Rightarrow> ('w, bytes) sres" where
  "encoded_amounts cr xs = liftS (bindR (ABI_Encoder cr (map VUint256 xs) '''') (\<lambda>(functor, data). Inr data))"

definition addLiquidity ::
  "crypto \<Rightarrow> 'w router_env \<Rightarrow> Address \<Rightarrow> Address \<Rightarrow> uint256 \<Rightarrow> uint256 \<Rightarrow> uint256 \<Rightarrow> uint256 \<Rightarrow> Address \<Rightarrow> uint256 \<Rightarrow> ('w, bytes) sres" where
  "addLiquidity cr E tokenA tokenB amountADesired amountBDesired amountAMin amountBMin to deadline =
     bindS (ensure E deadline) (\<lambda>_.
     bindS (add_liquidity_amounts E tokenA tokenB amountADesired amountBDesired amountAMin amountBMin) (\<lambda>(amountA, amountB).
     bindS (viewS (re_getPair E tokenA tokenB)) (\<lambda>pair.
     bindS (re_transferFrom E tokenA (re_caller E) pair amountA) (\<lambda>_.
     bindS (re_transferFrom E tokenB (re_caller E) pair amountB) (\<lambda>_.
     bindS (re_mint E pair to) (\<lambda>liquidity.
     encoded_amounts cr [amountA, amountB, liquidity]))))))"

definition addLiquidityNative ::
  "crypto \<Rightarrow> 'w router_env \<Rightarrow> Address \<Rightarrow> uint256 \<Rightarrow> uint256 \<Rightarrow> uint256 \<Rightarrow> Address \<Rightarrow> uint256 \<Rightarrow> ('w, bytes) sres" where
  "addLiquidityNative cr E token amountTokenDesired amountTokenMin amountNativeMin to deadline =
     bindS (ensure E deadline) (\<lambda>_.
     bindS (add_liquidity_amounts E token (re_wrappedNative E) amountTokenDesired amountNativeMin amountTokenMin amountNativeMin)
       (\<lambda>(amountToken, amountNative).
     bindS (viewS (re_getPair E token (re_wrappedNative E))) (\<lambda>pair.
     bindS (re_transferFrom E token (re_caller E) pair amountToken) (\<lambda>_.
     bindS (re_deposit E amountNative (re_wrappedNative E)) (\<lambda>_.
     bindS (re_transferFrom E (re_wrappedNative E) (re_caller E) pair amountNative) (\<lambda>_.
     bindS (re_mint E pair to) (\<lambda>liquidity.
     bindS (if re_value E > amountNative
            then bindS (liftS (checked_sub (re_value E) amountNative)) (re_sendTokens E (re_caller E)) else retS ()) (\<lambda>_.
     encoded_amounts cr [amountToken, amountNative, liquidity]))))))))"

text \<open>\<open>getData<uint256_t>\<close> of the two amounts that a pair or the router itself returned encoded.\<close>

definition two_amounts :: "bytes \<Rightarrow> (uint256 \<times> uint256) res" where
  "two_amounts data =
     bindR (ABI_Decoder [T_uint256, T_uint256] data) (\<lambda>vs. case vs of
        [VUint256 a, VUint256 b] \<Rightarrow> Inr (a, b) | _ \<Rightarrow> Inl (RuntimeError ''Type mismatch''))"

definition removeLiquidity ::
  "crypto \<Rightarrow> 'w router_env \<Rightarrow> Address \<Rightarrow> Address \<Rightarrow> uint256 \<Rightarrow> uint256 \<Rightarrow> uint256 \<Rightarrow> Address \<Rightarrow> uint256 \<Rightarrow> ('w, bytes) sres" where
  "removeLiquidity cr E tokenA tokenB liquidity amountAMin amountBMin to deadline =
     bindS (ensure E deadline) (\<lambda>_.
     bindS (viewS (re_getPair E tokenA tokenB)) (\<lambda>pair.
     bindS (re_transferFrom E pair (re_caller E) pair liquidity) (\<lambda>_.
     bindS (re_burn E pair to) (\<lambda>burned.
     bindS (liftS (two_amounts burned)) (\<lambda>(amount0, amount1).
     bindS (liftS (sortTokens tokenA tokenB)) (\<lambda>(token0, _).
     let amountA = (if tokenA = token0 then amount0 else amount1);
         amountB = (if tokenA = token0 then amount1 else amount0) in
     if amountA < amountAMin then throwS (RuntimeError ''DEXV2Router02::removeLiquidity: INSUFFICIENT_A_AMOUNT'')
     else if amountB < amountBMin then throwS (RuntimeError ''DEXV2Router02::removeLiquidity: INSUFFICIENT_B_AMOUNT'')
     else encoded_amounts cr [amountA, amountB]))))))"

definition removeLiquidityNative ::
  "crypto \<Rightarrow> 'w router_env \<Rightarrow> Address \<Rightarrow> uint256 \<Rightarrow> uint256 \<Rightarrow> uint256 \<Rightarrow> Address \<Rightarrow> uint256 \<Rightarrow> ('w, bytes) sres" where
  "removeLiquidityNative cr E token liquidity amountTokenMin amountNativeMin to deadline =
     bindS (ensure E deadline) (\<lambda>_.
     bindS (removeLiquidity cr E token (re_wrappedNative E) liquidity amountTokenMin amountNativeMin (re_address E) deadline) (\<lambda>data.
     bindS (liftS (two_amounts data)) (\<lambda>(amountToken, amountNative).
     bindS (re_transfer E token to amountToken) (\<lambda>_.
     bindS (re_withdraw E (re_wrappedNative E) amountNative) (\<lambda>_.
     bindS (re_sendTokens E (re_caller E) amountNative) (\<lambda>_.
     encoded_amounts cr [amountToken, amountNative]))))))"

text \<open>
  The six swaps. \<open>amounts_from\<close> and \<open>amounts_to\<close> are the amounts along the path with the check of the caller's bound,
  which differs in its message.
\<close>

definition amounts_from :: "'w router_env \<Rightarrow> string \<Rightarrow> uint256 \<Rightarrow> uint256 \<Rightarrow> Address list \<Rightarrow> ('w, uint256 list) sres" where
  "amounts_from E msg amountIn amountOutMin path =
     bindS (viewS (\<lambda>w. getAmountsOut (lib_getReserves E w) amountIn path)) (\<lambda>amounts.
     if last amounts < amountOutMin then throwS (RuntimeError msg) else retS amounts)"

definition amounts_to :: "'w router_env \<Rightarrow> string \<Rightarrow> uint256 \<Rightarrow> uint256 \<Rightarrow> Address list \<Rightarrow> ('w, uint256 list) sres" where
  "amounts_to E msg amountOut amountInMax path =
     bindS (viewS (\<lambda>w. getAmountsIn (lib_getReserves E w) amountOut path)) (\<lambda>amounts.
     if hd amounts > amountInMax then throwS (RuntimeError msg) else retS amounts)"

text \<open>Paying the first pair: from the tokens of the caller, or from wrapped native tokens of the router.\<close>

definition pay_tokens :: "'w router_env \<Rightarrow> uint256 \<Rightarrow> Address list \<Rightarrow> ('w, unit) sres" where
  "pay_tokens E amount path =
     bindS (viewS (re_getPair E (path ! 0) (path ! 1))) (\<lambda>pair. re_transferFrom E (hd path) (re_caller E) pair amount)"

definition pay_native :: "'w router_env \<Rightarrow> uint256 \<Rightarrow> Address list \<Rightarrow> ('w, unit) sres" where
  "pay_native E amount path =
     bindS (re_deposit E amount (re_wrappedNative E)) (\<lambda>_.
     bindS (viewS (re_getPair E (path ! 0) (path ! 1))) (\<lambda>pair. re_transfer E (re_wrappedNative E) pair amount))"

definition pay_out :: "'w router_env \<Rightarrow> Address \<Rightarrow> uint256 \<Rightarrow> ('w, unit) sres" where
  "pay_out E to amount = bindS (re_withdraw E (re_wrappedNative E) amount) (\<lambda>_. re_sendTokens E to amount)"

text \<open>\<^verbatim>\<open>path[0]\<close> and \<^verbatim>\<open>path.back()\<close> of an empty path are undefined.\<close>

definition check_path :: "'w router_env \<Rightarrow> (Address list \<Rightarrow> Address) \<Rightarrow> string \<Rightarrow> Address list \<Rightarrow> ('w, unit) sres" where
  "check_path E pick msg path =
     (if path = [] then throwS UndefinedBehaviour
      else if pick path \<noteq> re_wrappedNative E then throwS (RuntimeError msg) else retS ())"

definition swapExactTokensForTokens :: "'w router_env \<Rightarrow> uint256 \<Rightarrow> uint256 \<Rightarrow> Address list \<Rightarrow> Address \<Rightarrow> uint256 \<Rightarrow> ('w, uint256 list) sres" where
  "swapExactTokensForTokens E amountIn amountOutMin path to deadline =
     bindS (ensure E deadline) (\<lambda>_.
     bindS (amounts_from E ''DEXV2Router02::swapExactTokensForTokens: INSUFFICIENT_OUTPUT_AMOUNT'' amountIn amountOutMin path) (\<lambda>amounts.
     bindS (pay_tokens E (hd amounts) path) (\<lambda>_.
     bindS (router_swap E amounts path to) (\<lambda>_. retS amounts))))"

definition swapTokensForExactTokens :: "'w router_env \<Rightarrow> uint256 \<Rightarrow> uint256 \<Rightarrow> Address list \<Rightarrow> Address \<Rightarrow> uint256 \<Rightarrow> ('w, uint256 list) sres" where
  "swapTokensForExactTokens E amountOut amountInMax path to deadline =
     bindS (ensure E deadline) (\<lambda>_.
     bindS (amounts_to E ''DEXV2Router02::swapTokensForExactTokens: EXCESSIVE_INPUT_AMOUNT'' amountOut amountInMax path) (\<lambda>amounts.
     bindS (pay_tokens E (hd amounts) path) (\<lambda>_.
     bindS (router_swap E amounts path to) (\<lambda>_. retS amounts))))"

definition swapExactNativeForTokens :: "'w router_env \<Rightarrow> uint256 \<Rightarrow> Address list \<Rightarrow> Address \<Rightarrow> uint256 \<Rightarrow> ('w, uint256 list) sres" where
  "swapExactNativeForTokens E amountOutMin path to deadline =
     bindS (ensure E deadline) (\<lambda>_.
     bindS (check_path E hd ''DEXV2Router02::swapExactNativeForTokens: INVALID_PATH'' path) (\<lambda>_.
     bindS (amounts_from E ''DEXV2Router02::swapExactNativeForTokens: INSUFFICIENT_OUTPUT_AMOUNT'' (re_value E) amountOutMin path) (\<lambda>amounts.
     bindS (pay_native E (hd amounts) path) (\<lambda>_.
     bindS (router_swap E amounts path to) (\<lambda>_. retS amounts)))))"

definition swapTokensForExactNative :: "'w router_env \<Rightarrow> uint256 \<Rightarrow> uint256 \<Rightarrow> Address list \<Rightarrow> Address \<Rightarrow> uint256 \<Rightarrow> ('w, uint256 list) sres" where
  "swapTokensForExactNative E amountOut amountInMax path to deadline =
     bindS (ensure E deadline) (\<lambda>_.
     bindS (check_path E last ''DEXV2Router02::swapTokensForExactNative: INVALID_PATH'' path) (\<lambda>_.
     bindS (amounts_to E ''DEXV2Router02::swapTokensForExactNative: EXCESSIVE_INPUT_AMOUNT'' amountOut amountInMax path) (\<lambda>amounts.
     bindS (pay_tokens E (hd amounts) path) (\<lambda>_.
     bindS (router_swap E amounts path (re_address E)) (\<lambda>_.
     bindS (pay_out E to amountOut) (\<lambda>_. retS amounts))))))"

definition swapExactTokensForNative :: "'w router_env \<Rightarrow> uint256 \<Rightarrow> uint256 \<Rightarrow> Address list \<Rightarrow> Address \<Rightarrow> uint256 \<Rightarrow> ('w, uint256 list) sres" where
  "swapExactTokensForNative E amountIn amountOutMin path to deadline =
     bindS (ensure E deadline) (\<lambda>_.
     bindS (check_path E last ''DEXV2Router02::swapExactTokensForNative: INVALID_PATH'' path) (\<lambda>_.
     bindS (amounts_from E ''DEXV2Router02::swapExactTokensForNative: INSUFFICIENT_OUTPUT_AMOUNT'' amountIn amountOutMin path) (\<lambda>amounts.
     bindS (pay_tokens E (hd amounts) path) (\<lambda>_.
     bindS (router_swap E amounts path (re_address E)) (\<lambda>_.
     bindS (pay_out E to (last amounts)) (\<lambda>_. retS amounts))))))"

definition swapNativeForExactTokens :: "'w router_env \<Rightarrow> uint256 \<Rightarrow> uint256 \<Rightarrow> Address list \<Rightarrow> Address \<Rightarrow> uint256 \<Rightarrow> ('w, uint256 list) sres" where
  "swapNativeForExactTokens E amountOut amountInMax path to deadline =
     bindS (ensure E deadline) (\<lambda>_.
     bindS (check_path E hd ''DEXV2Router02::swapNativeForExactTokens: INVALID_PATH'' path) (\<lambda>_.
     bindS (amounts_to E ''DEXV2Router02::swapNativeForExactTokens: EXCESSIVE_INPUT_AMOUNT'' amountOut amountInMax path) (\<lambda>amounts.
     bindS (pay_native E (hd amounts) path) (\<lambda>_.
     bindS (router_swap E amounts path to) (\<lambda>_. retS amounts)))))"


section \<open>Lemmas\<close>

lemma viewS_Inr [res_simps]: "viewS f w = (w', Inr a) \<longleftrightarrow> w' = w \<and> f w = Inr a"
  by (auto simp: viewS_def)

lemma ensure_Inr [res_simps]: "ensure E deadline w = (w', Inr u) \<longleftrightarrow> w' = w \<and> re_timestamp E \<le> deadline"
  by (auto simp: ensure_def retS_def throwS_def)

text \<open>Consecutive amounts are the library's answer for the reserves of the pair between them.\<close>

definition priced :: "(uint256 \<Rightarrow> uint256 \<Rightarrow> uint256 \<times> uint256 \<Rightarrow> bool) \<Rightarrow> (Address \<Rightarrow> Address \<Rightarrow> (uint256 \<times> uint256) res) \<Rightarrow> Address list \<Rightarrow> uint256 list \<Rightarrow> bool" where
  "priced q R path xs \<longleftrightarrow> length xs = length path \<and>
     (\<forall>i. Suc i < length path \<longrightarrow> (\<exists>r. R (path ! i) (path ! Suc i) = Inr r \<and> q (xs ! i) (xs ! Suc i) r))"

lemma priced_Cons:
  assumes "priced q R (b # path) (y # ys)" "R a b = Inr r" "q x y r"
  shows "priced q R (a # b # path) (x # y # ys)"
  unfolding priced_def
proof (intro conjI allI impI)
  show "length (x # y # ys) = length (a # b # path)" using assms(1) by (simp add: priced_def)
  fix i assume i: "Suc i < length (a # b # path)"
  show "\<exists>r. R ((a # b # path) ! i) ((a # b # path) ! Suc i) = Inr r \<and> q ((x # y # ys) ! i) ((x # y # ys) ! Suc i) r"
  proof (cases i)
    case (Suc j)
    then show ?thesis using assms(1) i unfolding priced_def by simp
  qed (use assms(2,3) in auto)
qed

definition sells :: "uint256 \<Rightarrow> uint256 \<Rightarrow> uint256 \<times> uint256 \<Rightarrow> bool" where
  "sells x y r \<longleftrightarrow> getAmountOut x (fst r) (snd r) = Inr y"

definition buys :: "uint256 \<Rightarrow> uint256 \<Rightarrow> uint256 \<times> uint256 \<Rightarrow> bool" where
  "buys x y r \<longleftrightarrow> getAmountIn y (fst r) (snd r) = Inr x"

lemma amounts_out_priced: "amounts_out R x path = Inr xs \<Longrightarrow> path \<noteq> [] \<Longrightarrow> priced sells R path xs \<and> hd xs = x"
proof (induction R x path arbitrary: xs rule: amounts_out.induct)
  case (1 R x a b path)
  from 1(2) obtain r y ys where r: "R a b = Inr r" and y: "getAmountOut x (fst r) (snd r) = Inr y" and ys: "amounts_out R y (b # path) = Inr ys" "xs = x # ys"
    by (auto simp: bindR_eq_Inr split: prod.splits)
  have IH: "priced sells R (b # path) ys" "hd ys = y" using 1(1) [OF r, of "fst r" "snd r" y ys] y ys(1) by simp_all
  then obtain zs where "ys = y # zs" by (cases ys) (auto simp: priced_def)
  moreover have "sells x y r" using y by (simp add: sells_def)
  ultimately show ?case using priced_Cons [of sells R b path y zs a r x] IH(1) r ys(2) by simp
qed (simp_all add: priced_def)

lemma amounts_in_priced:
  "amounts_in R y (b # rest) (y # ys) = Inr xs \<Longrightarrow> priced buys R (b # later) (y # ys) \<Longrightarrow>
    priced buys R (rev rest @ b # later) xs \<and> last xs = last (y # ys)"
proof (induction rest arbitrary: b y ys later)
  case (Cons a rest)
  from Cons.prems(1) obtain r x where r: "R a b = Inr r" and x: "getAmountIn y (fst r) (snd r) = Inr x"
    and rec: "amounts_in R x (a # rest) (x # y # ys) = Inr xs" by (auto simp: bindR_eq_Inr split: prod.splits)
  have "buys x y r" using x by (simp add: buys_def)
  with Cons.prems(2) r have "priced buys R (a # b # later) (x # y # ys)" by (rule priced_Cons)
  from Cons.IH [OF rec this] show ?case by simp
qed simp

lemma getAmountsOut_priced: "getAmountsOut R x path = Inr xs \<Longrightarrow> priced sells R path xs \<and> hd xs = x \<and> 2 \<le> length path"
  using amounts_out_priced [of R x path xs] by (cases "path = []") (auto simp: getAmountsOut_def split: if_splits)

lemma getAmountsIn_priced: "getAmountsIn R y path = Inr xs \<Longrightarrow> priced buys R path xs \<and> last xs = y \<and> 2 \<le> length path"
proof -
  assume h: "getAmountsIn R y path = Inr xs"
  then have len: "2 \<le> length path" and run: "amounts_in R y (rev path) [y] = Inr xs" by (auto simp: getAmountsIn_def split: if_splits)
  obtain b rest where rb: "rev path = b # rest" using len by (cases "rev path") auto
  then have path: "path = rev rest @ [b]" by (metis rev.simps(2) rev_rev_ident)
  have "priced buys R [b] [y]" by (simp add: priced_def)
  then show ?thesis using amounts_in_priced [of R y b rest "[]" xs "[]"] run rb path len by simp
qed

text \<open>The bounds of a swap: the amounts are those of the library for the path in the state \<open>w\<close> of the call.\<close>

definition exact_in :: "'w router_env \<Rightarrow> 'w \<Rightarrow> uint256 \<Rightarrow> uint256 \<Rightarrow> Address list \<Rightarrow> uint256 list \<Rightarrow> bool" where
  "exact_in E w amountIn amountOutMin path xs \<longleftrightarrow>
     priced sells (lib_getReserves E w) path xs \<and> hd xs = amountIn \<and> amountOutMin \<le> last xs"

definition exact_out :: "'w router_env \<Rightarrow> 'w \<Rightarrow> uint256 \<Rightarrow> uint256 \<Rightarrow> Address list \<Rightarrow> uint256 list \<Rightarrow> bool" where
  "exact_out E w amountOut amountInMax path xs \<longleftrightarrow>
     priced buys (lib_getReserves E w) path xs \<and> last xs = amountOut \<and> hd xs \<le> amountInMax"

lemma amounts_from_Inr: "amounts_from E msg x m path w = (w', Inr xs) \<Longrightarrow> w' = w \<and> exact_in E w x m path xs"
  using getAmountsOut_priced [of "lib_getReserves E w" x path xs]
  by (auto simp: amounts_from_def exact_in_def res_simps retS_def throwS_def split: if_splits)

lemma amounts_to_Inr: "amounts_to E msg y m path w = (w', Inr xs) \<Longrightarrow> w' = w \<and> exact_out E w y m path xs"
  using getAmountsIn_priced [of "lib_getReserves E w" y path xs]
  by (auto simp: amounts_to_def exact_out_def res_simps retS_def throwS_def split: if_splits)

lemma check_path_Inr: "check_path E pick msg path w = (w', Inr u) \<Longrightarrow> w' = w \<and> pick path = re_wrappedNative E"
  by (auto simp: check_path_def retS_def throwS_def split: if_splits)

lemma liquidity_amounts_bounds:
  assumes "liquidity_amounts r ad bd am bm = Inr (a, b)"
  shows "a \<le> ad \<and> b \<le> bd \<and> (am \<le> ad \<longrightarrow> am \<le> a) \<and> (bm \<le> bd \<longrightarrow> bm \<le> b)"
  using assms by (auto simp: liquidity_amounts_def Let_def bindR_eq_Inr not_less split: prod.splits if_splits)

lemma encoded_two: "encoded_amounts cr [a, b] w = (w, Inr (encodeUint256 a @ encodeUint256 b))"
  by (simp add: encoded_amounts_def liftS_def ABI_Encoder_def)

lemma encoded_three: "encoded_amounts cr [a, b, c] w = (w, Inr (encodeUint256 a @ encodeUint256 b @ encodeUint256 c))"
  by (simp add: encoded_amounts_def liftS_def ABI_Encoder_def)


lemmas router_intros = amounts_from_Inr amounts_to_Inr check_path_Inr

text \<open>Both directions of a pair get the same reserves in the same order, so one of them is priced with the reserves exchanged.\<close>

lemma reserves_unsorted: "re_getPair E a b w = re_getPair E b a w \<Longrightarrow> lib_getReserves E w a b = lib_getReserves E w b a"
  by (simp add: lib_getReserves_def)

text \<open>The liquidity functions, whose results are the encoded amounts.\<close>

lemma addLiquidity_bounds:
  assumes "addLiquidity cr E tokenA tokenB ad bd am bm to deadline w = (w', Inr data)"
  shows "re_timestamp E \<le> deadline \<and> (\<exists>a b l. data = encodeUint256 a @ encodeUint256 b @ encodeUint256 l \<and>
    a \<le> ad \<and> b \<le> bd \<and> (am \<le> ad \<longrightarrow> am \<le> a) \<and> (bm \<le> bd \<longrightarrow> bm \<le> b))"
proof -
  obtain a b l w1 w2 where t: "re_timestamp E \<le> deadline" and ab: "add_liquidity_amounts E tokenA tokenB ad bd am bm w = (w1, Inr (a, b))"
    and data: "encoded_amounts cr [a, b, l] w2 = (w', Inr data)"
    using assms by (auto simp: addLiquidity_def res_simps)
  obtain r where "liquidity_amounts r ad bd am bm = Inr (a, b)" using ab by (auto simp: add_liquidity_amounts_def res_simps)
  from liquidity_amounts_bounds [OF this] show ?thesis using t data unfolding encoded_three by blast
qed

lemma removeLiquidity_bounds:
  assumes "removeLiquidity cr E tokenA tokenB liquidity am bm to deadline w = (w', Inr data)"
  shows "re_timestamp E \<le> deadline \<and> (\<exists>a b. data = encodeUint256 a @ encodeUint256 b \<and> am \<le> a \<and> bm \<le> b)"
  using assms by (auto simp: removeLiquidity_def res_simps Let_def throwS_def encoded_two not_less split: if_splits)

text \<open>An environment whose calls succeed, with one pair.\<close>

definition demo_router :: "unit router_env" where
  "demo_router =
     \<lparr>re_getPair = (\<lambda>_ _ _. Inr (replicate 20 9)), re_getReservess = (\<lambda>_ _. Inr (50000, 20000)), re_createPair = (\<lambda>_ _. retS (replicate 20 9)),
      re_transferFrom = (\<lambda>_ _ _ _. retS ()), re_transfer = (\<lambda>_ _ _. retS ()), re_mint = (\<lambda>_ _. retS 1), re_burn = (\<lambda>_ _. retS []),
      re_swap = (\<lambda>_ _ _ _. retS ()), re_deposit = (\<lambda>_ _. retS ()), re_withdraw = (\<lambda>_ _. retS ()), re_sendTokens = (\<lambda>_ _. retS ()),
      re_wrappedNative = replicate 20 7, re_caller = replicate 20 6, re_value = 0, re_address = replicate 20 8, re_timestamp = 5\<rparr>"

lemma demo_router_swap:
  "swapExactTokensForTokens demo_router 1000 390 [replicate 20 1, replicate 20 2] (replicate 20 6) 10 () = ((), Inr [1000, 391])"
proof -
  have "getAmountOut 1000 50000 20000 = Inr 391" by (simp add: getAmountOut_def checked_mult_def checked_add_def checked_div_def)
  moreover have "replicate 20 (9 :: byte) \<noteq> zero_address" "replicate 20 (1 :: byte) \<noteq> zero_address" by (simp_all add: zero_address_def)
  moreover have "sortTokens (replicate 20 1) (replicate 20 2) = Inr (replicate 20 1, replicate 20 2)" by code_simp
  ultimately show ?thesis
    by (simp add: swapExactTokensForTokens_def bindS_def ensure_def demo_router_def amounts_from_def viewS_def getAmountsOut_def lib_getReserves_def
        retS_def liftS_def pay_tokens_def)
qed

section \<open>Properties\<close>



end
