(* ===== verification/Rlp.thy ===== *)
theory Rlp
  imports Utils
begin

text \<open>
  The field codecs of the two transaction types (\<^verbatim>\<open>utils/tx.cpp\<close>): each group of lines that reads one field from
  the span \<open>d\<close> at the index \<open>i\<close> and moves the index, and each group that appends one field. The locale
  \<open>rlp_field\<close> is the contract of a reader and its writer.
\<close>

section \<open>Writers\<close>

definition uint_size :: "'n::len word \<Rightarrow> nat" where
  "uint_size x = (if x < 128 then 1 else 1 + bytesRequired x)"

definition put_uint :: "'n::len word \<Rightarrow> bytes" where
  "put_uint x =
     (if x = 0 then [128] else if x < 128 then [ucast x]
      else of_nat (bytesRequired x + 128) # uintToBytes x)"

text \<open>The validator transactions write a small value, zero included, as the byte itself.\<close>

definition put_small :: "'n::len word \<Rightarrow> bytes" where
  "put_small x = (if x < 128 then [ucast x] else of_nat (bytesRequired x + 128) # uintToBytes x)"

definition put_short :: "uint256 \<Rightarrow> bytes" where
  "put_short x = of_nat (bytesRequired x + 128) # uintToBytes x"

definition data_size :: "bytes \<Rightarrow> nat" where
  "data_size xs =
     (if length xs = 0 then 1 else if length xs \<le> 55 then 1 + length xs
      else 1 + bytesRequired (of_nat (length xs) :: uint64) + length xs)"

definition put_data :: "bytes \<Rightarrow> bytes" where
  "put_data xs =
     (if length xs = 0 then [128]
      else if length xs \<le> 55 then of_nat (length xs + 128) # xs
      else of_nat (bytesRequired (of_nat (length xs) :: uint64) + 183) # uintToBytes (of_nat (length xs) :: uint64) @ xs)"

definition put_list_header :: "nat \<Rightarrow> bytes" where
  "put_list_header total_size =
     (if total_size \<le> 55 then [of_nat (total_size + 192)]
      else of_nat (bytesRequired (of_nat total_size :: uint64) + 247) # uintToBytes (of_nat total_size :: uint64))"

section \<open>Readers\<close>

text \<open>\<open>fromBigEndian<uint64_t>\<close> into a 64-bit and into a 256-bit field, and \<open>fromBigEndian<uint256_t>\<close>.\<close>

definition read64 :: "bytes \<Rightarrow> uint64 res" where
  "read64 p = Inr (fromBigEndian p)"

definition read64_wide :: "bytes \<Rightarrow> uint256 res" where
  "read64_wide p = Inr (ucast (fromBigEndian p :: uint64))"

definition read256 :: "bytes \<Rightarrow> uint256 res" where
  "read256 p = fromBigEndian_checked p"

definition get_uint :: "nat \<Rightarrow> string \<Rightarrow> (bytes \<Rightarrow> 'n::len word res) \<Rightarrow> bytes \<Rightarrow> nat \<Rightarrow> ('n word \<times> nat) res" where
  "get_uint limit msg rd d i =
     bindR (at_idx d i) (\<lambda>b.
       let len = (if b \<ge> 128 then unat (b - 128) else 0) in
       if len \<noteq> 0 then
         (if len > limit then Inl (RuntimeError msg)
          else bindR (subspan d (i + 1) len) (\<lambda>p. bindR (rd p) (\<lambda>x. Inr (x, i + 1 + len))))
       else if b = 128 then Inr (0, i + 1)
       else bindR (subspan d i 1) (\<lambda>p. bindR (rd p) (\<lambda>x. Inr (x, i + 1))))"

definition get_short :: "nat \<Rightarrow> string \<Rightarrow> bytes \<Rightarrow> nat \<Rightarrow> (uint256 \<times> nat) res" where
  "get_short limit msg d i =
     bindR (at_idx d i) (\<lambda>b.
       let len = unat (b - 128) in
       if len > limit then Inl (RuntimeError msg)
       else bindR (subspan d (i + 1) len) (\<lambda>p. bindR (read256 p) (\<lambda>x. Inr (x, i + 1 + len))))"

text \<open>
  \<open>bounded\<close> is the additional upper bound 0xc0 that \<^verbatim>\<open>TxBlock\<close> has and \<^verbatim>\<open>TxValidator\<close> does not.
\<close>

definition get_data :: "bool \<Rightarrow> bytes \<Rightarrow> nat \<Rightarrow> (bytes \<times> nat) res" where
  "get_data bounded d i =
     bindR (at_idx d i) (\<lambda>b.
       if b < 128 then bindR (subspan d i 1) (\<lambda>p. Inr (p, i + 1))
       else if b < 183 then
         (let len = unat (b - 128) in
          if len > 0 then bindR (subspan d (i + 1) len) (\<lambda>p. Inr (p, i + 1 + len)) else Inr ([], i + 1))
       else if bounded \<and> \<not> b < 192 then Inl (RuntimeError ''Data is too large'')
       else
         (let lenSize = unat (b - 183) in
          bindR (subspan d (i + 1) lenSize) (\<lambda>q.
          let len = unat (fromBigEndian q :: uint64) in
          bindR (subspan d (i + 1 + lenSize) len) (\<lambda>p. Inr (p, i + 1 + lenSize + len)))))"

definition get_list_header :: "bytes \<Rightarrow> nat res" where
  "get_list_header d =
     bindR (at_idx d 0) (\<lambda>b.
       if b < 247 then Inl (RuntimeError ''Tx is not a list'')
       else
         (let lenSize = unat (b - 247) in
          bindR (subspan d 1 lenSize) (\<lambda>q.
          let listLength = (fromBigEndian q :: uint64);
              rest = (of_nat (length d) :: uint64) - of_nat lenSize - 1 in
          if listLength < rest then Inl (RuntimeError ''Tx RLP returns smaller size than reported'')
          else if listLength > rest then Inl (RuntimeError ''Tx RLP returns larger size than reported'')
          else Inr (1 + lenSize))))"

section \<open>The contract of a field\<close>

definition at_pos :: "bytes \<Rightarrow> nat \<Rightarrow> bytes \<Rightarrow> bool" where
  "at_pos d i bs \<longleftrightarrow> i \<le> length d \<and> drop i d = bs"

lemma at_pos_append:
  assumes "at_pos d i (xs @ ys)"
  shows "at_pos d (i + length xs) ys"
proof -
  have d: "i \<le> length d" "drop i d = xs @ ys" using assms by (simp_all add: at_pos_def)
  have "length d = i + length xs + length ys" using arg_cong [OF d(2), of length] d(1) by simp
  moreover have "drop (i + length xs) d = ys" using d(2) drop_drop [of "length xs" i d] by (simp add: add.commute)
  ultimately show ?thesis by (simp add: at_pos_def)
qed

lemma at_pos_Cons: "at_pos d i (x # xs) \<Longrightarrow> at_pos d (Suc i) xs"
  using at_pos_append [of d i "[x]" xs] by simp

lemma at_pos_subspan: "at_pos d i (xs @ ys) \<Longrightarrow> n = length xs \<Longrightarrow> subspan d i n = Inr xs"
  using at_pos_append [of d i xs ys] by (simp add: at_pos_def subspan_def)

lemma at_pos_idx: "at_pos d i (x # xs) \<Longrightarrow> at_idx d i = Inr x"
  using at_pos_subspan [of d i "[x]" xs 1] at_pos_Cons [of d i x xs]
  by (auto simp: at_pos_def at_idx_def subspan_def nth_via_drop)

locale prefix_code =
  fixes enc :: "'a \<Rightarrow> bytes" and ok :: "'a \<Rightarrow> bool"
  assumes unique: "ok x \<Longrightarrow> ok y \<Longrightarrow> enc x @ r = enc y @ r' \<Longrightarrow> x = y \<and> r = r'"
begin

lemma enc_eq_iff: "ok x \<Longrightarrow> ok y \<Longrightarrow> enc x @ r = enc y @ r' \<longleftrightarrow> x = y \<and> r = r'"
  using unique by blast

end

locale rlp_field =
  fixes enc :: "'a \<Rightarrow> bytes" and get :: "bytes \<Rightarrow> nat \<Rightarrow> ('a \<times> nat) res" and ok :: "'a \<Rightarrow> bool"
  assumes get_enc: "ok x \<Longrightarrow> at_pos d i (enc x @ r) \<Longrightarrow> get d i = Inr (x, i + length (enc x))"

sublocale rlp_field \<subseteq> prefix_code enc ok
proof
  fix x y r r'
  assume ok: "ok x" "ok y" and eq: "enc x @ r = enc y @ r'"
  let ?d = "enc x @ r"
  have x: "get ?d 0 = Inr (x, length (enc x))" using get_enc [OF ok(1), of ?d 0 r] by (simp add: at_pos_def)
  have y: "get ?d 0 = Inr (y, length (enc y))" using get_enc [OF ok(2), of ?d 0 r'] by (simp add: at_pos_def eq)
  then show "x = y \<and> r = r'" using x eq by simp
qed

section \<open>The fields\<close>

lemma byte_of_nat:
  assumes "n < 256"
  shows "unat (of_nat n :: byte) = n"
  using assms by (simp add: unat_of_nat)

lemma byte_minus:
  assumes "c \<le> n" "n < 256"
  shows "unat ((of_nat n :: byte) - of_nat c) = n - c"
  using assms of_nat_diff [OF assms(1), where 'a = byte] unat_of_nat [of "n - c", where 'a = 8]
  by simp

lemma header_byte:
  assumes "n \<le> 127"
  shows "\<not> (of_nat (n + 128) :: byte) < 128" "unat ((of_nat (n + 128) :: byte) - 128) = n"
    "n \<noteq> 0 \<Longrightarrow> (of_nat (n + 128) :: byte) \<noteq> 128"
  using assms byte_of_nat [of "n + 128"] byte_minus [of 128 "n + 128"]
  by (auto simp: word_less_nat_alt word_unat_eq_iff simp del: of_nat_add)

lemma small_byte:
  fixes x :: "'n::len word"
  assumes "8 \<le> LENGTH('n)" "x < 128"
  shows "unat (ucast x :: byte) = unat x" "unat x < 128"
proof -
  have "(2::nat) ^ 8 \<le> 2 ^ LENGTH('n)" using assms(1) by (rule power_increasing) simp
  then have "unat (128 :: 'n word) = 128" by (simp add: unsigned_numeral take_bit_nat_eq_self)
  then show "unat x < 128" using assms(2) by (simp add: word_less_nat_alt)
  then show "unat (ucast x :: byte) = unat x" by (simp add: unsigned_ucast_eq take_bit_nat_eq_self)
qed

lemma get_uint_small:
  assumes "8 \<le> LENGTH('n)" "x < 128" "at_pos d i (ucast x # r)"
    and rd: "\<And>p. be_val p = unat x \<Longrightarrow> rd p = Inr x"
  shows "get_uint limit msg rd d i = Inr (x :: 'n::len word, i + 1)"
proof -
  note b = small_byte [OF assms(1,2)]
  have "subspan d i 1 = Inr [ucast x]" using at_pos_subspan [of d i "[ucast x]" r 1] assms(3) by simp
  moreover have "\<not> 128 \<le> (ucast x :: byte)" "(ucast x :: byte) \<noteq> 128"
    using b by (auto simp: word_le_nat_alt word_unat_eq_iff)
  ultimately show ?thesis
    using at_pos_idx [OF assms(3)] rd [of "[ucast x]"] b by (simp add: get_uint_def be_val_Cons)
qed

lemma get_uint_long:
  assumes "bytesRequired x \<le> limit" "bytesRequired x \<le> 127" "x \<noteq> 0"
    "at_pos d i (of_nat (bytesRequired x + 128) # uintToBytes x @ r)"
    and rd: "\<And>p. be_val p = unat x \<Longrightarrow> rd p = Inr x"
  shows "get_uint limit msg rd d i = Inr (x :: 'n::len word, i + 1 + bytesRequired x)"
proof -
  have n: "bytesRequired x \<le> 127" "bytesRequired x \<noteq> 0" using assms(1-3) by (auto simp: bytesRequired_step)
  have "subspan d (i + 1) (bytesRequired x) = Inr (uintToBytes x)"
    using at_pos_subspan [OF at_pos_Cons [OF assms(4)]] by simp
  then show ?thesis
    using at_pos_idx [OF assms(4)] rd [of "uintToBytes x"] header_byte [OF n(1)] n assms(1)
    by (simp add: get_uint_def Let_def not_less del: of_nat_add)
qed

lemma get_uint_put:
  assumes "8 \<le> LENGTH('n)" "bytesRequired x \<le> limit" "bytesRequired x \<le> 127" "at_pos d i (put_uint x @ r)"
    and rd: "\<And>p. be_val p = unat x \<Longrightarrow> rd p = Inr x"
  shows "get_uint limit msg rd d i = Inr (x :: 'n::len word, i + length (put_uint x))"
proof -
  consider "x = 0" | "x \<noteq> 0" "x < 128" | "x \<noteq> 0" "\<not> x < 128" by blast
  then show ?thesis
  proof cases
    case 1
    then show ?thesis using at_pos_idx [of d i 128 r] assms(4) by (simp add: put_uint_def get_uint_def)
  next
    case 2
    then show ?thesis using get_uint_small [OF assms(1) _ _ rd] assms(4) by (simp add: put_uint_def)
  next
    case 3
    then show ?thesis using get_uint_long [OF assms(2,3) _ _ rd] assms(4) by (simp add: put_uint_def)
  qed
qed

lemma bytesRequired_64: "bytesRequired (x :: uint64) \<le> 8"
  by (rule bytesRequired_le) (use unat_bound [of x] in simp)

lemma bytesRequired_pos: "0 < unat x \<Longrightarrow> 0 < bytesRequired x"
  using bytesRequired_upper [of x] by (cases "bytesRequired x") simp_all

lemma bytesRequired_256: "bytesRequired (x :: uint256) \<le> 32"
  by (rule bytesRequired_le) (use unat_bound [of x] in simp)

lemma read64_ok: "be_val p = unat x \<Longrightarrow> read64 p = Inr x"
  by (simp add: read64_def fromBigEndian_of_nat)

lemma read64_wide_ok: "unat x < 2 ^ 64 \<Longrightarrow> be_val p = unat x \<Longrightarrow> read64_wide p = Inr x"
  by (simp add: read64_wide_def word_unat_eq_iff unsigned_ucast_eq unat_fromBigEndian take_bit_nat_eq_self)

lemma read256_ok: "be_val p = unat x \<Longrightarrow> read256 p = Inr x"
  using unat_bound [of x] fromBigEndian_checked_spec [of p, where 'n = 256] by (simp add: read256_def)

lemma get_short_put:
  assumes "32 \<le> limit" "at_pos d i (put_short x @ r)"
  shows "get_short limit msg d i = Inr (x, i + length (put_short x))"
proof -
  have at: "at_pos d i (of_nat (bytesRequired x + 128) # uintToBytes x @ r)" using assms(2) by (simp add: put_short_def)
  have "bytesRequired x \<le> 127" "bytesRequired x \<le> limit" using bytesRequired_256 [of x] assms(1) by simp_all
  moreover have "subspan d (i + 1) (bytesRequired x) = Inr (uintToBytes x)"
    using at_pos_subspan [OF at_pos_Cons [OF at]] by simp
  ultimately show ?thesis
    using at_pos_idx [OF at] header_byte(2) [of "bytesRequired x"] read256_ok [of "uintToBytes x" x]
    by (simp add: get_short_def put_short_def del: of_nat_add)
qed

lemma data_header:
  "n \<le> 54 \<Longrightarrow> (of_nat (n + 128) :: byte) < 183"
  "0 < n \<Longrightarrow> n \<le> 8 \<Longrightarrow> \<not> (of_nat (n + 183) :: byte) < 183 \<and> (of_nat (n + 183) :: byte) < 192 \<and>
     \<not> (of_nat (n + 183) :: byte) < 128 \<and> unat ((of_nat (n + 183) :: byte) - 183) = n"
  using byte_of_nat [of "n + 128"] byte_of_nat [of "n + 183"] byte_minus [of 183 "n + 183"]
  by (auto simp: word_less_nat_alt simp del: of_nat_add)

lemma get_data_put:
  assumes "length xs \<noteq> 55" "length xs < 2 ^ 64" "at_pos d i (put_data xs @ r)"
  shows "get_data bounded d i = Inr (xs, i + length (put_data xs))"
proof -
  let ?n = "of_nat (length xs) :: uint64"
  have un: "unat ?n = length xs" using assms(2) by (simp add: unat_of_nat)
  consider "xs = []" | "xs \<noteq> []" "length xs \<le> 54" | "length xs > 55" using assms(1) by fastforce
  then show ?thesis
  proof cases
    case 1
    then show ?thesis using at_pos_idx [of d i 128 r] assms(3) by (simp add: put_data_def get_data_def)
  next
    case 2
    then have at: "at_pos d i (of_nat (length xs + 128) # xs @ r)" using assms(3) by (simp add: put_data_def)
    show ?thesis
      using at_pos_idx [OF at] at_pos_subspan [OF at_pos_Cons [OF at]] header_byte [of "length xs"]
        data_header(1) [of "length xs"] 2
      by (simp add: get_data_def put_data_def Let_def del: of_nat_add)
  next
    case 3
    then have pos: "0 < bytesRequired ?n" "bytesRequired ?n \<le> 8"
      using bytesRequired_64 [of ?n] bytesRequired_pos [of ?n] un by fastforce+
    have at: "at_pos d i (of_nat (bytesRequired ?n + 183) # uintToBytes ?n @ xs @ r)"
      using assms(3) 3 by (cases xs) (simp_all add: put_data_def del: of_nat_add)
    have "subspan d (Suc i) (bytesRequired ?n) = Inr (uintToBytes ?n)"
      using at_pos_subspan [OF at_pos_Cons [OF at]] by simp
    moreover have "subspan d (Suc (i + bytesRequired ?n)) (length xs) = Inr xs"
      using at_pos_subspan [OF at_pos_append [OF at_pos_Cons [OF at]]] by simp
    moreover have "unat (fromBigEndian (uintToBytes ?n) :: uint64) = length xs"
      by (simp add: unat_fromBigEndian un) (use assms(2) in simp)
    ultimately show ?thesis
      using at_pos_idx [OF at] data_header(2) [OF pos] 3
      by (simp add: get_data_def put_data_def Let_def del: of_nat_add)
  qed
qed

text \<open>The length header that strings (\<open>base = 128\<close>) and lists (\<open>base = 192\<close>) share.\<close>

definition rlp_header :: "nat \<Rightarrow> nat \<Rightarrow> bytes" where
  "rlp_header base n = (if n \<le> 55 then [of_nat (n + base)]
     else of_nat (bytesRequired (of_nat n :: uint64) + base + 55) # uintToBytes (of_nat n :: uint64))"

lemma put_header:
  "put_data xs = rlp_header 128 (length xs) @ xs" "put_list_header n = rlp_header 192 n"
  by (auto simp: put_data_def put_list_header_def rlp_header_def algebra_simps)

lemma hd_rlp_header:
  assumes "base \<le> 192" "n < 2 ^ 64"
  shows "unat (hd (rlp_header base n)) =
      (if n \<le> 55 then n + base else bytesRequired (of_nat n :: uint64) + base + 55)"
    and "n > 55 \<Longrightarrow> 0 < bytesRequired (of_nat n :: uint64)"
proof -
  let ?n = "of_nat n :: uint64"
  have "unat ?n = n" using assms(2) by (simp add: unat_of_nat)
  then show "n > 55 \<Longrightarrow> 0 < bytesRequired ?n" using bytesRequired_pos [of ?n] by simp
  show "unat (hd (rlp_header base n)) = (if n \<le> 55 then n + base else bytesRequired ?n + base + 55)"
    using assms(1) bytesRequired_64 [of ?n] byte_of_nat [of "n + base"] byte_of_nat [of "bytesRequired ?n + base + 55"]
    by (simp add: rlp_header_def del: of_nat_add)
qed

lemma header_cases:
  fixes n m a b base :: nat
  assumes "(if n \<le> 55 then n + base else a + base + 55) = (if m \<le> 55 then m + base else b + base + 55)"
    "n > 55 \<Longrightarrow> 0 < a" "m > 55 \<Longrightarrow> 0 < b"
  shows "n \<le> 55 \<and> m = n \<or> n > 55 \<and> m > 55 \<and> a = b"
  using assms by (auto split: if_splits)

lemma rlp_header_unique:
  assumes "base \<le> 192" "n < 2 ^ 64" "m < 2 ^ 64" "rlp_header base n @ r = rlp_header base m @ r'"
  shows "n = m \<and> r = r'"
proof -
  let ?w = "\<lambda>k. of_nat k :: uint64"
  have ne: "rlp_header base k \<noteq> []" for k by (simp add: rlp_header_def)
  have hd: "hd (rlp_header base n) = hd (rlp_header base m)"
    using arg_cong [OF assms(4), of hd] by (simp only: hd_append2 [OF ne])
  have tl: "tl (rlp_header base n) @ r = tl (rlp_header base m) @ r'"
    using arg_cong [OF assms(4), of tl] by (simp only: tl_append2 [OF ne])
  note h = hd_rlp_header [OF assms(1,2)] hd_rlp_header [OF assms(1,3)]
  have "n \<le> 55 \<and> m = n \<or> n > 55 \<and> m > 55 \<and> bytesRequired (?w n) = bytesRequired (?w m)"
    by (rule header_cases [of n base _ m], rule trans [OF h(1) [symmetric]], unfold hd, rule h(3), erule h(2), erule h(4))
  then show ?thesis
  proof (elim disjE conjE)
    assume "m = n"
    then show ?thesis using assms(4) by simp
  next
    assume long: "n > 55" "m > 55" and len: "bytesRequired (?w n) = bytesRequired (?w m)"
    have eq: "uintToBytes (?w n) @ r = uintToBytes (?w m) @ r'" using tl long by (simp add: rlp_header_def)
    have bs: "uintToBytes (?w n) = uintToBytes (?w m)" and r: "r = r'"
      using eq len append_eq_append_conv [of "uintToBytes (?w n)" "uintToBytes (?w m)" r r'] by auto
    have "unat (?w n) = unat (?w m)" using arg_cong [OF bs, of be_val] by (simp only: be_val_uintToBytes)
    then have "n = m" using assms(2,3) by (simp add: unat_of_nat)
    then show ?thesis using r by simp
  qed
qed

lemma put_data_unique:
  assumes "length xs < 2 ^ 64" "length ys < 2 ^ 64" "put_data xs @ r = put_data ys @ r'"
  shows "xs = ys \<and> r = r'"
  using rlp_header_unique [of 128 "length xs" "length ys" "xs @ r" "ys @ r'"] assms
  by (auto simp: put_header)

lemma list_header_long:
  assumes "55 < n" "n < 2 ^ 64" "d = put_list_header n @ body" "length body = n" "length d < 2 ^ 64"
  shows "get_list_header d = Inr (length (put_list_header n))" "at_pos d (length (put_list_header n)) body"
proof -
  let ?n = "of_nat n :: uint64"
  have un: "unat ?n = n" using assms(2) by (simp add: unat_of_nat)
  have br: "0 < bytesRequired ?n" "bytesRequired ?n \<le> 8"
    using bytesRequired_64 [of ?n] bytesRequired_pos [of ?n] un assms(1) by auto
  have d: "d = of_nat (bytesRequired ?n + 247) # uintToBytes ?n @ body"
    using assms(1,3) by (simp add: put_list_header_def)
  have at: "at_pos d 0 (of_nat (bytesRequired ?n + 247) # uintToBytes ?n @ body)" by (simp add: at_pos_def d)
  have b: "\<not> (of_nat (bytesRequired ?n + 247) :: byte) < 247"
    "unat ((of_nat (bytesRequired ?n + 247) :: byte) - 247) = bytesRequired ?n"
    using byte_of_nat [of "bytesRequired ?n + 247"] byte_minus [of 247 "bytesRequired ?n + 247"] br
    by (auto simp: word_less_nat_alt simp del: of_nat_add)
  have "(of_nat (length d) :: uint64) - of_nat (bytesRequired ?n) - 1 = ?n"
    by (simp add: d assms(4))
  moreover have "(fromBigEndian (uintToBytes ?n) :: uint64) = ?n" by (simp add: fromBigEndian_of_nat un)
  ultimately show "get_list_header d = Inr (length (put_list_header n))"
    using at_pos_idx [OF at] at_pos_subspan [OF at_pos_Cons [OF at]] b assms(1)
    by (simp add: get_list_header_def put_list_header_def Let_def del: of_nat_add)
  show "at_pos d (length (put_list_header n)) body"
    by (simp add: at_pos_def assms(3))
qed

text \<open>Every field reader reads back what the writer appended.\<close>

interpretation f64: rlp_field "put_uint :: uint64 \<Rightarrow> bytes" "get_uint 55 msg read64" "\<lambda>_. True"
proof
  fix x :: uint64 and d i r
  assume "at_pos d i (put_uint x @ r)"
  then show "get_uint 55 msg read64 d i = Inr (x, i + length (put_uint x))"
    using bytesRequired_64 [of x] by (intro get_uint_put read64_ok) auto
qed

interpretation f64w: rlp_field put_uint "get_uint 55 msg read64_wide" "\<lambda>x. unat x < 2 ^ 64"
proof
  fix x :: uint256 and d i r
  assume "unat x < 2 ^ 64" "at_pos d i (put_uint x @ r)"
  then show "get_uint 55 msg read64_wide d i = Inr (x, i + length (put_uint x))"
    using bytesRequired_256 [of x] by (intro get_uint_put read64_wide_ok) auto
qed

interpretation f256: rlp_field "put_uint :: uint256 \<Rightarrow> bytes" "get_uint 55 msg read256" "\<lambda>_. True"
proof
  fix x :: uint256 and d i r
  assume "at_pos d i (put_uint x @ r)"
  then show "get_uint 55 msg read256 d i = Inr (x, i + length (put_uint x))"
    using bytesRequired_256 [of x] by (intro get_uint_put read256_ok) auto
qed

interpretation fshort: rlp_field put_short "get_short 32 msg" "\<lambda>_. True"
  by unfold_locales (rule get_short_put, simp_all)

interpretation fheight: rlp_field "put_uint :: uint64 \<Rightarrow> bytes" "get_uint 255 msg read64" "\<lambda>_. True"
proof
  fix x :: uint64 and d i r
  assume "at_pos d i (put_uint x @ r)"
  then show "get_uint 255 msg read64 d i = Inr (x, i + length (put_uint x))"
    using bytesRequired_64 [of x] by (intro get_uint_put read64_ok) auto
qed

interpretation fsmall: rlp_field "put_small :: uint256 \<Rightarrow> bytes" "get_uint 55 msg read256" "\<lambda>_. True"
proof
  fix x :: uint256 and d i r
  assume at: "at_pos d i (put_small x @ r)"
  have br: "bytesRequired x \<le> 55" "bytesRequired x \<le> 127" using bytesRequired_256 [of x] by simp_all
  show "get_uint 55 msg read256 d i = Inr (x, i + length (put_small x))"
  proof (cases "x < 128")
    case True
    then show ?thesis using get_uint_small [of x d i r read256, OF _ _ _ read256_ok] at by (simp add: put_small_def)
  next
    case False
    then have "x \<noteq> 0" by auto
    then show ?thesis
      using False get_uint_long [of x 55 d i r read256, OF br _ _ read256_ok] at by (simp add: put_small_def)
  qed
qed

interpretation fshort55: rlp_field put_short "get_short 55 msg" "\<lambda>_. True"
  by unfold_locales (rule get_short_put, simp_all)

interpretation fdata: rlp_field put_data "get_data bounded" "\<lambda>xs. length xs \<noteq> 55 \<and> length xs < 2 ^ 64"
  by unfold_locales (auto intro: get_data_put)

interpretation cdata: prefix_code put_data "\<lambda>xs. length xs < 2 ^ 64"
  by unfold_locales (rule put_data_unique)

interpretation clist: prefix_code put_list_header "\<lambda>n. n < 2 ^ 64"
  by unfold_locales (unfold put_header, rule rlp_header_unique, simp_all)

lemma length_put [simp]:
  "length (put_uint x) = uint_size x" "length (put_small x) = uint_size x" "length (put_short y) = 1 + bytesRequired y"
  "length xs < 2 ^ 64 \<Longrightarrow> length (put_data xs) = data_size xs"
  by (auto simp: put_uint_def put_small_def uint_size_def put_short_def put_data_def data_size_def)

end
