(* ===== verification/Tx.thy ===== *)
theory Tx
  imports Rlp Ecdsa
begin

text \<open>
  Transactions (\<^verbatim>\<open>utils/tx.cpp\<close>): \<^verbatim>\<open>TxBlock\<close>, the type 2 transaction of users, and \<^verbatim>\<open>TxValidator\<close>, the
  transaction of validators. Parsing from bytes recovers the sender from the signature; the manual constructors sign.
\<close>

section \<open>TxBlock\<close>

record tx_block =
  t_to :: Address
  t_from :: Address
  t_data :: bytes
  t_chainId :: uint64
  t_nonce :: uint256
  t_value :: uint256
  t_maxPriorityFeePerGas :: uint256
  t_maxFeePerGas :: uint256
  t_gasLimit :: uint256
  t_v :: uint8
  t_r :: uint256
  t_s :: uint256

definition TxBlock_total_size :: "bool \<Rightarrow> tx_block \<Rightarrow> nat" where
  "TxBlock_total_size includeSig t =
     uint_size (t_chainId t) + uint_size (t_nonce t) + uint_size (t_maxPriorityFeePerGas t) +
     uint_size (t_maxFeePerGas t) + uint_size (t_gasLimit t) + (1 + 20) + uint_size (t_value t) + 1 +
     data_size (t_data t) +
     (if includeSig then 1 + (1 + bytesRequired (t_r t)) + (1 + bytesRequired (t_s t)) else 0)"

definition TxBlock_rlpSerialize :: "bool \<Rightarrow> tx_block \<Rightarrow> bytes" where
  "TxBlock_rlpSerialize includeSig t =
     [2] @ put_list_header (TxBlock_total_size includeSig t) @
     put_uint (t_chainId t) @ put_uint (t_nonce t) @ put_uint (t_maxPriorityFeePerGas t) @
     put_uint (t_maxFeePerGas t) @ put_uint (t_gasLimit t) @ [148] @ t_to t @ put_uint (t_value t) @
     put_data (t_data t) @ [192] @
     (if includeSig then [if t_v t = 0 then 128 else t_v t] @ put_short (t_r t) @ put_short (t_s t) else [])"

definition TxBlock_hash :: "crypto \<Rightarrow> bool \<Rightarrow> tx_block \<Rightarrow> Hash" where
  "TxBlock_hash cr includeSig t = sha3 cr (TxBlock_rlpSerialize includeSig t)"

definition get_to :: "bytes \<Rightarrow> nat \<Rightarrow> (Address \<times> nat) res" where
  "get_to d i =
     bindR (at_idx d i) (\<lambda>b.
       if b \<noteq> 148 then Inl (RuntimeError ''Receiver address (to) is not a 20 byte string (address)'')
       else bindR (subspan d (i + 1) 20) (\<lambda>p. Inr (p, i + 1 + 20)))"

definition get_access_list :: "bytes \<Rightarrow> nat \<Rightarrow> nat res" where
  "get_access_list d i =
     bindR (at_idx d i) (\<lambda>b. if b \<noteq> 192 then Inl (RuntimeError ''Access list is not empty'') else Inr (i + 1))"

definition get_v :: "bytes \<Rightarrow> nat \<Rightarrow> (uint8 \<times> nat) res" where
  "get_v d i =
     bindR (at_idx d i) (\<lambda>b.
       if b = 128 then Inr (0, i + 1)
       else bindR (subspan d i 1) (\<lambda>p.
         let v = (fromBigEndian p :: uint8) in
         if v > 1 then Inl (RuntimeError ''V is not 0 or 1'') else Inr (v, i + 1)))"

text \<open>The fields in the order of the source; the sender is not known yet.\<close>

definition TxBlock_tail :: "bytes \<Rightarrow> nat \<Rightarrow> (bytes \<times> uint8 \<times> uint256 \<times> uint256) res" where
  "TxBlock_tail d i7 =
     bindR (get_data True d i7) (\<lambda>(data, i8).
     bindR (get_access_list d i8) (\<lambda>i9.
     bindR (get_v d i9) (\<lambda>(v, i10).
     bindR (get_short 32 ''R is bigger than 32 bytes'' d i10) (\<lambda>(r, i11).
     bindR (get_short 32 ''S is bigger than 32 bytes'' d i11) (\<lambda>(s, i12).
     Inr (data, v, r, s))))))"

definition TxBlock_fields :: "bytes \<Rightarrow> nat \<Rightarrow> tx_block res" where
  "TxBlock_fields d i0 =
     bindR (get_uint 55 ''ChainId is too large'' read64 d i0) (\<lambda>(chainId, i1).
     bindR (get_uint 55 ''Nonce is too large'' read64_wide d i1) (\<lambda>(nonce, i2).
     bindR (get_uint 55 ''MaxPriorityFeePerGas is too large'' read256 d i2) (\<lambda>(maxPrio, i3).
     bindR (get_uint 55 ''MaxFeePerGas is too large'' read256 d i3) (\<lambda>(maxFee, i4).
     bindR (get_uint 55 ''GasLimit is too large'' read64_wide d i4) (\<lambda>(gasLimit, i5).
     bindR (get_to d i5) (\<lambda>(to, i6).
     bindR (get_uint 55 ''Value is not a small string'' read256 d i6) (\<lambda>(value, i7).
     bindR (TxBlock_tail d i7) (\<lambda>(data, v, r, s).
     Inr \<lparr>t_to = to, t_from = replicate 20 0, t_data = data, t_chainId = chainId, t_nonce = nonce, t_value = value,
          t_maxPriorityFeePerGas = maxPrio, t_maxFeePerGas = maxFee, t_gasLimit = gasLimit,
          t_v = v, t_r = r, t_s = s\<rparr>))))))))"

definition TxBlock_verify :: "crypto \<Rightarrow> tx_block \<Rightarrow> tx_block res" where
  "TxBlock_verify cr t =
     (if \<not> verifySig (t_r t) (t_s t) (t_v t)
      then Inl (RuntimeError ''Invalid tx signature - doesn't fit elliptic curve verification'')
      else let sig = makeSig (t_r t) (t_s t) (t_v t);
               msgHash = sha3 cr (TxBlock_rlpSerialize False t);
               key = recover cr sig msgHash in
        if \<not> list_ex (\<lambda>b. b \<noteq> 0) key then Inl (RuntimeError ''Invalid tx signature - cannot recover public key'')
        else Inr (t\<lparr>t_from := toAddress cr key\<rparr>))"

definition TxBlock_parse :: "crypto \<Rightarrow> bytes \<Rightarrow> tx_block res" where
  "TxBlock_parse cr bs =
     bindR (subspan_from bs 1) (\<lambda>txData.
     bindR (at_idx bs 0) (\<lambda>b.
     if b \<noteq> 2 then Inl (RuntimeError ''Tx is not type 2'')
     else bindR (get_list_header txData) (\<lambda>i.
          bindR (TxBlock_fields txData i) (TxBlock_verify cr))))"

definition TxBlock_new :: "crypto \<Rightarrow> tx_block \<Rightarrow> PrivKey \<Rightarrow> tx_block res" where
  "TxBlock_new cr t privKey =
     (let pubKey = toUPub cr privKey in
      if toAddress cr pubKey \<noteq> t_from t then Inl (RuntimeError ''Private key does not match sender address (from)'')
      else let hash = TxBlock_hash cr False t in
        bindR (sign cr hash privKey) (\<lambda>sig.
        bindR (bindR (subspan sig 0 32) bytesToUint256) (\<lambda>r.
        bindR (bindR (subspan sig 32 32) bytesToUint256) (\<lambda>s.
        let v = sig ! 64; t' = t\<lparr>t_r := r, t_s := s, t_v := v\<rparr> in
        if pubKey \<noteq> recover cr sig hash
        then Inl (RuntimeError ''Invalid tx signature - derived key doesn't match public key'')
        else if \<not> verifySig r s v
        then Inl (RuntimeError ''Invalid tx signature - doesn't fit elliptic curve verification'')
        else Inr t'))))"

text \<open>The call a transaction makes: the first four bytes of the data are the functor.\<close>

record eth_call_info =
  ci_from :: Address
  ci_to :: Address
  ci_gasLimit :: uint256
  ci_gasPrice :: uint256
  ci_value :: uint256
  ci_functor :: bytes
  ci_data :: bytes

definition txToCallInfo :: "tx_block \<Rightarrow> eth_call_info res" where
  "txToCallInfo t =
     bindR (if length (t_data t) \<ge> 4 then subspan (t_data t) 0 4 else Inr (replicate 4 0)) (\<lambda>functor.
     bindR (if length (t_data t) > 4 then subspan_from (t_data t) 4 else Inr []) (\<lambda>data.
     Inr \<lparr>ci_from = t_from t, ci_to = t_to t, ci_gasLimit = t_gasLimit t, ci_gasPrice = t_maxFeePerGas t,
          ci_value = t_value t, ci_functor = functor, ci_data = data\<rparr>))"

section \<open>TxValidator\<close>

record tx_validator =
  tv_from :: Address
  tv_data :: bytes
  tv_chainId :: uint64
  tv_nHeight :: uint64
  tv_v :: uint256
  tv_r :: uint256
  tv_s :: uint256

definition TxValidator_total_size :: "bool \<Rightarrow> tx_validator \<Rightarrow> nat" where
  "TxValidator_total_size includeSig t =
     data_size (tv_data t) + uint_size (tv_nHeight t) +
     (if includeSig then uint_size (tv_v t) else uint_size (tv_chainId t)) +
     (if includeSig then 1 + bytesRequired (tv_r t) else 1) +
     (if includeSig then 1 + bytesRequired (tv_s t) else 1)"

definition TxValidator_rlpSerialize :: "bool \<Rightarrow> tx_validator \<Rightarrow> bytes" where
  "TxValidator_rlpSerialize includeSig t =
     put_list_header (TxValidator_total_size includeSig t) @ put_data (tv_data t) @ put_uint (tv_nHeight t) @
     (if includeSig then put_small (tv_v t) else put_small (tv_chainId t)) @
     (if includeSig then put_short (tv_r t) else [128]) @
     (if includeSig then put_short (tv_s t) else [128])"

definition TxValidator_hash :: "crypto \<Rightarrow> bool \<Rightarrow> tx_validator \<Rightarrow> Hash" where
  "TxValidator_hash cr includeSig t = sha3 cr (TxValidator_rlpSerialize includeSig t)"

definition TxValidator_chainId :: "uint256 \<Rightarrow> uint64 res" where
  "TxValidator_chainId v =
     (if v > 36 then checked_conv ((v - 35) div 2)
      else if v \<noteq> 27 \<and> v \<noteq> 28 then Inl (RuntimeError ''Invalid tx signature - v is not 27 or 28'')
      else Inl UndefinedBehaviour)"

definition TxValidator_recoveryId :: "uint256 \<Rightarrow> uint64 \<Rightarrow> uint8 res" where
  "TxValidator_recoveryId v chainId =
     bindR (checked_mult (ucast chainId) 2) (\<lambda>c. bindR (checked_add c 35) (\<lambda>c'.
     bindR (checked_sub v c') (\<lambda>x. checked_conv x)))"

definition TxValidator_fields :: "bytes \<Rightarrow> nat \<Rightarrow> tx_validator res" where
  "TxValidator_fields d i0 =
     bindR (get_data False d i0) (\<lambda>(data, i1).
     bindR (get_uint 255 [] read64 d i1) (\<lambda>(nHeight, i2).
     bindR (get_uint 55 ''V is not a small string'' read256 d i2) (\<lambda>(v, i3).
     bindR (get_short 55 ''R is not a small string'' d i3) (\<lambda>(r, i4).
     bindR (get_short 55 ''S is not a small string'' d i4) (\<lambda>(s, i5).
     bindR (TxValidator_chainId v) (\<lambda>chainId.
     Inr \<lparr>tv_from = replicate 20 0, tv_data = data, tv_chainId = chainId, tv_nHeight = nHeight,
          tv_v = v, tv_r = r, tv_s = s\<rparr>))))))"

definition TxValidator_verify :: "crypto \<Rightarrow> tx_validator \<Rightarrow> tx_validator res" where
  "TxValidator_verify cr t =
     bindR (TxValidator_recoveryId (tv_v t) (tv_chainId t)) (\<lambda>recoveryId.
     if \<not> verifySig (tv_r t) (tv_s t) recoveryId
     then Inl (RuntimeError ''Invalid tx signature - doesn't fit elliptic curve verification'')
     else let sig = makeSig (tv_r t) (tv_s t) recoveryId;
              key = recover cr sig (TxValidator_hash cr False t) in
       if key = no_UPubKey then Inl (RuntimeError ''Invalid tx signature - cannot recover public key'')
       else Inr (t\<lparr>tv_from := toAddress cr key\<rparr>))"

definition TxValidator_parse :: "crypto \<Rightarrow> bytes \<Rightarrow> tx_validator res" where
  "TxValidator_parse cr bs =
     bindR (get_list_header bs) (\<lambda>i. bindR (TxValidator_fields bs i) (TxValidator_verify cr))"

definition TxValidator_new :: "crypto \<Rightarrow> Address \<Rightarrow> bytes \<Rightarrow> uint64 \<Rightarrow> uint64 \<Rightarrow> PrivKey \<Rightarrow> tx_validator res" where
  "TxValidator_new cr from data chainId nHeight privKey =
     (let t = \<lparr>tv_from = from, tv_data = data, tv_chainId = chainId, tv_nHeight = nHeight, tv_v = 0, tv_r = 0, tv_s = 0\<rparr>;
          pubKey = toUPub cr privKey; hash = TxValidator_hash cr False t in
      if toAddress cr pubKey \<noteq> from then Inl (RuntimeError ''Private key does not match sender address (from)'')
      else
        bindR (sign cr hash privKey) (\<lambda>sig.
        bindR (bindR (subspan sig 0 32) bytesToUint256) (\<lambda>r.
        bindR (bindR (subspan sig 32 32) bytesToUint256) (\<lambda>s.
        let recoveryIds = sig ! 64;
            v = (ucast (ucast recoveryIds + (chainId * 2 + 35) :: uint64) :: uint256) in
        if \<not> verifySig r s recoveryIds
        then Inl (RuntimeError ''Invalid tx signature - doesn't fit elliptic curve verification'')
        else if pubKey \<noteq> recover cr sig hash
        then Inl (RuntimeError ''Invalid transaction signature, signature derived key doens't match public key'')
        else Inr (t\<lparr>tv_v := v, tv_r := r, tv_s := s\<rparr>)))))"

section \<open>Reading back what was written\<close>

lemma get_to_put:
  assumes "length a = 20" "at_pos d i (148 # a @ r)"
  shows "get_to d i = Inr (a, i + 21)"
  using at_pos_idx [OF assms(2)] at_pos_subspan [OF at_pos_Cons [OF assms(2)]] assms(1)
  by (simp add: get_to_def)

lemma get_v_put:
  assumes "v \<le> 1" "at_pos d i ((if v = 0 then 128 else v) # r)"
  shows "get_v d i = Inr (v, i + 1)"
proof -
  have "v = 0 \<or> v = 1" using assms(1) by (simp add: word_le_nat_alt word_unat_eq_iff) linarith
  then show ?thesis
    using at_pos_idx [OF assms(2)] at_pos_subspan [of d i "[if v = 0 then 128 else v]" r 1] assms(2)
    by (auto simp: get_v_def fromBigEndian_of_nat)
qed

lemma get_access_list_put: "at_pos d i (192 # r) \<Longrightarrow> get_access_list d i = Inr (i + 1)"
  by (simp add: get_access_list_def at_pos_idx)

definition TxBlock_sig :: "tx_block \<Rightarrow> bytes" where
  "TxBlock_sig t = (if t_v t = 0 then 128 else t_v t) # put_short (t_r t) @ put_short (t_s t)"

lemma TxBlock_tail_put:
  assumes "length (t_data t) \<noteq> 55" "length (t_data t) < 2 ^ 64" "t_v t \<le> 1"
    "at_pos d i (put_data (t_data t) @ [192] @ TxBlock_sig t)"
  shows "TxBlock_tail d i = Inr (t_data t, t_v t, t_r t, t_s t)"
proof -
  note p0 = assms(4)
  note p1 = at_pos_append [OF p0]
  have p2: "at_pos d (i + length (put_data (t_data t)) + 1) (TxBlock_sig t)"
    using at_pos_append [OF p1] by simp
  have p3: "at_pos d (i + length (put_data (t_data t)) + 2) (put_short (t_r t) @ put_short (t_s t) @ [])"
    using at_pos_Cons [OF p2 [unfolded TxBlock_sig_def]] by simp
  note p4 = at_pos_append [OF p3]
  show ?thesis
    using fdata.get_enc [OF _ p0] get_access_list_put [OF p1 [simplified]] get_v_put [OF assms(3) p2 [unfolded TxBlock_sig_def]]
      fshort.get_enc [OF _ p3] fshort.get_enc [OF _ p4] assms(1,2)
    by (simp add: TxBlock_tail_def add.assoc)
qed

definition TxBlock_head :: "tx_block \<Rightarrow> bytes" where
  "TxBlock_head t = put_uint (t_chainId t) @ put_uint (t_nonce t) @ put_uint (t_maxPriorityFeePerGas t) @
     put_uint (t_maxFeePerGas t) @ put_uint (t_gasLimit t) @ [148] @ t_to t @ put_uint (t_value t)"

text \<open>What the wire format can carry: a 20-byte receiver, and a nonce and a gas limit of 64 bits.\<close>

definition tx_wire :: "tx_block \<Rightarrow> bool" where
  "tx_wire t \<longleftrightarrow> length (t_to t) = 20 \<and> unat (t_nonce t) < 2 ^ 64 \<and> unat (t_gasLimit t) < 2 ^ 64"

lemma tx_block_rebuild:
  "\<lparr>t_to = t_to t, t_from = f, t_data = data, t_chainId = t_chainId t, t_nonce = t_nonce t, t_value = t_value t,
    t_maxPriorityFeePerGas = t_maxPriorityFeePerGas t, t_maxFeePerGas = t_maxFeePerGas t, t_gasLimit = t_gasLimit t,
    t_v = v, t_r = r, t_s = s\<rparr> = t\<lparr>t_from := f, t_data := data, t_v := v, t_r := r, t_s := s\<rparr>"
  by simp

lemma TxBlock_fields_put:
  assumes "tx_wire t" "at_pos d i (TxBlock_head t @ rest)"
  obtains j where "at_pos d j rest"
    "TxBlock_fields d i = bindR (TxBlock_tail d j) (\<lambda>(data, v, r, s).
       Inr (t\<lparr>t_from := replicate 20 0, t_data := data, t_v := v, t_r := r, t_s := s\<rparr>))"
proof -
  have w: "length (t_to t) = 20" "unat (t_nonce t) < 2 ^ 64" "unat (t_gasLimit t) < 2 ^ 64"
    using assms(1) by (simp_all add: tx_wire_def)
  note p0 = assms(2) [unfolded TxBlock_head_def append_assoc]
  note p1 = at_pos_append [OF p0]
  note p2 = at_pos_append [OF p1]
  note p3 = at_pos_append [OF p2]
  note p4 = at_pos_append [OF p3]
  note p5 = at_pos_append [OF p4]
  note p6 = at_pos_append [OF at_pos_append [OF p5]]
  note p7 = at_pos_append [OF p6]
  let ?k = "i + length (put_uint (t_chainId t)) + length (put_uint (t_nonce t)) +
      length (put_uint (t_maxPriorityFeePerGas t)) + length (put_uint (t_maxFeePerGas t)) + length (put_uint (t_gasLimit t))"
  have to: "get_to d ?k = Inr (t_to t, ?k + 21)" using get_to_put [OF w(1)] p5 by simp
  have val: "get_uint 55 msg read256 d (?k + 21) = Inr (t_value t, ?k + 21 + length (put_uint (t_value t)))" for msg
    using f256.get_enc [OF _ p6] w(1) by (simp add: ac_simps)
  have p8: "at_pos d (?k + 21 + length (put_uint (t_value t))) rest" using p7 w(1) by (simp add: ac_simps)
  show ?thesis
    using f64.get_enc [OF _ p0] f64w.get_enc [OF w(2) p1] f256.get_enc [OF _ p2] f256.get_enc [OF _ p3]
      f64w.get_enc [OF w(3) p4] to val
    by (intro that [OF p8]) (simp add: TxBlock_fields_def tx_block_rebuild)
qed

lemma TxBlock_serialized:
  "TxBlock_rlpSerialize True t = 2 # put_list_header (TxBlock_total_size True t) @
     TxBlock_head t @ put_data (t_data t) @ [192] @ TxBlock_sig t"
  "TxBlock_rlpSerialize False t = 2 # put_list_header (TxBlock_total_size False t) @
     TxBlock_head t @ put_data (t_data t) @ [192]"
  by (simp_all add: TxBlock_rlpSerialize_def TxBlock_head_def TxBlock_sig_def)

lemma TxBlock_body_size:
  assumes "tx_wire t" "length (t_data t) < 2 ^ 64"
  shows "length (TxBlock_head t @ put_data (t_data t) @ [192] @ TxBlock_sig t) = TxBlock_total_size True t"
    and "length (TxBlock_head t @ put_data (t_data t) @ [192]) = TxBlock_total_size False t"
  using assms by (simp_all add: TxBlock_head_def TxBlock_sig_def TxBlock_total_size_def tx_wire_def)

lemma uint_size_le: "uint_size (x :: uint256) \<le> 33" "uint_size (y :: uint64) \<le> 9"
  using bytesRequired_256 [of x] bytesRequired_64 [of y] by (simp_all add: uint_size_def)

lemma TxBlock_total_size_le: "TxBlock_total_size b t \<le> 300 + length (t_data t)"
proof -
  have "data_size (t_data t) \<le> 9 + length (t_data t)"
    using bytesRequired_64 [of "of_nat (length (t_data t))"] by (simp add: data_size_def)
  then show ?thesis
    using uint_size_le(1) [of "t_nonce t"] uint_size_le(1) [of "t_maxPriorityFeePerGas t"]
      uint_size_le(1) [of "t_maxFeePerGas t"] uint_size_le(1) [of "t_gasLimit t"] uint_size_le(1) [of "t_value t"]
      uint_size_le(2) [of "t_chainId t"] bytesRequired_256 [of "t_r t"] bytesRequired_256 [of "t_s t"]
    by (simp add: TxBlock_total_size_def)
qed

lemma TxBlock_total_size_bound: "length (t_data t) < 2 ^ 32 \<Longrightarrow> TxBlock_total_size b t < 2 ^ 33"
  using TxBlock_total_size_le [of b t] by simp

lemma TxBlock_parse_start:
  assumes "tx_wire t" "length (t_data t) < 2 ^ 32" "55 < TxBlock_total_size True t"
  obtains d j where "at_pos d j (put_data (t_data t) @ [192] @ TxBlock_sig t)"
    "TxBlock_parse cr (TxBlock_rlpSerialize True t) = bindR (TxBlock_tail d j) (\<lambda>(data, v, r, s).
       TxBlock_verify cr (t\<lparr>t_from := replicate 20 0, t_data := data, t_v := v, t_r := r, t_s := s\<rparr>))"
proof -
  let ?n = "TxBlock_total_size True t"
  let ?body = "TxBlock_head t @ put_data (t_data t) @ [192] @ TxBlock_sig t"
  let ?d = "put_list_header ?n @ ?body"
  have len: "length ?body = ?n" using assms(1,2) by (intro TxBlock_body_size) simp_all
  have n: "?n < 2 ^ 33" using assms(2) by (rule TxBlock_total_size_bound)
  have "length (put_list_header ?n) \<le> 9"
    using bytesRequired_64 [of "of_nat ?n"] by (simp add: put_list_header_def)
  then have size: "length ?d < 2 ^ 64" "?n < 2 ^ 64" using n len by simp_all
  note hdr = list_header_long [OF assms(3) size(2) refl len size(1)]
  obtain j where j: "at_pos ?d j (put_data (t_data t) @ [192] @ TxBlock_sig t)"
    and fields: "TxBlock_fields ?d (length (put_list_header ?n)) = bindR (TxBlock_tail ?d j) (\<lambda>(data, v, r, s).
       Inr (t\<lparr>t_from := replicate 20 0, t_data := data, t_v := v, t_r := r, t_s := s\<rparr>))"
    using TxBlock_fields_put [OF assms(1) hdr(2)] by blast
  show ?thesis
    by (rule that [OF j])
       (use hdr(1) fields in \<open>simp add: TxBlock_parse_def TxBlock_serialized subspan_from_def at_idx_def bindR_assoc
         case_prod_unfold\<close>)
qed

lemma sign_shape:
  assumes "sign cr msg key = Inr sig" "verifySig r s v"
    "bindR (subspan sig 0 32) bytesToUint256 = Inr r" "bindR (subspan sig 32 32) bytesToUint256 = Inr s" "sig ! 64 = v"
  shows "sig = makeSig r s v"
proof (cases "ext_sign cr msg key")
  case None
  then have "sig = no_Signature" using assms(1) by (simp add: sign_def)
  then have "r = 0" using assms(3) by (simp add: no_Signature_def subspan_def bytesToUint256_def import_bits_def fromBigEndian_of_nat)
  then show ?thesis using assms(2) by (simp add: verifySig_def)
next
  case (Some p)
  then obtain r' s' v' where sig: "sig = makeSig r' s' v'"
    using assms(1) by (auto simp: sign_def bindR_eq_Inr split: prod.splits if_splits)
  then show ?thesis using assms(3-5) by (simp add: makeSig_parts c256.dec_enc)
qed

lemma TxBlock_new_ok:
  assumes "TxBlock_new cr t key = Inr t'"
  obtains r s v where "t' = t\<lparr>t_r := r, t_s := s, t_v := v\<rparr>" "verifySig r s v"
    "recover cr (makeSig r s v) (TxBlock_hash cr False t) = toUPub cr key" "t_from t = toAddress cr (toUPub cr key)"
proof -
  obtain sig r s where s: "sign cr (TxBlock_hash cr False t) key = Inr sig"
    "bindR (subspan sig 0 32) bytesToUint256 = Inr r" "bindR (subspan sig 32 32) bytesToUint256 = Inr s"
    "toUPub cr key = recover cr sig (TxBlock_hash cr False t)" "verifySig r s (sig ! 64)"
    "t' = t\<lparr>t_r := r, t_s := s, t_v := sig ! 64\<rparr>" "toAddress cr (toUPub cr key) = t_from t"
    using assms by (auto simp: TxBlock_new_def Let_def bindR_eq_Inr split: if_splits)
  have "sig = makeSig r s (sig ! 64)" using sign_shape [OF s(1,5,2,3) refl] .
  then show ?thesis using s by (intro that [OF s(6,5)]) simp_all
qed

text \<open>The signing payload depends on neither the sender nor the signature.\<close>

lemma TxBlock_payload_frame:
  "TxBlock_rlpSerialize False (t\<lparr>t_from := f\<rparr>) = TxBlock_rlpSerialize False t"
  "TxBlock_rlpSerialize False (t\<lparr>t_v := v\<rparr>) = TxBlock_rlpSerialize False t"
  "TxBlock_rlpSerialize False (t\<lparr>t_r := r\<rparr>) = TxBlock_rlpSerialize False t"
  "TxBlock_rlpSerialize False (t\<lparr>t_s := s\<rparr>) = TxBlock_rlpSerialize False t"
  by (simp_all add: TxBlock_rlpSerialize_def TxBlock_total_size_def)

text \<open>The header byte of 55 bytes of data is taken for a long string whose length has no bytes.\<close>

lemma TxBlock_tail_55:
  assumes "length xs = 55" "hd xs \<noteq> 192" "at_pos d i (put_data xs @ r)"
  shows "TxBlock_tail d i = Inl (RuntimeError ''Access list is not empty'')"
proof -
  obtain x xs' where xs: "xs = x # xs'" using assms(1) by (cases xs) auto
  have at: "at_pos d i (183 # xs @ r)" using assms(1,3) xs by (simp add: put_data_def)
  have at': "at_pos d (Suc i) (x # xs' @ r)" using at_pos_Cons [OF at] xs by simp
  have "get_data True d i = Inr ([], i + 1)"
    using at_pos_idx [OF at] at' by (simp add: get_data_def subspan_def at_pos_def)
  then show ?thesis
    using at_pos_idx [OF at'] assms(2) xs by (simp add: TxBlock_tail_def get_access_list_def)
qed

subsection \<open>Validator transactions\<close>

lemma TxValidator_new_ok:
  assumes "TxValidator_new cr from data chainId nHeight key = Inr t"
  obtains r s v t0 where
    "t0 = \<lparr>tv_from = from, tv_data = data, tv_chainId = chainId, tv_nHeight = nHeight, tv_v = 0, tv_r = 0, tv_s = 0\<rparr>"
    "t = t0\<lparr>tv_v := ucast (ucast v + (chainId * 2 + 35) :: uint64), tv_r := r, tv_s := s\<rparr>" "verifySig r s v"
    "recover cr (makeSig r s v) (TxValidator_hash cr False t0) = toUPub cr key" "from = toAddress cr (toUPub cr key)"
proof -
  define t0 where
    "t0 = \<lparr>tv_from = from, tv_data = data, tv_chainId = chainId, tv_nHeight = nHeight, tv_v = 0, tv_r = 0, tv_s = 0\<rparr>"
  obtain sig r s where s: "sign cr (TxValidator_hash cr False t0) key = Inr sig"
    "bindR (subspan sig 0 32) bytesToUint256 = Inr r" "bindR (subspan sig 32 32) bytesToUint256 = Inr s"
    "toUPub cr key = recover cr sig (TxValidator_hash cr False t0)" "verifySig r s (sig ! 64)"
    "t = t0\<lparr>tv_v := ucast (ucast (sig ! 64) + (chainId * 2 + 35) :: uint64), tv_r := r, tv_s := s\<rparr>"
    "toAddress cr (toUPub cr key) = from"
    using assms unfolding t0_def [symmetric] TxValidator_new_def Let_def by (auto simp: bindR_eq_Inr split: if_splits)
  have "sig = makeSig r s (sig ! 64)" using sign_shape [OF s(1,5,2,3) refl] .
  then show ?thesis using s by (intro that [OF t0_def s(6,5)]) simp_all
qed

lemma TxValidator_v:
  assumes "v \<le> 1" "1 \<le> unat chainId" "unat chainId < 2 ^ 62"
  defines "w \<equiv> ucast (ucast (v :: uint8) + (chainId * 2 + 35) :: uint64) :: uint256"
  shows "TxValidator_chainId w = Inr chainId" "TxValidator_recoveryId w chainId = Inr v"
proof -
  have v: "unat v \<le> 1" using assms(1) by (simp add: word_le_nat_alt)
  have c2: "unat (chainId * 2) = unat chainId * 2" using assms(3) by (subst unat_mult_no_wrap) simp_all
  have c35: "unat (chainId * 2 + 35) = unat chainId * 2 + 35"
    using assms(3) c2 by (subst unat_add_no_wrap) simp_all
  have "unat (ucast v :: uint64) = unat v" by (simp add: unsigned_ucast_eq take_bit_nat_eq_self v order_le_less_trans [OF v])
  then have "unat (ucast v + (chainId * 2 + 35) :: uint64) = unat chainId * 2 + 35 + unat v"
    using assms(3) c35 v by (subst unat_add_no_wrap) simp_all
  then have w: "unat w = unat chainId * 2 + 35 + unat v"
    unfolding w_def using assms(3) v by (simp add: unsigned_ucast_eq take_bit_nat_eq_self)
  have "unat ((w - 35) div 2) = unat chainId"
    using w v by (simp add: unat_div unat_sub_no_wrap word_le_nat_alt)
  moreover have "w > 36" using w assms(2) by (simp add: word_less_nat_alt)
  ultimately show "TxValidator_chainId w = Inr chainId"
    using assms(3) by (simp add: TxValidator_chainId_def checked_conv_Inr word_unat_eq_iff unsigned_ucast_eq take_bit_nat_eq_self)
  have u: "unat (ucast chainId :: uint256) = unat chainId"
    using assms(3) by (simp add: unsigned_ucast_eq take_bit_nat_eq_self)
  have m: "unat (ucast chainId * 2 :: uint256) = unat chainId * 2" using assms(3) u by (subst unat_mult_no_wrap) simp_all
  have p: "unat (ucast chainId * 2 + 35 :: uint256) = unat chainId * 2 + 35" using assms(3) m by (subst unat_add_no_wrap) simp_all
  have d: "unat (w - (ucast chainId * 2 + 35)) = unat v" using w p by (subst unat_sub_no_wrap) (simp_all add: word_le_nat_alt)
  show "TxValidator_recoveryId w chainId = Inr v"
    using assms(3) u m p w d v
    by (simp add: TxValidator_recoveryId_def checked_mult_def checked_add_def checked_sub_def checked_conv_Inr word_le_nat_alt
        word_unat_eq_iff unsigned_ucast_eq take_bit_nat_eq_self order_le_less_trans [OF v])
qed

lemma TxValidator_fields_put:
  assumes "length (tv_data t) \<noteq> 55" "length (tv_data t) < 2 ^ 64" "TxValidator_chainId (tv_v t) = Inr (tv_chainId t)"
    "at_pos d i (put_data (tv_data t) @ put_uint (tv_nHeight t) @ put_small (tv_v t) @ put_short (tv_r t) @ put_short (tv_s t) @ [])"
  shows "TxValidator_fields d i = Inr (t\<lparr>tv_from := replicate 20 0\<rparr>)"
proof -
  note p0 = assms(4)
  note p1 = at_pos_append [OF p0]
  note p2 = at_pos_append [OF p1]
  note p3 = at_pos_append [OF p2]
  note p4 = at_pos_append [OF p3]
  show ?thesis
    using fdata.get_enc [OF _ p0] fheight.get_enc [OF _ p1] fsmall.get_enc [OF _ p2] fshort55.get_enc [OF _ p3]
      fshort55.get_enc [OF _ p4] assms(1-3)
    by (simp add: TxValidator_fields_def)
qed

lemma TxValidator_parse_put:
  assumes "length (tv_data t) \<noteq> 55" "length (tv_data t) < 2 ^ 32" "TxValidator_chainId (tv_v t) = Inr (tv_chainId t)"
    "55 < TxValidator_total_size True t"
  shows "TxValidator_parse cr (TxValidator_rlpSerialize True t) = TxValidator_verify cr (t\<lparr>tv_from := replicate 20 0\<rparr>)"
proof -
  let ?n = "TxValidator_total_size True t"
  let ?body = "put_data (tv_data t) @ put_uint (tv_nHeight t) @ put_small (tv_v t) @ put_short (tv_r t) @ put_short (tv_s t) @ []"
  have data: "length (tv_data t) < 2 ^ 64" using assms(2) by simp
  have len: "length ?body = ?n" using data by (simp add: TxValidator_total_size_def)
  have "data_size (tv_data t) \<le> 9 + length (tv_data t)"
    using bytesRequired_64 [of "of_nat (length (tv_data t))"] by (simp add: data_size_def)
  then have n: "?n < 2 ^ 33"
    using assms(2) uint_size_le(1) [of "tv_v t"] uint_size_le(2) [of "tv_nHeight t"] bytesRequired_256 [of "tv_r t"]
      bytesRequired_256 [of "tv_s t"] by (simp add: TxValidator_total_size_def)
  have "length (put_list_header ?n) \<le> 9"
    using bytesRequired_64 [of "of_nat ?n"] by (simp add: put_list_header_def)
  then have size: "length (put_list_header ?n @ ?body) < 2 ^ 64" "?n < 2 ^ 64" using n len by simp_all
  note hdr = list_header_long [OF assms(4) size(2) refl len size(1)]
  show ?thesis
    using hdr(1) TxValidator_fields_put [OF assms(1) data assms(3) hdr(2)]
    by (simp add: TxValidator_parse_def TxValidator_rlpSerialize_def)
qed

lemma TxBlock_read_back:
  assumes new: "TxBlock_new cr t0 key = Inr t" and valid: "list_ex (\<lambda>b. b \<noteq> 0) (toUPub cr key)"
    and wire: "tx_wire t0" "length (t_data t0) < 2 ^ 32" "length (t_data t0) \<noteq> 55" "55 < TxBlock_total_size True t"
  shows "TxBlock_parse cr (TxBlock_rlpSerialize True t) = Inr t"
proof -
  obtain r s v where t_eq: "t = t0\<lparr>t_r := r, t_s := s, t_v := v\<rparr>" and sig: "verifySig r s v"
    and rec: "recover cr (makeSig r s v) (TxBlock_hash cr False t0) = toUPub cr key"
    and from_eq: "t_from t0 = toAddress cr (toUPub cr key)"
    using new by (rule TxBlock_new_ok)
  have t: "tx_wire t" "length (t_data t) < 2 ^ 32" "length (t_data t) \<noteq> 55" "length (t_data t) < 2 ^ 64" "t_v t \<le> 1"
    using wire(1-3) sig by (simp_all add: t_eq tx_wire_def verifySig_def)
  obtain d j where at: "at_pos d j (put_data (t_data t) @ [192] @ TxBlock_sig t)"
    and parse: "TxBlock_parse cr (TxBlock_rlpSerialize True t) = bindR (TxBlock_tail d j) (\<lambda>(data, v, r, s).
       TxBlock_verify cr (t\<lparr>t_from := replicate 20 0, t_data := data, t_v := v, t_r := r, t_s := s\<rparr>))"
    using TxBlock_parse_start [OF t(1,2) wire(4)] by blast
  have "t\<lparr>t_from := toAddress cr (toUPub cr key)\<rparr> = t"
    by (rule tx_block.equality) (simp_all add: t_eq from_eq)
  then have "TxBlock_verify cr (t\<lparr>t_from := replicate 20 0\<rparr>) = Inr t"
    using sig rec valid by (simp add: TxBlock_verify_def Let_def t_eq TxBlock_payload_frame TxBlock_hash_def)
  then show ?thesis using TxBlock_tail_put [OF t(3-5) at] parse by simp
qed

lemma TxValidator_read_back:
  assumes new: "TxValidator_new cr from data chainId nHeight key = Inr t" and valid: "toUPub cr key \<noteq> no_UPubKey"
    and chain: "1 \<le> unat chainId" "unat chainId < 2 ^ 62"
    and wire: "length data < 2 ^ 32" "length data \<noteq> 55" "55 < TxValidator_total_size True t"
  shows "TxValidator_parse cr (TxValidator_rlpSerialize True t) = Inr t"
proof -
  obtain r s v t0 where
    t0: "t0 = \<lparr>tv_from = from, tv_data = data, tv_chainId = chainId, tv_nHeight = nHeight, tv_v = 0, tv_r = 0, tv_s = 0\<rparr>"
    and t: "t = t0\<lparr>tv_v := ucast (ucast v + (chainId * 2 + 35) :: uint64), tv_r := r, tv_s := s\<rparr>" and sig: "verifySig r s v"
    and rec: "recover cr (makeSig r s v) (TxValidator_hash cr False t0) = toUPub cr key"
    and from_eq: "from = toAddress cr (toUPub cr key)"
    using new by (rule TxValidator_new_ok)
  have "v \<le> 1" using sig by (simp add: verifySig_def)
  note v = TxValidator_v [OF this chain]
  have "TxValidator_parse cr (TxValidator_rlpSerialize True t) = TxValidator_verify cr (t\<lparr>tv_from := replicate 20 0\<rparr>)"
    using wire v(1) by (intro TxValidator_parse_put) (simp_all add: t t0)
  also have "\<dots> = Inr (t\<lparr>tv_from := from\<rparr>)"
    using sig rec valid v(2) from_eq
    by (simp add: TxValidator_verify_def t t0 Let_def TxValidator_hash_def TxValidator_rlpSerialize_def TxValidator_total_size_def)
  finally show ?thesis by (simp add: t t0)
qed

text \<open>A concrete transaction.\<close>

definition demo_tx :: tx_block where
  "demo_tx = \<lparr>t_to = replicate 20 9, t_from = toAddress demo_crypto (toUPub demo_crypto []), t_data = replicate 30 7,
     t_chainId = 8080, t_nonce = 3, t_value = 1000, t_maxPriorityFeePerGas = 0, t_maxFeePerGas = 250, t_gasLimit = 21000,
     t_v = 0, t_r = 0, t_s = 0\<rparr>"

lemma demo_sign: "sign demo_crypto msg key = Inr (makeSig 5 1 1)"
  by (simp add: sign_def demo_crypto_def subspan_def c256.enc_length c256.dec_enc ecConst_def checked_sub_def)

lemma demo_recover: "v \<le> 3 \<Longrightarrow> recover demo_crypto (makeSig r s v) msg = toUPub demo_crypto key"
  by (auto simp: recover_def makeSig_parts toUPub_def demo_crypto_def)

lemma demo_key_valid: "toUPub demo_crypto key \<noteq> no_UPubKey"
proof -
  have "hd (toUPub demo_crypto key) \<noteq> hd no_UPubKey" by (simp add: toUPub_def demo_crypto_def no_UPubKey_def)
  then show ?thesis by auto
qed

lemma demo_tx_new: "TxBlock_new demo_crypto demo_tx [] = Inr (demo_tx\<lparr>t_r := 5, t_s := 1, t_v := 1\<rparr>)"
  by (simp add: TxBlock_new_def Let_def demo_sign makeSig_parts c256.dec_enc demo_recover [of 1 _ _ _ "[]"] verifySig_def
      ecConst_def) (simp add: demo_tx_def)

section \<open>Properties\<close>



text \<open>
  The same for validator transactions: what a validator signed with a valid key, on a chain whose id is
  between 1 and \<open>2\<^sup>6\<^sup>2\<close>, is read back as it was, the chain id and the recovery id decoded from \<open>v\<close> and the
  sender recovered from the signature.
\<close>

theorem TxValidator_roundtrip:
  assumes new: "TxValidator_new cr from data chainId nHeight key = Inr t" and valid: "toUPub cr key \<noteq> no_UPubKey"
    and chain: "1 \<le> unat chainId" "unat chainId < 2 ^ 62"
    and wire: "length data < 2 ^ 32" "length data \<noteq> 55" "55 < TxValidator_total_size True t"
  shows "TxValidator_parse cr (TxValidator_rlpSerialize True t) = Inr t"
  using assms by (rule TxValidator_read_back)

theorem TxValidator_roundtrip_witness:
  "\<exists>t. TxValidator_new demo_crypto (toAddress demo_crypto (toUPub demo_crypto [])) (replicate 60 7) 8080 12 [] = Inr t \<and>
     tv_nHeight t = 12 \<and> TxValidator_parse demo_crypto (TxValidator_rlpSerialize True t) = Inr t"
proof -
  let ?new = "TxValidator_new demo_crypto (toAddress demo_crypto (toUPub demo_crypto [])) (replicate 60 7) 8080 12 []"
  obtain t where t: "?new = Inr t" and obs: "tv_nHeight t = 12" "tv_data t = replicate 60 7"
    by (simp add: TxValidator_new_def Let_def demo_sign makeSig_parts c256.dec_enc demo_recover [of 1 _ _ _ "[]"] verifySig_def
        ecConst_def)
  have "TxValidator_parse demo_crypto (TxValidator_rlpSerialize True t) = Inr t"
    by (rule TxValidator_roundtrip [OF t demo_key_valid])
       (simp_all add: obs TxValidator_total_size_def data_size_def)
  then show ?thesis using t obs by blast
qed

text \<open>
  What is signed determines the transaction: two transactions with the same signing payload agree
  in every field but the sender and the signature.
\<close>

theorem TxBlock_payload_injective:
  assumes len: "length (t_to t) = 20" "length (t_to u) = 20" "length (t_data t) < 2 ^ 32" "length (t_data u) < 2 ^ 32"
    and eq: "TxBlock_rlpSerialize False t = TxBlock_rlpSerialize False u"
  shows "t\<lparr>t_from := t_from u, t_v := t_v u, t_r := t_r u, t_s := t_s u\<rparr> = u"
proof -
  have data: "length (t_data t) < 2 ^ 64" "length (t_data u) < 2 ^ 64" using len(3,4) by simp_all
  have size: "TxBlock_total_size False t < 2 ^ 64" "TxBlock_total_size False u < 2 ^ 64"
    using TxBlock_total_size_bound [OF len(3), of False] TxBlock_total_size_bound [OF len(4), of False] by simp_all
  have "put_list_header (TxBlock_total_size False t) @ TxBlock_head t @ put_data (t_data t) @ [192] =
      put_list_header (TxBlock_total_size False u) @ TxBlock_head u @ put_data (t_data u) @ [192]"
    using eq by (simp add: TxBlock_serialized)
  then have "TxBlock_head t @ put_data (t_data t) @ [192] = TxBlock_head u @ put_data (t_data u) @ [192]"
    using clist.unique [OF size] by blast
  then have "t_chainId t = t_chainId u \<and> t_nonce t = t_nonce u \<and> t_maxPriorityFeePerGas t = t_maxPriorityFeePerGas u \<and>
      t_maxFeePerGas t = t_maxFeePerGas u \<and> t_gasLimit t = t_gasLimit u \<and> t_to t = t_to u \<and> t_value t = t_value u \<and>
      t_data t = t_data u"
    by (simp add: TxBlock_head_def f64.enc_eq_iff f256.enc_eq_iff cdata.enc_eq_iff [OF data, of "[]" "[]", simplified]
        len(1,2))
  then show ?thesis by (intro tx_block.equality) simp_all
qed

text \<open>
  A transaction with exactly 55 bytes of data whose first byte is not 0xc0 is refused by the
  parser, whatever its signature: its own serialization is not a transaction.
\<close>

theorem TxBlock_55_bytes_of_data_refused:
  assumes "tx_wire t" "length (t_data t) = 55" "hd (t_data t) \<noteq> 192"
  shows "TxBlock_parse cr (TxBlock_rlpSerialize True t) = Inl (RuntimeError ''Access list is not empty'')"
proof -
  have "55 < TxBlock_total_size True t" using assms(2) by (simp add: TxBlock_total_size_def data_size_def)
  then obtain d j where at: "at_pos d j (put_data (t_data t) @ [192] @ TxBlock_sig t)"
    and parse: "TxBlock_parse cr (TxBlock_rlpSerialize True t) = bindR (TxBlock_tail d j) (\<lambda>(data, v, r, s).
       TxBlock_verify cr (t\<lparr>t_from := replicate 20 0, t_data := data, t_v := v, t_r := r, t_s := s\<rparr>))"
    using TxBlock_parse_start [OF assms(1)] assms(2) by auto
  show ?thesis using TxBlock_tail_55 [OF assms(2,3) at] parse by simp
qed

theorem TxBlock_payload_injective_witness:
  "let t = demo_tx; u = demo_tx\<lparr>t_s := 1, t_v := 1\<rparr> in
   TxBlock_rlpSerialize False t = TxBlock_rlpSerialize False u \<and>
   t\<lparr>t_from := t_from u, t_v := t_v u, t_r := t_r u, t_s := t_s u\<rparr> = u"
proof -
  let ?u = "demo_tx\<lparr>t_s := 1, t_v := 1\<rparr>"
  have "TxBlock_rlpSerialize False demo_tx = TxBlock_rlpSerialize False ?u" by (simp add: TxBlock_payload_frame)
  moreover from this have "demo_tx\<lparr>t_from := t_from ?u, t_v := t_v ?u, t_r := t_r ?u, t_s := t_s ?u\<rparr> = ?u"
    by (intro TxBlock_payload_injective) (simp_all add: demo_tx_def)
  ultimately show ?thesis by (simp add: Let_def)
qed

theorem TxBlock_55_bytes_of_data_refused_witness:
  "TxBlock_parse demo_crypto (TxBlock_rlpSerialize True (demo_tx\<lparr>t_data := replicate 55 1\<rparr>)) =
    Inl (RuntimeError ''Access list is not empty'')"
  by (rule TxBlock_55_bytes_of_data_refused) (simp_all add: demo_tx_def tx_wire_def)

end
