(* ===== verification/Merkle.thy ===== *)
theory Merkle
  imports Strings "HOL-Library.Multiset"
begin

text \<open>
  Merkle trees (\<^verbatim>\<open>utils/merkle.h\<close>, \<^verbatim>\<open>utils/merkle.cpp\<close>): the layers from the leaves to the root, the root, the proof
  of a leaf and its verification. A tree is the list of its layers, leaves first.
\<close>

section \<open>Definitions\<close>

definition merkle_pair :: "crypto \<Rightarrow> Hash \<Rightarrow> Hash \<Rightarrow> Hash" where
  "merkle_pair cr a b = sha3 cr (fb_min a b @ fb_max a b)"

fun newLayer :: "crypto \<Rightarrow> Hash list \<Rightarrow> Hash list" where
  "newLayer cr [] = []"
| "newLayer cr [a] = [a]"
| "newLayer cr (a # b # r) = merkle_pair cr a b # newLayer cr r"

lemma length_newLayer: "length (newLayer cr l) = (length l + 1) div 2"
  by (induction cr l rule: newLayer.induct) simp_all

text \<open>The loop of the constructors: layers are added until the last one has at most one hash.\<close>

function merkle_layers :: "crypto \<Rightarrow> Hash list \<Rightarrow> Hash list list" where
  "merkle_layers cr l = (if length l > 1 then l # merkle_layers cr (newLayer cr l) else [l])"
  by pat_completeness auto
termination by (relation "measure (length \<circ> snd)") (auto simp: length_newLayer)

declare merkle_layers.simps [simp del]

definition Merkle_new :: "crypto \<Rightarrow> Hash list \<Rightarrow> Hash list list" where
  "Merkle_new cr leaves = merkle_layers cr (map (sha3 cr) leaves)"

definition getRoot :: "Hash list list \<Rightarrow> Hash" where
  "getRoot tree = (case last tree of [] \<Rightarrow> replicate 32 0 | h # _ \<Rightarrow> h)"

definition getLeaves :: "Hash list list \<Rightarrow> Hash list" where
  "getLeaves tree = hd tree"

fun getProof_loop :: "Hash list list \<Rightarrow> uint64 \<Rightarrow> Hash list res" where
  "getProof_loop [] pos = Inr []"
| "getProof_loop (layer # layers) pos =
     (if length layer = 1 then Inr []
      else let pos = (if pos mod 2 = 0 then pos + 1 else pos - 1) in
        bindR (at_idx layer (unat pos)) (\<lambda>h.
        bindR (getProof_loop layers (pos div 2)) (\<lambda>ret. Inr (h # ret))))"

definition getProof :: "Hash list list \<Rightarrow> uint64 \<Rightarrow> Hash list res" where
  "getProof tree leafIndex =
     (if leafIndex > of_nat (length (hd tree)) - 1 then Inr [] else getProof_loop tree leafIndex)"

definition Merkle_verify :: "crypto \<Rightarrow> Hash list \<Rightarrow> Hash \<Rightarrow> Hash \<Rightarrow> bool" where
  "Merkle_verify cr proof leaf root \<longleftrightarrow> foldl (merkle_pair cr) leaf proof = root"

section \<open>Specification\<close>

text \<open>Whether the node of index \<open>i\<close> of a layer of \<open>n\<close> nodes, and each of its ancestors below the root, has a sibling.\<close>

function paired :: "nat \<Rightarrow> nat \<Rightarrow> bool" where
  "paired n i = (if n \<le> 1 then True else (even i \<longrightarrow> i + 1 < n) \<and> paired ((n + 1) div 2) (i div 2))"
  by pat_completeness auto
termination by (relation "measure fst") auto

declare paired.simps [simp del]

text \<open>The strings hashed to build a tree.\<close>

fun layer_inputs :: "Hash list \<Rightarrow> bytes set" where
  "layer_inputs (a # b # r) = insert (fb_min a b @ fb_max a b) (layer_inputs r)"
| "layer_inputs _ = {}"

definition merkle_inputs :: "crypto \<Rightarrow> Hash list \<Rightarrow> bytes set" where
  "merkle_inputs cr leaves = set leaves \<union> \<Union> (layer_inputs ` set (Merkle_new cr leaves))"

section \<open>Lemmas\<close>

lemma merkle_pair_commute: "length a = length b \<Longrightarrow> merkle_pair cr a b = merkle_pair cr b a"
  by (simp add: merkle_pair_def fb_sort_commute)

lemma newLayer_nth:
  "k < (length l + 1) div 2 \<Longrightarrow>
   newLayer cr l ! k = (if 2 * k + 1 < length l then merkle_pair cr (l ! (2 * k)) (l ! (2 * k + 1)) else l ! (2 * k))"
proof (induction cr l arbitrary: k rule: newLayer.induct)
  case (3 cr a b r)
  then show ?case by (cases k) auto
qed auto

lemma newLayer_lengths:
  assumes "\<And>x. length (sha3 cr x) = 32" "\<forall>h\<in>set l. length h = 32"
  shows "\<forall>h\<in>set (newLayer cr l). length h = 32"
  using assms by (induction cr l rule: newLayer.induct) (auto simp: merkle_pair_def)

lemma merkle_layers_ne [simp]: "merkle_layers cr l \<noteq> []"
  by (subst merkle_layers.simps) simp

lemma hd_merkle_layers [simp]: "hd (merkle_layers cr l) = l"
  by (subst merkle_layers.simps) simp

lemma merkle_layers_step: "1 < length l \<Longrightarrow> merkle_layers cr l = l # merkle_layers cr (newLayer cr l)"
  by (subst merkle_layers.simps) simp

lemma merkle_layers_stop: "length l \<le> 1 \<Longrightarrow> merkle_layers cr l = [l]"
  by (subst merkle_layers.simps) simp

lemma getRoot_Cons [simp]: "getRoot (l # merkle_layers cr l') = getRoot (merkle_layers cr l')"
  by (simp add: getRoot_def)

lemma getRoot_step: "1 < length l \<Longrightarrow> getRoot (merkle_layers cr l) = getRoot (merkle_layers cr (newLayer cr l))"
  by (simp add: merkle_layers_step getRoot_def)

lemma length_getRoot_layers:
  "(\<And>x. length (sha3 cr x) = 32) \<Longrightarrow> \<forall>h\<in>set l. length h = 32 \<Longrightarrow> length (getRoot (merkle_layers cr l)) = 32"
proof (induction cr l rule: merkle_layers.induct)
  case (1 cr l)
  show ?case
  proof (cases "1 < length l")
    case True
    then show ?thesis using 1(1) [OF True 1(2) newLayer_lengths [OF 1(2,3)]] by (simp add: getRoot_step)
  next
    case False
    then show ?thesis using 1(3) by (simp add: merkle_layers_stop getRoot_def split: list.split)
  qed
qed

lemma length_getRoot: "(\<And>x. length (sha3 cr x) = 32) \<Longrightarrow> length (getRoot (Merkle_new cr leaves)) = 32"
  by (simp add: Merkle_new_def length_getRoot_layers)

text \<open>Word arithmetic of the position.\<close>

lemma sibling_word:
  assumes "i < 2 ^ 63"
  defines "p \<equiv> (of_nat i :: uint64)"
  shows "(if p mod 2 = 0 then p + 1 else p - 1) = of_nat (if even i then i + 1 else i - 1)"
    "unat (of_nat (if even i then i + 1 else i - 1) :: uint64) = (if even i then i + 1 else i - 1)"
    "(of_nat (if even i then i + 1 else i - 1) :: uint64) div 2 = of_nat (i div 2)"
proof -
  have p: "unat p = i" using assms by (simp add: unat_of_nat_eq)
  have par: "p mod 2 = 0 \<longleftrightarrow> even i"
    using p by (simp add: word_unat_eq_iff unat_mod even_iff_mod_2_eq_zero)
  show "(if p mod 2 = 0 then p + 1 else p - 1) = of_nat (if even i then i + 1 else i - 1)"
    using par by (auto simp: p_def elim!: oddE)
  show u: "unat (of_nat (if even i then i + 1 else i - 1) :: uint64) = (if even i then i + 1 else i - 1)"
    using assms by (intro unat_of_nat_eq) auto
  have "unat (of_nat (i div 2) :: uint64) = i div 2" using assms by (intro unat_of_nat_eq) auto
  then show "(of_nat (if even i then i + 1 else i - 1) :: uint64) div 2 = of_nat (i div 2)"
    by (subst word_unat_eq_iff, subst unat_div, subst u) (auto elim!: oddE)
qed

lemma getProof_loop_step:
  assumes "1 < length l" "i < 2 ^ 63"
  shows "getProof_loop (merkle_layers cr l) (of_nat i) =
    bindR (at_idx l (if even i then i + 1 else i - 1)) (\<lambda>h.
    bindR (getProof_loop (merkle_layers cr (newLayer cr l)) (of_nat (i div 2))) (\<lambda>ret. Inr (h # ret)))"
  using assms(1) sibling_word [OF assms(2)] by (simp add: merkle_layers_step Let_def)

subsection \<open>Proofs of leaves\<close>

lemma paired_step: "1 < n \<Longrightarrow> paired n i \<longleftrightarrow> (even i \<longrightarrow> i + 1 < n) \<and> paired ((n + 1) div 2) (i div 2)"
  by (subst paired.simps) simp

lemma paired_power: "i < 2 ^ k \<Longrightarrow> paired (2 ^ k) i"
proof (induction k arbitrary: i)
  case 0
  then show ?case by (subst paired.simps) simp
next
  case (Suc k)
  have one: "1 < (2 ^ Suc k :: nat)" by (rule one_less_power) simp_all
  have "even i \<longrightarrow> i + 1 < 2 ^ Suc k" using Suc.prems by (auto elim!: evenE)
  moreover have "(2 ^ Suc k + 1) div 2 = (2 ^ k :: nat)" by simp
  ultimately show ?case using Suc by (subst paired_step [OF one]) auto
qed

lemma newLayer_parent:
  assumes "\<forall>h\<in>set l. length h = 32" "i < length l" "even i \<longrightarrow> i + 1 < length l"
  shows "newLayer cr l ! (i div 2) = merkle_pair cr (l ! i) (l ! (if even i then i + 1 else i - 1))"
proof (cases "even i")
  case True
  then show ?thesis using assms by (auto simp: newLayer_nth elim!: evenE)
next
  case False
  then obtain j where j: "i = 2 * j + 1" by (auto elim!: oddE)
  then have "newLayer cr l ! (i div 2) = merkle_pair cr (l ! (2 * j)) (l ! i)" using assms by (auto simp: newLayer_nth)
  also have "\<dots> = merkle_pair cr (l ! i) (l ! (2 * j))"
    by (rule merkle_pair_commute) (use assms(1,2) j in auto)
  finally show ?thesis using j by simp
qed

lemma getProof_loop_correct:
  assumes "\<And>x. length (sha3 cr x) = 32" "\<forall>h\<in>set l. length h = 32" "i < length l" "length l < 2 ^ 63"
  shows "case getProof_loop (merkle_layers cr l) (of_nat i) of
      Inl e \<Rightarrow> e = UndefinedBehaviour \<and> \<not> paired (length l) i
    | Inr p \<Rightarrow> paired (length l) i \<and> length p + 1 = length (merkle_layers cr l) \<and>
        Merkle_verify cr p (l ! i) (getRoot (merkle_layers cr l))"
  using assms
proof (induction cr l arbitrary: i rule: merkle_layers.induct)
  case (1 cr l)
  show ?case
  proof (cases "1 < length l")
    case False
    then obtain h where "l = [h]" using 1(4) by (cases l) auto
    then show ?thesis
      using 1(4) by (simp add: merkle_layers_stop paired.simps Merkle_verify_def getRoot_def)
  next
    case True
    let ?l = "newLayer cr l" and ?j = "if even i then i + 1 else i - 1"
    note IH = 1(1) [OF True 1(2) newLayer_lengths [OF 1(2,3)], of "i div 2"]
    have IH: "case getProof_loop (merkle_layers cr ?l) (of_nat (i div 2)) of
        Inl e \<Rightarrow> e = UndefinedBehaviour \<and> \<not> paired (length ?l) (i div 2)
      | Inr p \<Rightarrow> paired (length ?l) (i div 2) \<and> length p + 1 = length (merkle_layers cr ?l) \<and>
          Merkle_verify cr p (?l ! (i div 2)) (getRoot (merkle_layers cr ?l))"
      using IH 1(4,5) by (simp add: length_newLayer)
    have i: "i < 2 ^ 63" using 1(4,5) by simp
    show ?thesis
    proof (cases "?j < length l")
      case False
      then have "\<not> (even i \<longrightarrow> i + 1 < length l)" using 1(4) by (auto split: if_splits)
      then show ?thesis
        using False by (simp add: getProof_loop_step [OF True i] paired_step [OF True] at_idx_def)
    next
      case j: True
      then have e: "even i \<longrightarrow> i + 1 < length l" by auto
      have gp: "getProof_loop (merkle_layers cr l) (of_nat i) =
          bindR (getProof_loop (merkle_layers cr ?l) (of_nat (i div 2))) (\<lambda>ret. Inr (l ! ?j # ret))"
        using j by (simp only: getProof_loop_step [OF True i] at_idx_def if_True bindR_Inr)
      have pr: "paired (length l) i \<longleftrightarrow> paired (length ?l) (i div 2)"
        using e by (simp add: paired_step [OF True] length_newLayer)
      have len: "length (merkle_layers cr l) = Suc (length (merkle_layers cr ?l))"
        by (simp add: merkle_layers_step [OF True])
      have vf: "Merkle_verify cr (l ! ?j # p) (l ! i) root \<longleftrightarrow> Merkle_verify cr p (?l ! (i div 2)) root" for p root
        using newLayer_parent [OF 1(3,4) e, of cr] by (simp add: Merkle_verify_def)
      show ?thesis
        using IH unfolding gp pr len getRoot_step [OF True]
        by (cases "getProof_loop (merkle_layers cr ?l) (of_nat (i div 2))") (simp_all add: vf del: if_split)
    qed
  qed
qed

subsection \<open>Trees behind the layers\<close>

datatype mtree = MLeaf bytes | MNode mtree mtree

fun tree_hash :: "crypto \<Rightarrow> mtree \<Rightarrow> Hash" where
  "tree_hash cr (MLeaf x) = sha3 cr x"
| "tree_hash cr (MNode t u) = merkle_pair cr (tree_hash cr t) (tree_hash cr u)"

fun tree_leaves :: "mtree \<Rightarrow> bytes multiset" where
  "tree_leaves (MLeaf x) = {#x#}"
| "tree_leaves (MNode t u) = tree_leaves t + tree_leaves u"

fun tree_inputs :: "crypto \<Rightarrow> mtree \<Rightarrow> bytes set" where
  "tree_inputs cr (MLeaf x) = {x}"
| "tree_inputs cr (MNode t u) =
     insert (fb_min (tree_hash cr t) (tree_hash cr u) @ fb_max (tree_hash cr t) (tree_hash cr u))
       (tree_inputs cr t \<union> tree_inputs cr u)"

fun tree_layer :: "mtree list \<Rightarrow> mtree list" where
  "tree_layer [] = []"
| "tree_layer [a] = [a]"
| "tree_layer (a # b # r) = MNode a b # tree_layer r"

lemma tree_layer_props:
  "map (tree_hash cr) (tree_layer ts) = newLayer cr (map (tree_hash cr) ts)"
  "sum_list (map tree_leaves (tree_layer ts)) = sum_list (map tree_leaves ts)"
  "\<Union> (tree_inputs cr ` set (tree_layer ts)) = \<Union> (tree_inputs cr ` set ts) \<union> layer_inputs (map (tree_hash cr) ts)"
  by (induction ts rule: tree_layer.induct) auto

lemma tree_of_layers:
  "ts \<noteq> [] \<Longrightarrow> \<exists>t. getRoot (merkle_layers cr (map (tree_hash cr) ts)) = tree_hash cr t \<and>
     tree_leaves t = sum_list (map tree_leaves ts) \<and>
     tree_inputs cr t =
       \<Union> (tree_inputs cr ` set ts) \<union> \<Union> (layer_inputs ` set (merkle_layers cr (map (tree_hash cr) ts)))"
proof (induction "length ts" arbitrary: ts rule: less_induct)
  case less
  show ?case
  proof (cases "1 < length ts")
    case False
    then obtain t where "ts = [t]" using less.prems by (cases ts) auto
    then show ?thesis by (intro exI [of _ t]) (simp add: merkle_layers_stop getRoot_def)
  next
    case True
    have len: "length (tree_layer ts) = (length ts + 1) div 2"
      using arg_cong [OF tree_layer_props(1) [of cr ts], of length] by (simp add: length_newLayer)
    then have "tree_layer ts \<noteq> []" "length (tree_layer ts) < length ts" using True by auto
    then show ?thesis
      using less.hyps [of "tree_layer ts"] True
      by (auto simp: getRoot_step merkle_layers_step tree_layer_props Un_assoc)
  qed
qed

subsection \<open>Binding\<close>

lemma fb_sort_inj:
  assumes "fb_min a b @ fb_max a b = fb_min c d @ fb_max c d"
    "length a = 32" "length b = 32" "length c = 32" "length d = 32"
  shows "(a = c \<and> b = d) \<or> (a = d \<and> b = c)"
proof -
  have *: "(fb_min x y = x \<and> fb_max x y = y) \<or> (fb_min x y = y \<and> fb_max x y = x)" if "length x = length y" for x y
    using addr_less_total [OF that] addr_less_antisym by (auto simp: fb_min_def fb_max_def)
  show ?thesis using *[of a b] *[of c d] assms by auto
qed

lemma length_tree_hash: "(\<And>x. length (sha3 cr x) = 32) \<Longrightarrow> length (tree_hash cr t) = 32"
  by (cases t) (simp_all add: merkle_pair_def)

lemma length_sorted_pair: "length a = 32 \<Longrightarrow> length b = 32 \<Longrightarrow> length (fb_min a b @ fb_max a b) = 64"
  by (simp add: fb_min_def fb_max_def)

lemma tree_binding:
  assumes len: "\<And>x. length (sha3 cr x) = 32"
  shows "inj_on (sha3 cr) (tree_inputs cr t \<union> tree_inputs cr u) \<Longrightarrow> tree_hash cr t = tree_hash cr u \<Longrightarrow>
    (\<forall>x\<in>#tree_leaves t + tree_leaves u. length x = 32) \<Longrightarrow> tree_leaves t = tree_leaves u"
proof (induction t arbitrary: u)
  case (MLeaf x)
  show ?case
  proof (cases u)
    case (MLeaf y)
    then have "x = y" using inj_onD [OF MLeaf.prems(1), of x y] MLeaf.prems(2) by simp
    then show ?thesis using MLeaf by simp
  next
    case (MNode u1 u2)
    let ?p = "fb_min (tree_hash cr u1) (tree_hash cr u2) @ fb_max (tree_hash cr u1) (tree_hash cr u2)"
    have "x = ?p" using inj_onD [OF MLeaf.prems(1), of x ?p] MLeaf.prems(2) MNode by (simp add: merkle_pair_def)
    moreover have "length x = 32" using MLeaf.prems(3) by simp
    ultimately show ?thesis using length_sorted_pair [OF length_tree_hash [OF len] length_tree_hash [OF len], of u1 u2] by simp
  qed
next
  case (MNode t1 t2)
  show ?case
  proof (cases u)
    case (MLeaf y)
    let ?p = "fb_min (tree_hash cr t1) (tree_hash cr t2) @ fb_max (tree_hash cr t1) (tree_hash cr t2)"
    have "?p = y" using inj_onD [OF MNode.prems(1), of ?p y] MNode.prems(2) MLeaf by (simp add: merkle_pair_def)
    moreover have "length y = 32" using MNode.prems(3) MLeaf by simp
    ultimately show ?thesis using length_sorted_pair [OF length_tree_hash [OF len] length_tree_hash [OF len], of t1 t2] by simp
  next
    case u: (MNode u1 u2)
    have "fb_min (tree_hash cr t1) (tree_hash cr t2) @ fb_max (tree_hash cr t1) (tree_hash cr t2) =
        fb_min (tree_hash cr u1) (tree_hash cr u2) @ fb_max (tree_hash cr u1) (tree_hash cr u2)"
      by (rule inj_onD [OF MNode.prems(1)]) (use MNode.prems(2) u in \<open>simp_all add: merkle_pair_def\<close>)
    from fb_sort_inj [OF this] have "(tree_hash cr t1 = tree_hash cr u1 \<and> tree_hash cr t2 = tree_hash cr u2) \<or>
        (tree_hash cr t1 = tree_hash cr u2 \<and> tree_hash cr t2 = tree_hash cr u1)"
      by (simp add: length_tree_hash [OF len])
    moreover have t1: "tree_hash cr t1 = tree_hash cr w \<Longrightarrow> tree_leaves t1 = tree_leaves w" if "w \<in> {u1, u2}" for w
      by (rule MNode.IH(1)) (use that u MNode.prems(3) in \<open>auto intro: inj_on_subset [OF MNode.prems(1)]\<close>)
    moreover have t2: "tree_hash cr t2 = tree_hash cr w \<Longrightarrow> tree_leaves t2 = tree_leaves w" if "w \<in> {u1, u2}" for w
      by (rule MNode.IH(2)) (use that u MNode.prems(3) in \<open>auto intro: inj_on_subset [OF MNode.prems(1)]\<close>)
    ultimately have "(tree_leaves t1 = tree_leaves u1 \<and> tree_leaves t2 = tree_leaves u2) \<or>
        (tree_leaves t1 = tree_leaves u2 \<and> tree_leaves t2 = tree_leaves u1)"
      by blast
    then show ?thesis using u by auto
  qed
qed

lemma root_binding:
  assumes "\<And>x. length (sha3 cr x) = 32" "leaves \<noteq> []" "leaves' \<noteq> []"
    and "\<forall>x\<in>set leaves \<union> set leaves'. length x = 32"
    and "inj_on (sha3 cr) (merkle_inputs cr leaves \<union> merkle_inputs cr leaves')"
    and "getRoot (Merkle_new cr leaves) = getRoot (Merkle_new cr leaves')"
  shows "mset leaves = mset leaves'"
proof -
  have *: "\<exists>t. getRoot (Merkle_new cr l) = tree_hash cr t \<and> tree_leaves t = mset l \<and> tree_inputs cr t = merkle_inputs cr l"
    if "l \<noteq> []" for l
  proof -
    have "sum_list (map (\<lambda>x. {#x#}) l) = mset l" by (induction l) auto
    then show ?thesis
      using tree_of_layers [of "map MLeaf l" cr] that by (simp add: comp_def Merkle_new_def merkle_inputs_def)
  qed
  obtain t where t: "getRoot (Merkle_new cr leaves) = tree_hash cr t" "tree_leaves t = mset leaves"
    "tree_inputs cr t = merkle_inputs cr leaves" using *[OF assms(2)] by blast
  obtain u where u: "getRoot (Merkle_new cr leaves') = tree_hash cr u" "tree_leaves u = mset leaves'"
    "tree_inputs cr u = merkle_inputs cr leaves'" using *[OF assms(3)] by blast
  have "tree_leaves t = tree_leaves u"
    by (rule tree_binding [OF assms(1)]) (use assms(4-6) t u in auto)
  then show ?thesis using t(2) u(2) by simp
qed

section \<open>Properties\<close>

lemma length_merkle_layers_power: "length l = 2 ^ k \<Longrightarrow> length (merkle_layers cr l) = k + 1"
proof (induction k arbitrary: l)
  case 0
  then show ?case by (simp add: merkle_layers_stop)
next
  case (Suc k)
  have "1 < length l" unfolding Suc.prems by (rule one_less_power) simp_all
  moreover have "length (newLayer cr l) = 2 ^ k" using Suc.prems by (simp add: length_newLayer)
  ultimately show ?case using Suc.IH by (simp add: merkle_layers_step)
qed

lemma getProof_inside:
  assumes "i < length leaves" "length leaves < 2 ^ 63"
  shows "getProof (Merkle_new cr leaves) (of_nat i) = getProof_loop (Merkle_new cr leaves) (of_nat i)"
proof -
  have u: "unat (of_nat i :: uint64) = i" "unat (of_nat (length leaves) :: uint64) = length leaves"
    using assms by (auto intro!: unat_of_nat_eq)
  have "(1::uint64) \<le> of_nat (length leaves)" using u(2) assms(1) by (simp add: word_le_nat_alt)
  then have "unat (of_nat (length leaves) - 1 :: uint64) = length leaves - 1" using u(2) unat_sub_no_wrap by fastforce
  then have "\<not> (of_nat (length leaves) - 1 :: uint64) < of_nat i" using u(1) assms(1) by (simp add: word_less_nat_alt)
  then show ?thesis by (simp add: getProof_def Merkle_new_def)
qed

text \<open>
  C34. Merkle proofs are correct: for a hash function with 32-byte results and an index of a leaf, \<open>getProof\<close> either
  returns a proof that \<open>verify\<close> accepts for that leaf and the root, or reads outside a layer, and the latter happens
  exactly when the leaf or one of its ancestors has no sibling. A tree of \<open>2 ^ k\<close> leaves has a proof of \<open>k\<close> hashes for
  every leaf.
\<close>

theorem getProof_correct:
  assumes len: "\<And>x. length (sha3 cr x) = 32" and i: "i < length leaves" and n: "length leaves < 2 ^ 63"
  defines "tree \<equiv> Merkle_new cr leaves"
  shows "(case getProof tree (of_nat i) of
      Inl e \<Rightarrow> e = UndefinedBehaviour \<and> \<not> paired (length leaves) i
    | Inr p \<Rightarrow> paired (length leaves) i \<and> Merkle_verify cr p (getLeaves tree ! i) (getRoot tree)) \<and>
    (\<forall>k. length leaves = 2 ^ k \<longrightarrow>
      (\<exists>p. getProof tree (of_nat i) = Inr p \<and> length p = k \<and> Merkle_verify cr p (getLeaves tree ! i) (getRoot tree)))"
proof -
  have main: "case getProof tree (of_nat i) of
      Inl e \<Rightarrow> e = UndefinedBehaviour \<and> \<not> paired (length leaves) i
    | Inr p \<Rightarrow> paired (length leaves) i \<and> length p + 1 = length tree \<and>
        Merkle_verify cr p (getLeaves tree ! i) (getRoot tree)"
    using getProof_loop_correct [OF len, of "map (sha3 cr) leaves" i] i n
    unfolding tree_def getProof_inside [OF i n]
    by (simp add: len Merkle_new_def getLeaves_def split: sum.splits)
  have "\<exists>p. getProof tree (of_nat i) = Inr p \<and> length p = k \<and> Merkle_verify cr p (getLeaves tree ! i) (getRoot tree)"
    if k: "length leaves = 2 ^ k" for k
  proof -
    have "paired (length leaves) i" "length tree = k + 1"
      using paired_power [of i k] length_merkle_layers_power [of _ k] i k by (simp_all add: tree_def Merkle_new_def)
    then show ?thesis using main by (cases "getProof tree (of_nat i)") auto
  qed
  then show ?thesis using main by (auto split: sum.splits)
qed

text \<open>
  C33. A Merkle root binds the leaves: if two non-empty lists of 32-byte leaves have the same root and the hash function
  has no collision among the strings hashed to build the two trees, the lists have the same leaves with the same
  multiplicities. Leaves and inner nodes cannot be confused, whatever the numbers of leaves.
\<close>

theorem getRoot_binding:
  assumes "\<And>x. length (sha3 cr x) = 32" "leaves \<noteq> []" "leaves' \<noteq> []"
    and "\<forall>x\<in>set leaves \<union> set leaves'. length x = 32"
    and "inj_on (sha3 cr) (merkle_inputs cr leaves \<union> merkle_inputs cr leaves')"
    and "getRoot (Merkle_new cr leaves) = getRoot (Merkle_new cr leaves')"
  shows "mset leaves = mset leaves'"
  using assms by (rule root_binding)

text \<open>The order of two siblings is not bound: swapping the first two leaves keeps the root.\<close>

lemma getRoot_sibling_order:
  assumes "\<And>x. length (sha3 cr x) = 32"
  shows "getRoot (Merkle_new cr (a # b # r)) = getRoot (Merkle_new cr (b # a # r))"
  using merkle_pair_commute [of "sha3 cr a" "sha3 cr b" cr] assms by (simp add: Merkle_new_def getRoot_step)

text \<open>With three leaves, the proof of the last one reads behind the end of the layer of leaves.\<close>

lemma getProof_odd_layer: "getProof (Merkle_new cr [a, b, c]) 2 = Inl UndefinedBehaviour"
  by (simp add: getProof_def Merkle_new_def merkle_layers_step at_idx_def)

section \<open>Witnesses\<close>

definition demo_hash :: crypto where
  "demo_hash = demo_crypto\<lparr>sha3 := \<lambda>x. if length x = 32 then x else replicate 32 9\<rparr>"

lemma demo_hash_length: "length (sha3 demo_hash x) = 32"
  by (simp add: demo_hash_def)

theorem getProof_correct_witness:
  "\<exists>p. getProof (Merkle_new demo_hash [replicate 32 1, replicate 32 2]) 1 = Inr p \<and> length p = 1 \<and>
     Merkle_verify demo_hash p (getLeaves (Merkle_new demo_hash [replicate 32 1, replicate 32 2]) ! 1)
       (getRoot (Merkle_new demo_hash [replicate 32 1, replicate 32 2]))"
  using getProof_correct [OF demo_hash_length, of 1 "[replicate 32 1, replicate 32 2]"] by (auto dest: spec [of _ 1])

theorem getRoot_binding_witness:
  "mset [replicate 32 1, replicate 32 (2::byte)] = mset [replicate 32 2, replicate 32 (1::byte)]"
proof (rule getRoot_binding [of demo_hash])
  let ?a = "replicate 32 1 :: Hash" and ?b = "replicate 32 2 :: Hash"
  have l: "addr_less ?a ?b" by code_simp
  then have "\<not> addr_less ?b ?a" by (rule addr_less_antisym)
  then have s: "fb_min ?a ?b = ?a" "fb_max ?a ?b = ?b" "fb_min ?b ?a = ?a" "fb_max ?b ?a = ?b"
    using l by (simp_all add: fb_min_def fb_max_def)
  have h: "sha3 demo_hash ?a = ?a" "sha3 demo_hash ?b = ?b" by (simp_all add: demo_hash_def)
  have "merkle_inputs demo_hash [?a, ?b] = {?a, ?b, ?a @ ?b}" "merkle_inputs demo_hash [?b, ?a] = {?a, ?b, ?a @ ?b}"
    by (auto simp: merkle_inputs_def Merkle_new_def merkle_layers_step merkle_layers_stop h s)
  moreover have "inj_on (sha3 demo_hash) {?a, ?b, ?a @ ?b}"
    by (auto simp: inj_on_def demo_hash_def replicate_eq_replicate)
  ultimately show "inj_on (sha3 demo_hash) (merkle_inputs demo_hash [?a, ?b] \<union> merkle_inputs demo_hash [?b, ?a])" by simp
  show "getRoot (Merkle_new demo_hash [?a, ?b]) = getRoot (Merkle_new demo_hash [?b, ?a])"
    by (rule getRoot_sibling_order [OF demo_hash_length])
qed (simp_all add: demo_hash_length)

end
