(* ===== verification/Block.thy ===== *)
theory Block
  imports Tx Merkle
begin

text \<open>
  Blocks (\<^verbatim>\<open>utils/block.h\<close>, \<^verbatim>\<open>utils/block.cpp\<close>) and the two static functions of rdPoS they use: the kind of a
  validator transaction and the seed that a list of validator transactions gives.
  Offsets into the serialized block are natural numbers: the sizes read from it are 32-bit numbers, so the 64-bit offsets
  do not wrap while they are inside a buffer.
\<close>

section \<open>Validator transactions and the seed\<close>

datatype TxValidatorFunction = INVALID | RANDOMHASH | RANDOMSEED

definition TxValidator_getFunctor :: "tx_validator \<Rightarrow> bytes res" where
  "TxValidator_getFunctor t = subspan (tv_data t) 0 4"

definition getTxValidatorFunction :: "tx_validator \<Rightarrow> TxValidatorFunction" where
  "getTxValidatorFunction t =
     (if length (tv_data t) \<noteq> 36 then INVALID
      else case TxValidator_getFunctor t of
        Inl _ \<Rightarrow> INVALID
      | Inr f \<Rightarrow> if f = [0xcf, 0xff, 0xe7, 0x46] then RANDOMHASH
                 else if f = [0x6f, 0xc5, 0xa2, 0xd6] then RANDOMSEED else INVALID)"

definition parseTxSeedList :: "crypto \<Rightarrow> tx_validator list \<Rightarrow> Hash" where
  "parseTxSeedList cr txs =
     (if txs = [] then replicate 32 0
      else sha3 cr (foldl (\<lambda>seed t. if getTxValidatorFunction t = RANDOMSEED then seed @ drop 4 (tv_data t) else seed) [] txs))"

section \<open>The block\<close>

record block =
  b_validatorSig :: Signature
  b_prevBlockHash :: Hash
  b_blockRandomness :: Hash
  b_validatorMerkleRoot :: Hash
  b_txMerkleRoot :: Hash
  b_timestamp :: uint64
  b_nHeight :: uint64
  b_txValidators :: "tx_validator list"
  b_txs :: "tx_block list"
  b_validatorPubKey :: UPubKey
  b_finalized :: bool

definition Block_new :: "Hash \<Rightarrow> uint64 \<Rightarrow> uint64 \<Rightarrow> block" where
  "Block_new prevBlockHash timestamp nHeight =
     \<lparr>b_validatorSig = replicate 65 0, b_prevBlockHash = prevBlockHash, b_blockRandomness = replicate 32 0,
      b_validatorMerkleRoot = replicate 32 0, b_txMerkleRoot = replicate 32 0, b_timestamp = timestamp,
      b_nHeight = nHeight, b_txValidators = [], b_txs = [], b_validatorPubKey = no_UPubKey, b_finalized = False\<rparr>"

definition serializeHeader :: "block \<Rightarrow> bytes" where
  "serializeHeader b =
     b_prevBlockHash b @ b_blockRandomness b @ b_validatorMerkleRoot b @ b_txMerkleRoot b @
     uint64ToBytes (b_timestamp b) @ uint64ToBytes (b_nHeight b)"

definition put_sized :: "bytes \<Rightarrow> bytes" where
  "put_sized tx = uint32ToBytes (of_nat (length tx)) @ tx"

definition serializeBlock :: "block \<Rightarrow> bytes" where
  "serializeBlock b =
     (let ret = b_validatorSig b @ serializeHeader b;
          txValidatorStartLoc = length ret;
          ret = ret @ replicate 8 0;
          ret = foldl (\<lambda>ret t. ret @ put_sized (TxBlock_rlpSerialize True t)) ret (b_txs b);
          txValidatorStart = uint64ToBytes (of_nat (length ret));
          ret = take txValidatorStartLoc ret @ txValidatorStart @ drop (txValidatorStartLoc + 8) ret
      in foldl (\<lambda>ret t. ret @ put_sized (TxValidator_rlpSerialize True t)) ret (b_txValidators b))"

definition Block_hash :: "crypto \<Rightarrow> block \<Rightarrow> Hash" where
  "Block_hash cr b = sha3 cr (serializeHeader b)"

definition tx_root :: "crypto \<Rightarrow> tx_block list \<Rightarrow> Hash" where
  "tx_root cr txs = getRoot (Merkle_new cr (map (TxBlock_hash cr True) txs))"

definition validator_root :: "crypto \<Rightarrow> tx_validator list \<Rightarrow> Hash" where
  "validator_root cr txs = getRoot (Merkle_new cr (map (TxValidator_hash cr True) txs))"

subsection \<open>Building a block\<close>

definition appendTx :: "tx_block \<Rightarrow> block \<Rightarrow> block \<times> bool" where
  "appendTx t b = (if b_finalized b then (b, False) else (b\<lparr>b_txs := b_txs b @ [t]\<rparr>, True))"

definition appendTxValidator :: "tx_validator \<Rightarrow> block \<Rightarrow> block \<times> bool" where
  "appendTxValidator t b =
     (if b_finalized b then (b, False) else (b\<lparr>b_txValidators := b_txValidators b @ [t]\<rparr>, True))"

definition finalize :: "crypto \<Rightarrow> PrivKey \<Rightarrow> uint64 \<Rightarrow> (block, bool) sres" where
  "finalize cr validatorPrivKey newTimestamp b =
     (if b_finalized b then (b, Inr False)
      else if b_timestamp b > newTimestamp then (b, Inr False)
      else let b = b\<lparr>b_timestamp := newTimestamp, b_txMerkleRoot := tx_root cr (b_txs b),
                      b_validatorMerkleRoot := validator_root cr (b_txValidators b),
                      b_blockRandomness := parseTxSeedList cr (b_txValidators b)\<rparr>
        in case sign cr (Block_hash cr b) validatorPrivKey of
             Inl e \<Rightarrow> (b, Inl e)
           | Inr sig \<Rightarrow> (b\<lparr>b_validatorSig := sig, b_validatorPubKey := recover cr sig (Block_hash cr b),
                             b_finalized := True\<rparr>, Inr True))"

subsection \<open>Parsing a block\<close>

definition Block_header :: "bytes \<Rightarrow> (block \<times> nat) res" where
  "Block_header bs =
     (if length bs < 217 then Inl (RuntimeError ''Invalid block size - too short'')
      else
        bindR (subspan bs 0 65) (\<lambda>sig.
        bindR (subspan bs 65 32) (\<lambda>prev.
        bindR (subspan bs 97 32) (\<lambda>rnd.
        bindR (subspan bs 129 32) (\<lambda>valRoot.
        bindR (subspan bs 161 32) (\<lambda>txRoot.
        bindR (bindR (subspan bs 193 8) bytesToUint64) (\<lambda>timestamp.
        bindR (bindR (subspan bs 201 8) bytesToUint64) (\<lambda>nHeight.
        bindR (bindR (subspan bs 209 8) bytesToUint64) (\<lambda>txValidatorStart.
        Inr (\<lparr>b_validatorSig = sig, b_prevBlockHash = prev, b_blockRandomness = rnd, b_validatorMerkleRoot = valRoot,
              b_txMerkleRoot = txRoot, b_timestamp = timestamp, b_nHeight = nHeight, b_txValidators = [], b_txs = [],
              b_validatorPubKey = no_UPubKey, b_finalized = False\<rparr>, unat txValidatorStart))))))))))"

definition read_size :: "bytes \<Rightarrow> nat \<Rightarrow> nat res" where
  "read_size bs index = bindR (bindR (subspan bs index 4) bytesToUint32) (\<lambda>n. Inr (unat n))"

text \<open>The counting loops: from \<open>index\<close> as long as it is below \<open>stop\<close>.\<close>

function count_txs :: "bytes \<Rightarrow> nat \<Rightarrow> nat \<Rightarrow> nat res" where
  "count_txs bs stop index =
     (if index < stop then
        bindR (read_size bs index) (\<lambda>txSize. bindR (count_txs bs stop (index + (txSize + 4))) (\<lambda>n. Inr (n + 1)))
      else Inr 0)"
  by pat_completeness auto
termination by (relation "measure (\<lambda>(bs, stop, index). length bs - index)") (auto simp: read_size_def res_simps)

declare count_txs.simps [simp del]

text \<open>The sequential loop, which is also the body of each asynchronous task.\<close>

fun parse_txs :: "crypto \<Rightarrow> bytes \<Rightarrow> nat \<Rightarrow> nat \<Rightarrow> tx_block list res" where
  "parse_txs cr bs index 0 = Inr []"
| "parse_txs cr bs index (Suc n) =
     bindR (read_size bs index) (\<lambda>txSize.
     bindR (bindR (subspan bs (index + 4) txSize) (TxBlock_parse cr)) (\<lambda>t.
     bindR (parse_txs cr bs (index + 4 + txSize) n) (\<lambda>ts. Inr (t # ts))))"

fun skip_txs :: "bytes \<Rightarrow> nat \<Rightarrow> nat \<Rightarrow> nat res" where
  "skip_txs bs off 0 = Inr off"
| "skip_txs bs off (Suc n) = bindR (read_size bs off) (\<lambda>len. skip_txs bs (off + (len + 4)) n)"

definition txsPerThr :: "nat \<Rightarrow> nat \<Rightarrow> nat list" where
  "txsPerThr thrNum txCount =
     (let v = replicate thrNum (txCount div thrNum) in v[thrNum - 1 := last v + txCount mod thrNum])"

text \<open>
  The tasks, with their start offsets; the offset behind the last one is not computed. A task that leaves its buffer is
  undefined even if an earlier task throws; otherwise the first exception in the order of the tasks is the result.
\<close>

fun thread_tasks :: "crypto \<Rightarrow> bytes \<Rightarrow> nat \<Rightarrow> nat list \<Rightarrow> tx_block list res list res" where
  "thread_tasks cr bs thrOff [] = Inr []"
| "thread_tasks cr bs thrOff [nTxs] = Inr [parse_txs cr bs thrOff nTxs]"
| "thread_tasks cr bs thrOff (nTxs # ns) =
     bindR (skip_txs bs thrOff nTxs) (\<lambda>off.
     bindR (thread_tasks cr bs off ns) (\<lambda>fs. Inr (parse_txs cr bs thrOff nTxs # fs)))"

fun join_tasks :: "'a list res list \<Rightarrow> 'a list res" where
  "join_tasks [] = Inr []"
| "join_tasks (f # fs) = bindR f (\<lambda>xs. bindR (join_tasks fs) (\<lambda>ys. Inr (xs @ ys)))"

definition parse_txs_threads :: "crypto \<Rightarrow> nat \<Rightarrow> bytes \<Rightarrow> nat \<Rightarrow> nat \<Rightarrow> tx_block list res" where
  "parse_txs_threads cr thrNum bs index txCount =
     bindR (thread_tasks cr bs index (txsPerThr thrNum txCount)) (\<lambda>fs.
     if Inl UndefinedBehaviour \<in> set fs then Inl UndefinedBehaviour else join_tasks fs)"

definition Block_txs :: "crypto \<Rightarrow> nat \<Rightarrow> bytes \<Rightarrow> nat \<Rightarrow> tx_block list res" where
  "Block_txs cr thrNum bs txCount =
     (if thrNum \<le> 1 \<or> txCount \<le> 2000 then parse_txs cr bs 217 txCount
      else parse_txs_threads cr thrNum bs 217 txCount)"

fun parse_validators :: "crypto \<Rightarrow> uint64 \<Rightarrow> bytes \<Rightarrow> nat \<Rightarrow> nat \<Rightarrow> tx_validator list res" where
  "parse_validators cr nHeight bs index 0 = Inr []"
| "parse_validators cr nHeight bs index (Suc n) =
     bindR (read_size bs index) (\<lambda>txSize.
     bindR (bindR (subspan bs (index + 4) txSize) (TxValidator_parse cr)) (\<lambda>t.
     if tv_nHeight t \<noteq> nHeight then Inl (RuntimeError ''Invalid validator tx height'')
     else bindR (parse_validators cr nHeight bs (index + 4 + txSize) n) (\<lambda>ts. Inr (t # ts))))"

definition Block_check :: "crypto \<Rightarrow> block \<Rightarrow> block res" where
  "Block_check cr b =
     (if tx_root cr (b_txs b) \<noteq> b_txMerkleRoot b then Inl (RuntimeError ''Invalid tx merkle root'')
      else if validator_root cr (b_txValidators b) \<noteq> b_validatorMerkleRoot b
      then Inl (RuntimeError ''Invalid validator merkle root'')
      else if parseTxSeedList cr (b_txValidators b) \<noteq> b_blockRandomness b then Inl (RuntimeError ''Invalid block randomness'')
      else
        bindR (sig_r (b_validatorSig b)) (\<lambda>r.
        bindR (sig_s (b_validatorSig b)) (\<lambda>s.
        bindR (sig_v (b_validatorSig b)) (\<lambda>v.
        if \<not> verifySig r s v then Inl (RuntimeError ''Invalid validator signature'')
        else Inr (b\<lparr>b_validatorPubKey := recover cr (b_validatorSig b) (Block_hash cr b), b_finalized := True\<rparr>)))))"

text \<open>Every exception is thrown again as a \<^verbatim>\<open>runtime_error\<close>.\<close>

definition Block_rethrow :: "'a res \<Rightarrow> 'a res" where
  "Block_rethrow r = (case r of Inl e \<Rightarrow> Inl (rethrow e) | Inr a \<Rightarrow> Inr a)"

definition Block_parse :: "crypto \<Rightarrow> nat \<Rightarrow> bytes \<Rightarrow> block res" where
  "Block_parse cr thrNum bs = Block_rethrow (
     bindR (Block_header bs) (\<lambda>(b, txValidatorStart).
     bindR (count_txs bs txValidatorStart 217) (\<lambda>txCount.
     bindR (count_txs bs (length bs) txValidatorStart) (\<lambda>valTxCount.
     bindR (Block_txs cr thrNum bs txCount) (\<lambda>txs.
     bindR (parse_validators cr (b_nHeight b) bs txValidatorStart valTxCount) (\<lambda>txValidators.
     Block_check cr (b\<lparr>b_txs := txs, b_txValidators := txValidators\<rparr>)))))))"

section \<open>Lemmas\<close>

lemma foldl_append_concat: "foldl (\<lambda>ret t. ret @ f t) ret ts = ret @ concat (map f ts)"
  by (induction ts arbitrary: ret) simp_all

subsection \<open>Threads\<close>

lemma skip_txs_Suc: "skip_txs bs off (Suc n) = bindR (read_size bs off) (\<lambda>len. skip_txs bs (off + 4 + len) n)"
  by (simp add: ac_simps)

lemma skip_of_parse: "parse_txs cr bs i n = Inr xs \<Longrightarrow> \<exists>j. skip_txs bs i n = Inr j"
proof (induction n arbitrary: i xs)
  case (Suc n)
  then show ?case by (auto simp: bindR_eq_Inr skip_txs_Suc simp del: skip_txs.simps)
qed simp

lemma parse_txs_append:
  "parse_txs cr bs i (m + n) = Inr zs \<longleftrightarrow>
     (\<exists>xs j ys. parse_txs cr bs i m = Inr xs \<and> skip_txs bs i m = Inr j \<and> parse_txs cr bs j n = Inr ys \<and> zs = xs @ ys)"
proof (induction m arbitrary: i zs)
  case 0
  then show ?case by auto
next
  case (Suc m)
  show ?case
  proof (cases "read_size bs i")
    case (Inr k)
    let ?t = "bindR (subspan bs (i + 4) k) (TxBlock_parse cr)"
    show ?thesis
      by (cases ?t) (auto simp: Inr bindR_eq_Inr Suc.IH skip_txs_Suc simp del: skip_txs.simps)
  qed simp
qed

lemma join_tasks_no_error: "join_tasks fs = Inr xs \<Longrightarrow> Inl e \<notin> set fs"
  by (induction fs arbitrary: xs) (auto simp: res_simps)

lemma thread_tasks_eq:
  "ns \<noteq> [] \<Longrightarrow>
   (\<exists>fs. thread_tasks cr bs i ns = Inr fs \<and> join_tasks fs = Inr txs) \<longleftrightarrow> parse_txs cr bs i (sum_list ns) = Inr txs"
proof (induction cr bs i ns arbitrary: txs rule: thread_tasks.induct)
  case (2 cr bs i n)
  then show ?case by (auto simp: res_simps)
next
  case (3 cr bs i n n' ns)
  have IH: "(\<exists>fs. thread_tasks cr bs j (n' # ns) = Inr fs \<and> join_tasks fs = Inr zs) \<longleftrightarrow>
      parse_txs cr bs j (sum_list (n' # ns)) = Inr zs" if "skip_txs bs i n = Inr j" for j zs
    by (rule "3.IH" [OF that]) simp
  have "(\<exists>fs. thread_tasks cr bs i (n # n' # ns) = Inr fs \<and> join_tasks fs = Inr txs) \<longleftrightarrow>
      (\<exists>j xs ys. skip_txs bs i n = Inr j \<and> parse_txs cr bs i n = Inr xs \<and>
         (\<exists>fs. thread_tasks cr bs j (n' # ns) = Inr fs \<and> join_tasks fs = Inr ys) \<and> txs = xs @ ys)"
    by (auto simp: res_simps)
  also have "\<dots> \<longleftrightarrow> parse_txs cr bs i (n + sum_list (n' # ns)) = Inr txs"
    unfolding parse_txs_append using IH by blast
  finally show ?case by simp
qed simp

lemma sum_txsPerThr: "0 < thrNum \<Longrightarrow> sum_list (txsPerThr thrNum n) = n \<and> txsPerThr thrNum n \<noteq> []"
proof -
  assume "0 < thrNum"
  then obtain k where k: "thrNum = Suc k" by (cases thrNum) auto
  have r: "replicate (Suc k) x = replicate k x @ [x]" for x :: nat by (simp add: replicate_append_same)
  have "txsPerThr thrNum n = replicate k (n div thrNum) @ [n div thrNum + n mod thrNum]"
    using r by (simp add: txsPerThr_def k list_update_append del: replicate_Suc)
  moreover have "k * (n div thrNum) + (n div thrNum + n mod thrNum) = thrNum * (n div thrNum) + n mod thrNum"
    by (simp add: k)
  ultimately show ?thesis by (simp add: sum_list_replicate)
qed

lemma Block_txs_eq: "Block_txs cr thrNum bs n = Inr txs \<longleftrightarrow> parse_txs cr bs 217 n = Inr txs"
proof (cases "thrNum \<le> 1 \<or> n \<le> 2000")
  case False
  then have "sum_list (txsPerThr thrNum n) = n" "txsPerThr thrNum n \<noteq> []" using sum_txsPerThr [of thrNum n] by auto
  moreover have "parse_txs_threads cr thrNum bs 217 n = Inr txs \<longleftrightarrow>
      (\<exists>fs. thread_tasks cr bs 217 (txsPerThr thrNum n) = Inr fs \<and> join_tasks fs = Inr txs)"
    using join_tasks_no_error by (auto simp: parse_txs_threads_def res_simps)
  ultimately show ?thesis using thread_tasks_eq [of "txsPerThr thrNum n" cr bs 217 txs] False by (simp add: Block_txs_def)
qed (simp add: Block_txs_def)

subsection \<open>Reading back a serialized block\<close>

lemma read_size_put:
  assumes "length x < 2 ^ 32"
  shows "read_size (pre @ put_sized x @ post) (length pre) = Inr (length x)"
    "subspan (pre @ put_sized x @ post) (length pre + 4) (length x) = Inr x"
proof -
  have "unat (of_nat (length x) :: uint32) = length x" using assms by (intro unat_of_nat_eq) simp
  then show "read_size (pre @ put_sized x @ post) (length pre) = Inr (length x)"
    using c32.dec_field [of pre "length pre" "of_nat (length x)" "x @ post"] by (simp add: read_size_def put_sized_def)
  show "subspan (pre @ put_sized x @ post) (length pre + 4) (length x) = Inr x"
    using subspan_append [of "pre @ uint32ToBytes (of_nat (length x))" "length pre + 4" x "length x" post]
    by (simp add: put_sized_def c32.enc_length)
qed

lemma length_put_sized: "length (put_sized x) = length x + 4"
  by (simp add: put_sized_def c32.enc_length)

lemma count_txs_put:
  "\<forall>x\<in>set xs. length x < 2 ^ 32 \<Longrightarrow>
   count_txs (pre @ concat (map put_sized xs) @ post) (length pre + length (concat (map put_sized xs))) (length pre) =
     Inr (length xs)"
proof (induction xs arbitrary: pre)
  case Nil
  then show ?case by (simp add: count_txs.simps)
next
  case (Cons x xs)
  let ?bs = "pre @ concat (map put_sized (x # xs)) @ post"
  have r: "read_size ?bs (length pre) = Inr (length x)"
    using read_size_put(1) [of x pre "concat (map put_sized xs) @ post"] Cons.prems by simp
  have "count_txs ((pre @ put_sized x) @ concat (map put_sized xs) @ post)
      (length (pre @ put_sized x) + length (concat (map put_sized xs))) (length (pre @ put_sized x)) = Inr (length xs)"
    using Cons.prems by (intro Cons.IH) simp
  then have "count_txs ?bs (length pre + length (concat (map put_sized (x # xs)))) (length pre + (length x + 4)) = Inr (length xs)"
    by (simp add: length_put_sized add.assoc)
  then show ?case using r by (subst count_txs.simps) (simp add: length_put_sized)
qed

lemma parse_txs_put:
  "\<forall>t\<in>set ts. length (TxBlock_rlpSerialize True t) < 2 ^ 32 \<and> TxBlock_parse cr (TxBlock_rlpSerialize True t) = Inr t \<Longrightarrow>
   parse_txs cr (pre @ concat (map (\<lambda>t. put_sized (TxBlock_rlpSerialize True t)) ts) @ post) (length pre) (length ts) = Inr ts"
proof (induction ts arbitrary: pre)
  case (Cons t ts)
  let ?x = "TxBlock_rlpSerialize True t" and ?rest = "concat (map (\<lambda>t. put_sized (TxBlock_rlpSerialize True t)) ts)"
  note r = read_size_put [of ?x pre "?rest @ post"]
  have "parse_txs cr ((pre @ put_sized ?x) @ ?rest @ post) (length (pre @ put_sized ?x)) (length ts) = Inr ts"
    using Cons.prems by (intro Cons.IH) simp
  then have "parse_txs cr (pre @ put_sized ?x @ ?rest @ post) (length pre + 4 + length ?x) (length ts) = Inr ts"
    by (simp add: length_put_sized ac_simps)
  then show ?case using r Cons.prems by simp
qed simp

lemma parse_validators_put:
  "\<forall>t\<in>set ts. length (TxValidator_rlpSerialize True t) < 2 ^ 32 \<and> tv_nHeight t = h \<and>
     TxValidator_parse cr (TxValidator_rlpSerialize True t) = Inr t \<Longrightarrow>
   parse_validators cr h (pre @ concat (map (\<lambda>t. put_sized (TxValidator_rlpSerialize True t)) ts) @ post) (length pre)
     (length ts) = Inr ts"
proof (induction ts arbitrary: pre)
  case (Cons t ts)
  let ?x = "TxValidator_rlpSerialize True t" and ?rest = "concat (map (\<lambda>t. put_sized (TxValidator_rlpSerialize True t)) ts)"
  note r = read_size_put [of ?x pre "?rest @ post"]
  have "parse_validators cr h ((pre @ put_sized ?x) @ ?rest @ post) (length (pre @ put_sized ?x)) (length ts) = Inr ts"
    using Cons.prems by (intro Cons.IH) simp
  then have "parse_validators cr h (pre @ put_sized ?x @ ?rest @ post) (length pre + 4 + length ?x) (length ts) = Inr ts"
    by (simp add: length_put_sized ac_simps)
  then show ?case using r Cons.prems by simp
qed simp

definition header_sized :: "block \<Rightarrow> bool" where
  "header_sized b \<longleftrightarrow> length (b_validatorSig b) = 65 \<and> length (b_prevBlockHash b) = 32 \<and> length (b_blockRandomness b) = 32 \<and>
     length (b_validatorMerkleRoot b) = 32 \<and> length (b_txMerkleRoot b) = 32"

text \<open>Transactions that their own serialization gives back, the validators' for the height of the block.\<close>

definition txs_wire :: "crypto \<Rightarrow> block \<Rightarrow> bool" where
  "txs_wire cr b \<longleftrightarrow>
     (\<forall>t\<in>set (b_txs b). length (TxBlock_rlpSerialize True t) < 2 ^ 32 \<and>
        TxBlock_parse cr (TxBlock_rlpSerialize True t) = Inr t) \<and>
     (\<forall>t\<in>set (b_txValidators b). length (TxValidator_rlpSerialize True t) < 2 ^ 32 \<and> tv_nHeight t = b_nHeight b \<and>
        TxValidator_parse cr (TxValidator_rlpSerialize True t) = Inr t)"

definition txs_bytes :: "block \<Rightarrow> bytes" where
  "txs_bytes b = concat (map (\<lambda>t. put_sized (TxBlock_rlpSerialize True t)) (b_txs b))"

definition validators_bytes :: "block \<Rightarrow> bytes" where
  "validators_bytes b = concat (map (\<lambda>t. put_sized (TxValidator_rlpSerialize True t)) (b_txValidators b))"

lemma length_serializeHeader: "header_sized b \<Longrightarrow> length (serializeHeader b) = 144"
  by (simp add: serializeHeader_def header_sized_def c64.enc_length)

lemma serializeBlock_eq:
  assumes "header_sized b"
  shows "serializeBlock b = b_validatorSig b @ serializeHeader b @ uint64ToBytes (of_nat (217 + length (txs_bytes b))) @
    txs_bytes b @ validators_bytes b"
  using length_serializeHeader [OF assms] assms
  by (simp add: serializeBlock_def Let_def foldl_append_concat txs_bytes_def validators_bytes_def header_sized_def)

lemma Block_header_put:
  assumes "header_sized b" "217 + length (txs_bytes b) < 2 ^ 64"
  shows "Block_header (serializeBlock b) =
    Inr (b\<lparr>b_txValidators := [], b_txs := [], b_validatorPubKey := no_UPubKey, b_finalized := False\<rparr>, 217 + length (txs_bytes b))"
proof -
  let ?n = "of_nat (217 + length (txs_bytes b)) :: uint64" and ?post = "txs_bytes b @ validators_bytes b"
  have eq: "serializeBlock b = b_validatorSig b @ b_prevBlockHash b @ b_blockRandomness b @ b_validatorMerkleRoot b @
      b_txMerkleRoot b @ uint64ToBytes (b_timestamp b) @ uint64ToBytes (b_nHeight b) @ uint64ToBytes ?n @ ?post"
    using serializeBlock_eq [OF assms(1)] by (simp add: serializeHeader_def)
  have n: "unat ?n = 217 + length (txs_bytes b)" using assms(2) by (intro unat_of_nat_eq) simp
  have len: "length (b_validatorSig b) = 65" "length (b_prevBlockHash b) = 32" "length (b_blockRandomness b) = 32"
    "length (b_validatorMerkleRoot b) = 32" "length (b_txMerkleRoot b) = 32" using assms(1) by (simp_all add: header_sized_def)
  show ?thesis
    unfolding eq Block_header_def using n by (simp add: subspan_def len c64.enc_length c64.dec_enc)
qed

lemma Block_parse_put:
  assumes "header_sized b" "txs_wire cr b" "217 + length (txs_bytes b) < 2 ^ 64"
  shows "Block_parse cr thrNum (serializeBlock b) = Block_rethrow (Block_check cr (b\<lparr>b_validatorPubKey := no_UPubKey, b_finalized := False\<rparr>))"
proof -
  let ?n = "217 + length (txs_bytes b)" and ?bs = "serializeBlock b"
  define pre where "pre = b_validatorSig b @ serializeHeader b @ uint64ToBytes (of_nat ?n)"
  have pre: "length pre = 217"
    using length_serializeHeader [OF assms(1)] assms(1) by (simp add: pre_def header_sized_def c64.enc_length)
  have bs: "?bs = pre @ txs_bytes b @ validators_bytes b" "?bs = (pre @ txs_bytes b) @ validators_bytes b @ []"
    using serializeBlock_eq [OF assms(1)] by (simp_all add: pre_def)
  have "count_txs ?bs ?n 217 = Inr (length (b_txs b))"
    using count_txs_put [of "map (TxBlock_rlpSerialize True) (b_txs b)" pre "validators_bytes b"] assms(2) pre
    by (simp add: bs(1) txs_bytes_def txs_wire_def comp_def)
  moreover have "count_txs ?bs (length ?bs) ?n = Inr (length (b_txValidators b))"
    using count_txs_put [of "map (TxValidator_rlpSerialize True) (b_txValidators b)" "pre @ txs_bytes b" "[]"] assms(2) pre
    by (simp add: bs(1) validators_bytes_def txs_wire_def comp_def add.assoc)
  moreover have "Block_txs cr thrNum ?bs (length (b_txs b)) = Inr (b_txs b)"
    using parse_txs_put [of "b_txs b" cr pre "validators_bytes b"] assms(2) pre
    by (simp add: Block_txs_eq bs(1) txs_bytes_def txs_wire_def)
  moreover have "parse_validators cr (b_nHeight b) ?bs ?n (length (b_txValidators b)) = Inr (b_txValidators b)"
    using parse_validators_put [of "b_txValidators b" "b_nHeight b" cr "pre @ txs_bytes b" "[]"] assms(2) pre
    by (simp add: bs(1) validators_bytes_def txs_wire_def)
  ultimately show ?thesis
    using Block_header_put [OF assms(1,3)] by (simp add: Block_parse_def)
qed

subsection \<open>Sealed blocks\<close>

text \<open>What a finalized block promises: its header fits its contents, and the key is the one the signature recovers to.\<close>

definition sealed :: "crypto \<Rightarrow> block \<Rightarrow> bool" where
  "sealed cr b \<longleftrightarrow> b_finalized b \<and> b_txMerkleRoot b = tx_root cr (b_txs b) \<and>
     b_validatorMerkleRoot b = validator_root cr (b_txValidators b) \<and>
     b_blockRandomness b = parseTxSeedList cr (b_txValidators b) \<and>
     b_validatorPubKey b = recover cr (b_validatorSig b) (Block_hash cr b)"

text \<open>The blocks a program can hold: created, parsed, or reached by an operation (also one that throws).\<close>

inductive block_reach :: "crypto \<Rightarrow> block \<Rightarrow> bool" for cr where
  new: "block_reach cr (Block_new prev timestamp nHeight)"
| parse: "Block_parse cr thrNum bs = Inr b \<Longrightarrow> block_reach cr b"
| appendTx: "block_reach cr b \<Longrightarrow> block_reach cr (fst (appendTx t b))"
| appendTxValidator: "block_reach cr b \<Longrightarrow> block_reach cr (fst (appendTxValidator v b))"
| finalize: "block_reach cr b \<Longrightarrow> block_reach cr (fst (finalize cr key timestamp b))"

lemma Block_rethrow_Inr [simp]: "Block_rethrow r = Inr a \<longleftrightarrow> r = Inr a"
  by (auto simp: Block_rethrow_def split: sum.splits)

lemma header_irrelevant [simp]:
  "Block_hash cr (b\<lparr>b_validatorSig := sig\<rparr>) = Block_hash cr b"
  "Block_hash cr (b\<lparr>b_validatorPubKey := key\<rparr>) = Block_hash cr b"
  "Block_hash cr (b\<lparr>b_finalized := f\<rparr>) = Block_hash cr b"
  by (simp_all add: Block_hash_def serializeHeader_def)

lemma Block_check_sealed: "Block_check cr b0 = Inr b \<Longrightarrow> sealed cr b"
  by (auto simp: Block_check_def sealed_def bindR_eq_Inr split: if_splits)

lemma Block_parse_sealed: "Block_parse cr thrNum bs = Inr b \<Longrightarrow> sealed cr b"
  by (auto simp: Block_parse_def bindR_eq_Inr dest: Block_check_sealed)

lemma finalize_cases:
  assumes "finalize cr key ts b = (b', r)"
  obtains "b' = b" "r = Inr False" | e where "b_finalized b' = False" "r = Inl e" | "sealed cr b'" "r = Inr True" "\<not> b_finalized b"
  using assms by (auto simp: finalize_def Let_def sealed_def split: if_splits sum.splits)

lemma block_reach_sealed: "block_reach cr b \<Longrightarrow> b_finalized b \<Longrightarrow> sealed cr b"
proof (induction rule: block_reach.induct)
  case (finalize b key ts)
  then show ?case by (cases "finalize cr key ts b") (auto elim: finalize_cases)
qed (auto simp: Block_new_def Block_parse_sealed appendTx_def appendTxValidator_def split: if_splits)

lemma Block_read_back:
  assumes fin: "finalize cr key ts b0 = (b, Inr True)"
    and sha: "\<And>x. length (sha3 cr x) = 32"
    and prev: "length (b_prevBlockHash b0) = 32"
    and txs: "txs_wire cr b0" "217 + length (txs_bytes b0) < 2 ^ 64"
    and sig: "b_validatorSig b = makeSig r s v" "verifySig r s v"
  shows "Block_parse cr thrNum (serializeBlock b) = Inr b"
proof -
  have sealed: "sealed cr b" using fin by (rule finalize_cases) auto
  have same: "b_prevBlockHash b = b_prevBlockHash b0" "b_txs b = b_txs b0" "b_txValidators b = b_txValidators b0"
    "b_nHeight b = b_nHeight b0"
    using fin by (auto simp: finalize_def Let_def split: if_splits sum.splits)
  have root: "length (getRoot (Merkle_new cr leaves)) = 32" for leaves by (rule length_getRoot [OF sha])
  have "header_sized b"
    using sealed prev by (simp add: header_sized_def sealed_def same sig makeSig_parts tx_root_def validator_root_def root
        parseTxSeedList_def sha)
  moreover have "txs_wire cr b" "txs_bytes b = txs_bytes b0" using txs(1) by (simp_all add: txs_wire_def txs_bytes_def same)
  ultimately have "Block_parse cr thrNum (serializeBlock b) =
      Block_rethrow (Block_check cr (b\<lparr>b_validatorPubKey := no_UPubKey, b_finalized := False\<rparr>))"
    using Block_parse_put txs(2) by metis
  moreover have "Block_check cr (b\<lparr>b_validatorPubKey := no_UPubKey, b_finalized := False\<rparr>) = Inr b"
    using sealed sig sig_parts [of r s v] by (auto simp: Block_check_def sealed_def Block_hash_def serializeHeader_def intro!: block.equality)
  ultimately show ?thesis by simp
qed

section \<open>Properties\<close>


text \<open>
  The number of threads does not matter: a block is parsed on \<open>thrNum\<close> threads exactly when it is parsed
  sequentially, and to the same block.
\<close>

theorem Block_parse_threads: "Block_parse cr thrNum bs = Inr b \<longleftrightarrow> Block_parse cr 1 bs = Inr b"
proof -
  have "Block_txs cr thrNum bs n = Inr txs \<longleftrightarrow> Block_txs cr 1 bs n = Inr txs" for n txs by (simp add: Block_txs_eq)
  then show ?thesis by (simp add: Block_parse_def bindR_eq_Inr case_prod_unfold)
qed



section \<open>Witnesses\<close>

definition demo_signed :: tx_block where
  "demo_signed = demo_tx\<lparr>t_r := 5, t_s := 1, t_v := 1\<rparr>"

definition demo_open :: "block" where
  "demo_open = (Block_new (replicate 32 1) 5 1)\<lparr>b_txs := [demo_signed]\<rparr>"

definition demo_block :: block where
  "demo_block = fst (finalize demo_crypto [] 7 demo_open)"

lemma demo_signed_read: "TxBlock_parse demo_crypto (TxBlock_rlpSerialize True demo_signed) = Inr demo_signed"
  unfolding demo_signed_def
  by (rule TxBlock_read_back [OF demo_tx_new])
     (simp_all add: demo_tx_def tx_wire_def toUPub_def demo_crypto_def uint_size_def data_size_def TxBlock_total_size_def)

lemma demo_finalize: "finalize demo_crypto [] 7 demo_open = (demo_block, Inr True)" "b_validatorSig demo_block = makeSig 5 1 1"
  "b_finalized demo_block"
  by (simp_all add: demo_block_def finalize_def Let_def demo_sign demo_open_def Block_new_def)

lemma demo_block_txs: "b_txs demo_block = [demo_signed]"
  by (simp add: demo_block_def finalize_def Let_def demo_sign demo_open_def Block_new_def)

lemma demo_signed_size: "length (TxBlock_rlpSerialize True demo_signed) < 1000"
proof -
  have d: "length (t_data demo_signed) = 30" "tx_wire demo_signed" by (simp_all add: demo_signed_def demo_tx_def tx_wire_def)
  then have "TxBlock_total_size True demo_signed \<le> 330" using TxBlock_total_size_le [of True demo_signed] by simp
  moreover have "length (put_list_header n) \<le> 10" for n
    using bytesRequired_64 [of "of_nat n"] by (simp add: put_list_header_def)
  ultimately show ?thesis
    using TxBlock_body_size(1) [OF d(2)] d(1) unfolding TxBlock_serialized
    by (simp add: add_le_mono [THEN le_less_trans, of _ 10 _ 330])
qed



definition demo_hash3 :: crypto where
  "demo_hash3 = demo_crypto\<lparr>sha3 := \<lambda>x. if length x = 32 then x else if hd x = 1 then replicate 32 8 else replicate 32 9\<rparr>"

definition demo_vote :: tx_validator where
  "demo_vote = \<lparr>tv_from = replicate 20 2, tv_data = replicate 36 0, tv_chainId = 1, tv_nHeight = 1, tv_v = 27, tv_r = 1, tv_s = 1\<rparr>"

definition demo_sealed :: "Signature \<Rightarrow> block" where
  "demo_sealed sig = (let b = (Block_new (replicate 32 1) 5 1)\<lparr>b_txs := [demo_signed], b_txValidators := [demo_vote],
     b_txMerkleRoot := tx_root demo_hash3 [demo_signed], b_validatorMerkleRoot := validator_root demo_hash3 [demo_vote],
     b_blockRandomness := parseTxSeedList demo_hash3 [demo_vote], b_validatorSig := sig, b_finalized := True\<rparr>
   in b\<lparr>b_validatorPubKey := recover demo_hash3 sig (Block_hash demo_hash3 b)\<rparr>)"


end
