(* ===== verification/RandomGen.thy ===== *)
theory RandomGen
  imports Strings "HOL-Library.Multiset"
begin

text \<open>
  The pseudo-random generator of rdPoS (\<^verbatim>\<open>utils/randomgen.h\<close>, \<^verbatim>\<open>utils/randomgen.cpp\<close>). Its state is the seed; the
  lock around every operation makes each of them atomic.
\<close>

section \<open>Definitions\<close>

definition RandomGen_call :: "crypto \<Rightarrow> Hash \<Rightarrow> (uint256 \<times> Hash) res" where
  "RandomGen_call cr seed = (let seed = sha3 cr seed in bindR (toUint256 seed) (\<lambda>ret. Inr (ret, seed)))"

function shuffle_loop :: "crypto \<Rightarrow> nat \<Rightarrow> 'a list \<Rightarrow> Hash \<Rightarrow> ('a list \<times> Hash) res" where
  "shuffle_loop cr i v seed =
     (if i < length v then
        let seed = sha3 cr seed in
        bindR (toUint256 seed) (\<lambda>u.
        bindR (checked_add (of_nat i) (u mod of_nat (length v - i))) (\<lambda>s.
        let n = unat (ucast s :: uint64) in
        bindR (at_idx v n) (\<lambda>x.
        bindR (at_idx v i) (\<lambda>y.
        shuffle_loop cr (i + 1) (v[n := y, i := x]) seed))))
      else Inr (v, seed))"
  by pat_completeness auto
termination by (relation "measure (\<lambda>(cr, i, v, seed). length v - i)") auto

declare shuffle_loop.simps [simp del]

definition shuffle :: "crypto \<Rightarrow> 'a list \<Rightarrow> Hash \<Rightarrow> ('a list \<times> Hash) res" where
  "shuffle cr v seed = shuffle_loop cr 0 v seed"

section \<open>Lemmas\<close>

lemma toUint256_ok: "length h = 32 \<Longrightarrow> \<exists>u. toUint256 h = Inr u"
  by (simp add: toUint256_def bytesToUint256_def)

lemma add_mod_less: "i + x mod (n - i) < n" if "i < n" for i n x :: nat
  using mod_less_divisor [of "n - i" x] that by linarith

lemma unat_ucast_small: "unat x < 2 ^ LENGTH('m) \<Longrightarrow> unat (ucast x :: 'm::len word) = unat x" for x :: "'n::len word"
  by (metis of_nat_unat unat_of_nat_eq)

lemma shuffle_index:
  fixes u :: uint256
  assumes "i < n" "n < 2 ^ 64"
  shows "\<exists>s. checked_add (of_nat i) (u mod of_nat (n - i)) = Inr s \<and>
    unat (ucast s :: uint64) = i + unat u mod (n - i)"
proof -
  have w: "unat (of_nat i :: uint256) = i" "unat (of_nat (n - i) :: uint256) = n - i"
    by (rule unat_of_nat_eq, use assms in simp)+
  let ?s = "of_nat i + u mod of_nat (n - i) :: uint256"
  note m = add_mod_less [OF assms(1), of "unat u"]
  have um: "unat (u mod of_nat (n - i)) = unat u mod (n - i)" by (simp only: unat_mod w)
  have "i + unat u mod (n - i) < 2 ^ LENGTH(256)" by (rule less_trans [OF m]) (use assms in simp)
  then have lt: "unat (of_nat i :: uint256) + unat (u mod of_nat (n - i)) < 2 ^ LENGTH(256)"
    by (simp only: w(1) um)
  then have s: "unat ?s = i + unat u mod (n - i)" using w(1) um unat_add_no_wrap by metis
  then have "unat ?s < 2 ^ LENGTH(64)" by (simp only: s) (rule less_trans [OF m], use assms in simp)
  then have "unat (ucast ?s :: uint64) = unat ?s" by (simp add: unat_ucast_small)
  then show ?thesis using s lt by (auto simp: res_simps)
qed

lemma mset_swap_at:
  assumes "n < length v" "i < length v"
  shows "mset (v[n := v ! i, i := v ! n]) = mset v"
  using mset_swap [OF assms(2,1)] by (cases "n = i") (simp_all add: list_update_swap)

lemma shuffle_loop_ok:
  assumes len: "\<And>x. length (sha3 cr x) = 32"
  shows "i \<le> length v \<Longrightarrow> length v < 2 ^ 64 \<Longrightarrow>
    \<exists>v'. shuffle_loop cr i v seed = Inr (v', (sha3 cr ^^ (length v - i)) seed) \<and> mset v' = mset v \<and> take i v' = take i v"
proof (induction "length v - i" arbitrary: i v seed)
  case 0
  then show ?case by (subst shuffle_loop.simps) simp
next
  case (Suc k)
  then have i: "i < length v" by simp
  obtain u where u: "toUint256 (sha3 cr seed) = Inr u" using toUint256_ok [OF len] by blast
  obtain s where s: "checked_add (of_nat i) (u mod of_nat (length v - i)) = Inr s"
    "unat (ucast s :: uint64) = i + unat u mod (length v - i)"
    using shuffle_index [OF i Suc.prems(2)] by blast
  define n where "n = i + unat u mod (length v - i)"
  have n: "i \<le> n" "n < length v" using add_mod_less [OF i] by (simp_all add: n_def)
  let ?v = "v[n := v ! i, i := v ! n]"
  have k: "k = length ?v - (i + 1)" using Suc.hyps(2) by simp
  have "shuffle_loop cr i v seed = shuffle_loop cr (i + 1) ?v (sha3 cr seed)"
    using i n(2) u s by (subst shuffle_loop.simps) (simp add: Let_def n_def [symmetric] at_idx_def)
  moreover obtain v' where v': "shuffle_loop cr (i + 1) ?v (sha3 cr seed) =
      Inr (v', (sha3 cr ^^ (length ?v - (i + 1))) (sha3 cr seed))" "mset v' = mset ?v" "take (i + 1) v' = take (i + 1) ?v"
    using Suc.hyps(1) [OF k, of "sha3 cr seed"] Suc.prems i by auto
  moreover have "length v - i = Suc (length v - (i + 1))" using i by simp
  moreover have "take i v' = take i v"
    using arg_cong [OF v'(3), of "take i"] n(1) by (simp add: min_def)
  ultimately show ?case using mset_swap_at [OF n(2) i] by (simp add: funpow_swap1)
qed

section \<open>Properties\<close>

text \<open>
  \<open>shuffle\<close> never indexes outside the vector and returns a permutation of it, whatever the seed; the seed moves on
  by one hash per element.
\<close>

theorem shuffle_permutes:
  assumes "\<And>x. length (sha3 cr x) = 32" "length v < 2 ^ 64"
  shows "\<exists>v'. shuffle cr v seed = Inr (v', (sha3 cr ^^ length v) seed) \<and> mset v' = mset v"
  using shuffle_loop_ok [OF assms(1), of 0 v seed] assms(2) by (auto simp: shuffle_def)

theorem shuffle_permutes_witness:
  "\<exists>v'. shuffle demo_crypto [1, 2, 3 :: nat] [] = Inr (v', (sha3 demo_crypto ^^ 3) []) \<and> mset v' = mset [1, 2, 3]"
proof -
  have len: "length (sha3 demo_crypto x) = 32" for x by (simp add: demo_crypto_def)
  show ?thesis using shuffle_permutes [OF len, of "[1, 2, 3 :: nat]" "[]"] by (simp add: numeral_3_eq_3)
qed

end
