(* ===== verification/RdPoS.thy ===== *)
theory RdPoS
  imports Block RandomGen
begin

text \<open>
  The rdPoS consensus (\<^verbatim>\<open>core/rdpos.h\<close>, \<^verbatim>\<open>core/rdpos.cpp\<close>): the validator set and its shuffled list, the pool of
  validator transactions, validation and processing of a block, and the transactions a validator creates. The height of
  the latest block, which the source asks the storage for, is an argument.
\<close>

section \<open>State and construction\<close>

definition minValidators :: nat where
  "minValidators = 4"

record rdpos =
  r_validators :: "Address list"
  r_randomList :: "Address list"
  r_validatorMempool :: "(Hash \<times> tx_validator) list"
  r_randomGen :: Hash
  r_bestRandomSeed :: Hash

text \<open>\<^verbatim>\<open>std::set::insert\<close>: the set is the list of its elements in their order.\<close>

fun set_insert :: "Address \<Rightarrow> Address list \<Rightarrow> Address list" where
  "set_insert a [] = [a]"
| "set_insert a (b # bs) =
     (if addr_less a b then a # b # bs else if addr_less b a then b # set_insert a bs else b # bs)"

fun load_validators :: "bytes list \<Rightarrow> Address list \<Rightarrow> Address list res" where
  "load_validators [] vs = Inr vs"
| "load_validators (v # r) vs =
     (if length v \<noteq> 20 then Inl (InvalidArgument ''Invalid address size'') else load_validators r (set_insert v vs))"

definition default_validators :: "string list" where
  "default_validators =
     [''0x7588b0f553d1910266089c58822e1120db47e572'', ''0xcabf34a268847a610287709d841e5cd590cc5c00'',
      ''0x5fb516dc2cfc1288e689ed377a9eebe2216cf1e3'', ''0x795083c42583842774febc21abb6df09e784fce5'',
      ''0xbec7b74f70c151707a0bfb20fe3767c6e65499e0'']"

fun all_toBytes :: "string list \<Rightarrow> bytes list res" where
  "all_toBytes [] = Inr []"
| "all_toBytes (s # r) = bindR (Hex_toBytes s) (\<lambda>b. bindR (all_toBytes r) (\<lambda>bs. Inr (b # bs)))"

text \<open>The values stored under the prefix of rdPoS.\<close>

definition initializeBlockchain :: "bytes list \<Rightarrow> bytes list res" where
  "initializeBlockchain db = (if db = [] then all_toBytes default_validators else Inr db)"

definition rdPoS_new :: "crypto \<Rightarrow> bytes list \<Rightarrow> Hash \<Rightarrow> rdpos res" where
  "rdPoS_new cr db latestRandomness =
     bindR (initializeBlockchain db) (\<lambda>validatorsDb.
     if validatorsDb = [] then Inl (RuntimeError ''No rdPoS in DB.'')
     else bindR (load_validators validatorsDb []) (\<lambda>validators.
          bindR (shuffle cr validators latestRandomness) (\<lambda>(randomList, seed).
          Inr \<lparr>r_validators = validators, r_randomList = randomList, r_validatorMempool = [], r_randomGen = seed,
               r_bestRandomSeed = latestRandomness\<rparr>)))"

definition rdPoS_save :: "rdpos \<Rightarrow> (bytes \<times> bytes) list" where
  "rdPoS_save r = zip (map (\<lambda>i. uint64ToBytes (of_nat i)) [0..<length (r_validators r)]) (r_validators r)"

definition isValidatorAddress :: "rdpos \<Rightarrow> Address \<Rightarrow> bool" where
  "isValidatorAddress r add \<longleftrightarrow> add \<in> set (r_validators r)"

definition clearMempool :: "rdpos \<Rightarrow> rdpos" where
  "clearMempool r = r\<lparr>r_validatorMempool := []\<rparr>"

section \<open>Validation of a block\<close>

text \<open>\<^verbatim>\<open>emplace\<close> into the map from hash transactions to seed transactions, whose keys are equal when their hashes are.\<close>

definition emplace_tx :: "crypto \<Rightarrow> tx_validator \<Rightarrow> tx_validator \<Rightarrow> (tx_validator \<times> tx_validator) list \<Rightarrow>
    (tx_validator \<times> tx_validator) list" where
  "emplace_tx cr k v m =
     (if list_ex (\<lambda>(k', _). TxValidator_hash cr True k' = TxValidator_hash cr True k) m then m else m @ [(k, v)])"

text \<open>The loop that checks the order; \<open>None\<close> is its \<^verbatim>\<open>return false\<close>.\<close>

fun order_loop :: "crypto \<Rightarrow> Address list \<Rightarrow> tx_validator list \<Rightarrow> nat list \<Rightarrow> (tx_validator \<times> tx_validator) list \<Rightarrow>
    (tx_validator \<times> tx_validator) list option res" where
  "order_loop cr randomList txs [] m = Inr (Some m)"
| "order_loop cr randomList txs (i # is) m =
     bindR (at_idx txs i) (\<lambda>hashTx.
     bindR (at_idx randomList (i + 1)) (\<lambda>v.
     if tv_from hashTx \<noteq> v then Inr None
     else bindR (at_idx txs (i + minValidators)) (\<lambda>seedTx.
       if tv_from seedTx \<noteq> v then Inr None
       else order_loop cr randomList txs is (emplace_tx cr hashTx seedTx m))))"

definition valid_pair :: "crypto \<Rightarrow> tx_validator \<times> tx_validator \<Rightarrow> bool" where
  "valid_pair cr p =
     (let hashTx = fst p; seedTx = snd p;
          hashTxFunction = getTxValidatorFunction hashTx; seedTxFunction = getTxValidatorFunction seedTx in
      if hashTxFunction = INVALID then False
      else if seedTxFunction = INVALID then False
      else if tv_from hashTx \<noteq> tv_from seedTx then False
      else if hashTxFunction \<noteq> RANDOMHASH then False
      else if seedTxFunction \<noteq> RANDOMSEED then False
      else let hash = drop 4 (tv_data hashTx); random = drop 4 (tv_data seedTx) in
        if length hash \<noteq> 32 then False else if length random \<noteq> 32 then False else sha3 cr random = hash)"

definition validateBlock :: "crypto \<Rightarrow> rdpos \<Rightarrow> block \<Rightarrow> bool res" where
  "validateBlock cr r b =
     (if \<not> b_finalized b then Inr False
      else bindR (at_idx (r_randomList r) 0) (\<lambda>creator.
        if toAddress cr (b_validatorPubKey b) \<noteq> creator then Inr False
        else if length (b_txValidators b) \<noteq> minValidators * 2 then Inr False
        else if \<not> list_all (\<lambda>t. tv_nHeight t = b_nHeight b) (b_txValidators b) then Inr False
        else bindR (order_loop cr (r_randomList r) (b_txValidators b) [0..<minValidators] []) (\<lambda>res.
          case res of None \<Rightarrow> Inr False
          | Some txHashToSeedMap \<Rightarrow>
              if length txHashToSeedMap \<noteq> minValidators then Inr False
              else Inr (list_all (valid_pair cr) txHashToSeedMap))))"

section \<open>Processing of a block and the pool\<close>

definition processBlock :: "crypto \<Rightarrow> block \<Rightarrow> (rdpos, Hash) sres" where
  "processBlock cr b r =
     (if \<not> b_finalized b then (r, Inl (RuntimeError ''Block is not finalized.''))
      else let r = r\<lparr>r_validatorMempool := [], r_randomList := r_validators r, r_bestRandomSeed := b_blockRandomness b,
                      r_randomGen := b_blockRandomness b\<rparr>
        in case shuffle cr (r_randomList r) (r_randomGen r) of
             Inl e \<Rightarrow> (r, Inl e)
           | Inr (randomList, seed) \<Rightarrow> (r\<lparr>r_randomList := randomList, r_randomGen := seed\<rparr>, Inr (r_bestRandomSeed r)))"

definition signBlock :: "crypto \<Rightarrow> PrivKey \<Rightarrow> uint64 \<Rightarrow> (block, bool) sres" where
  "signBlock cr validatorKey newTimestamp = finalize cr validatorKey newTimestamp"

fun participates :: "Address list \<Rightarrow> Address \<Rightarrow> nat list \<Rightarrow> bool res" where
  "participates randomList add [] = Inr False"
| "participates randomList add (i # is) =
     bindR (at_idx randomList i) (\<lambda>v. if v = add then Inr True else participates randomList add is)"

definition pool_add :: "Hash \<Rightarrow> tx_validator \<Rightarrow> rdpos \<Rightarrow> rdpos" where
  "pool_add h t r = (if h \<in> fst ` set (r_validatorMempool r) then r
     else r\<lparr>r_validatorMempool := (h, t) # r_validatorMempool r\<rparr>)"

definition addValidatorTx :: "crypto \<Rightarrow> uint64 \<Rightarrow> tx_validator \<Rightarrow> (rdpos, bool) sres" where
  "addValidatorTx cr latestHeight t r =
     (let h = TxValidator_hash cr True t in
      if h \<in> fst ` set (r_validatorMempool r) then (r, Inr True)
      else if tv_nHeight t \<noteq> latestHeight + 1 then (r, Inr False)
      else case participates (r_randomList r) (tv_from t) [1..<minValidators + 1] of
        Inl e \<Rightarrow> (r, Inl e)
      | Inr False \<Rightarrow> (r, Inr False)
      | Inr True \<Rightarrow>
          (case filter (\<lambda>v. tv_from v = tv_from t) (map snd (r_validatorMempool r)) of
             [] \<Rightarrow> (pool_add h t r, Inr True)
           | [t0] \<Rightarrow>
               (case bindR (TxValidator_getFunctor t0) (\<lambda>f0. bindR (TxValidator_getFunctor t) (\<lambda>f. Inr (f0 = f))) of
                  Inl e \<Rightarrow> (r, Inl e)
                | Inr True \<Rightarrow> (r, Inr False)
                | Inr False \<Rightarrow> (pool_add h t r, Inr True))
           | _ \<Rightarrow> (r, Inr False)))"

section \<open>The transactions of a validator\<close>

text \<open>The two transactions that \<^verbatim>\<open>doTxCreation\<close> builds from 32 random bytes; \<open>None\<close> when its sanity check fails.\<close>

definition create_txs :: "crypto \<Rightarrow> PrivKey \<Rightarrow> uint64 \<Rightarrow> uint64 \<Rightarrow> Address \<Rightarrow> Hash \<Rightarrow> (tx_validator \<times> tx_validator) option res" where
  "create_txs cr validatorKey chainId nHeight me randomness =
     (let randomHash = sha3 cr randomness in
      bindR (Hex_toBytes ''0xcfffe746'') (\<lambda>f1.
      bindR (TxValidator_new cr me (f1 @ randomHash) chainId nHeight validatorKey) (\<lambda>randomHashTx.
      bindR (Hex_toBytes ''0x6fc5a2d6'') (\<lambda>f2.
      bindR (TxValidator_new cr me (f2 @ randomness) chainId nHeight validatorKey) (\<lambda>seedTx.
      bindR (subspan_from (tv_data seedTx) 4) (\<lambda>s.
      bindR (subspan_from (tv_data randomHashTx) 4) (\<lambda>h.
      if sha3 cr s \<noteq> h then Inr None else Inr (Some (randomHashTx, seedTx)))))))))"

section \<open>Lemmas\<close>

lemma minValidators_upt: "[0..<minValidators] = [0, 1, 2, 3]" "[1..<minValidators + 1] = [1, 2, 3, 4]"
  by (simp_all add: minValidators_def upt_rec)

subsection \<open>Validation\<close>

text \<open>A seed and its commitment.\<close>

definition committed :: "crypto \<Rightarrow> tx_validator \<Rightarrow> tx_validator \<Rightarrow> bool" where
  "committed cr hashTx seedTx \<longleftrightarrow> tv_from hashTx = tv_from seedTx \<and>
     (\<exists>seed. length seed = 32 \<and> length (sha3 cr seed) = 32 \<and> tv_data seedTx = [0x6f, 0xc5, 0xa2, 0xd6] @ seed \<and>
        tv_data hashTx = [0xcf, 0xff, 0xe7, 0x46] @ sha3 cr seed)"

lemma committed_from: "committed cr h s \<Longrightarrow> tv_from h = tv_from s"
  by (simp add: committed_def)

lemma function_iff:
  "getTxValidatorFunction t = RANDOMHASH \<longleftrightarrow> (\<exists>x. length x = 32 \<and> tv_data t = [0xcf, 0xff, 0xe7, 0x46] @ x)"
  "getTxValidatorFunction t = RANDOMSEED \<longleftrightarrow> (\<exists>x. length x = 32 \<and> tv_data t = [0x6f, 0xc5, 0xa2, 0xd6] @ x)"
proof -
  have *: "length d = 36 \<and> take 4 d = [a, b, c, e] \<longleftrightarrow> (\<exists>x. length x = 32 \<and> d = [a, b, c, e] @ x)" for d a b c and e :: byte
  proof
    assume "length d = 36 \<and> take 4 d = [a, b, c, e]"
    then have "d = [a, b, c, e] @ drop 4 d" "length (drop 4 d) = 32" using append_take_drop_id [of 4 d] by auto
    then show "\<exists>x. length x = 32 \<and> d = [a, b, c, e] @ x" by blast
  qed auto
  show "getTxValidatorFunction t = RANDOMHASH \<longleftrightarrow> (\<exists>x. length x = 32 \<and> tv_data t = [0xcf, 0xff, 0xe7, 0x46] @ x)"
    unfolding * [symmetric] by (simp add: getTxValidatorFunction_def TxValidator_getFunctor_def subspan_def)
  show "getTxValidatorFunction t = RANDOMSEED \<longleftrightarrow> (\<exists>x. length x = 32 \<and> tv_data t = [0x6f, 0xc5, 0xa2, 0xd6] @ x)"
    unfolding * [symmetric] by (simp add: getTxValidatorFunction_def TxValidator_getFunctor_def subspan_def)
qed

lemma valid_pair_iff: "valid_pair cr (h, s) \<longleftrightarrow> committed cr h s"
proof -
  have "valid_pair cr (h, s) \<longleftrightarrow> getTxValidatorFunction h = RANDOMHASH \<and> getTxValidatorFunction s = RANDOMSEED \<and>
      tv_from h = tv_from s \<and> length (drop 4 (tv_data h)) = 32 \<and> length (drop 4 (tv_data s)) = 32 \<and>
      sha3 cr (drop 4 (tv_data s)) = drop 4 (tv_data h)"
    by (simp add: valid_pair_def Let_def)
  then show ?thesis unfolding function_iff committed_def by auto
qed

lemma emplace_all:
  fixes cr m ps
  defines "K \<equiv> \<lambda>p. TxValidator_hash cr True (fst p)" and "m' \<equiv> foldl (\<lambda>m (k, v). emplace_tx cr k v m) m ps"
  assumes "distinct (map K m)"
  shows "length m' \<le> length m + length ps \<and> (length m' = length m + length ps \<longleftrightarrow> distinct (map K (m @ ps))) \<and>
    (distinct (map K (m @ ps)) \<longrightarrow> m' = m @ ps)"
  using assms(3) unfolding m'_def
proof (induction ps arbitrary: m)
  case (Cons p ps)
  have new: "(\<exists>p'\<in>set m. K p' = K p) \<longleftrightarrow> list_ex (\<lambda>(k', _). TxValidator_hash cr True k' = TxValidator_hash cr True (fst p)) m"
    by (simp add: list_ex_iff K_def case_prod_unfold)
  have in_m: "K p \<in> K ` set m \<longleftrightarrow> (\<exists>p'\<in>set m. K p' = K p)"
    unfolding image_iff by (rule bex_cong [OF refl]) (rule eq_commute)
  show ?case
  proof (cases "\<exists>p'\<in>set m. K p' = K p")
    case True
    then have "foldl (\<lambda>m (k, v). emplace_tx cr k v m) m (p # ps) = foldl (\<lambda>m (k, v). emplace_tx cr k v m) m ps"
      using new by (simp add: emplace_tx_def case_prod_unfold)
    moreover have "\<not> distinct (map K (m @ p # ps))" using in_m True by simp
    ultimately show ?thesis using Cons.IH [OF Cons.prems] by simp
  next
    case False
    then have step: "foldl (\<lambda>m (k, v). emplace_tx cr k v m) m (p # ps) = foldl (\<lambda>m (k, v). emplace_tx cr k v m) (m @ [p]) ps"
      using new by (simp add: emplace_tx_def case_prod_unfold)
    have "distinct (map K (m @ [p]))" using in_m False Cons.prems by simp
    from Cons.IH [OF this] show ?thesis unfolding step by simp
  qed
qed simp

text \<open>What the loop over the order leaves, when every index is inside both lists.\<close>

lemma order_loop_eq:
  assumes "\<forall>i\<in>set is. i + 1 < length rl \<and> i + minValidators < length txs"
  shows "order_loop cr rl txs is m =
    Inr (if \<forall>i\<in>set is. tv_from (txs ! i) = rl ! (i + 1) \<and> tv_from (txs ! (i + minValidators)) = rl ! (i + 1)
         then Some (foldl (\<lambda>m (k, v). emplace_tx cr k v m) m (map (\<lambda>i. (txs ! i, txs ! (i + minValidators))) is)) else None)"
  using assms by (induction "is" arbitrary: m) (auto simp: at_idx_def)

definition accepted :: "crypto \<Rightarrow> Address list \<Rightarrow> block \<Rightarrow> bool" where
  "accepted cr rl b \<longleftrightarrow> b_finalized b \<and> toAddress cr (b_validatorPubKey b) = rl ! 0 \<and> length (b_txValidators b) = 8 \<and>
     (\<forall>t\<in>set (b_txValidators b). tv_nHeight t = b_nHeight b) \<and>
     (\<forall>i<4. tv_from (b_txValidators b ! i) = rl ! (i + 1) \<and>
        committed cr (b_txValidators b ! i) (b_txValidators b ! (i + 4))) \<and>
     distinct (map (TxValidator_hash cr True) (take 4 (b_txValidators b)))"

lemma validateBlock_eq:
  assumes "5 \<le> length (r_randomList r)"
  shows "validateBlock cr r b = Inr (accepted cr (r_randomList r) b)"
proof -
  let ?rl = "r_randomList r" and ?txs = "b_txValidators b"
  define ps where "ps = map (\<lambda>i. (?txs ! i, ?txs ! (i + minValidators))) [0..<minValidators]"
  define m where "m = foldl (\<lambda>m (k, v). emplace_tx cr k v m) [] ps"
  have head: "at_idx ?rl 0 = Inr (?rl ! 0)" using assms by (cases ?rl) (simp_all add: at_idx_def)
  have four: "set [0..<minValidators] = {..<4}" by (auto simp: minValidators_def)
  show ?thesis
  proof (cases "b_finalized b \<and> toAddress cr (b_validatorPubKey b) = ?rl ! 0 \<and> length ?txs = minValidators * 2 \<and>
      list_all (\<lambda>t. tv_nHeight t = b_nHeight b) ?txs")
    case False
    then show ?thesis
      unfolding validateBlock_def accepted_def head minValidators_def list_all_iff by (cases "b_finalized b") auto
  next
    case True
    define ord where "ord \<longleftrightarrow> (\<forall>i<4. tv_from (?txs ! i) = ?rl ! (i + 1) \<and> tv_from (?txs ! (i + 4)) = ?rl ! (i + 1))"
    let ?dist = "distinct (map (\<lambda>p. TxValidator_hash cr True (fst p)) ps)"
    have "order_loop cr ?rl ?txs [0..<minValidators] [] = Inr (if ord then Some m else None)"
    proof -
      have "\<forall>i\<in>set [0..<minValidators]. i + 1 < length ?rl \<and> i + minValidators < length ?txs"
        unfolding four using True assms by (simp add: minValidators_def)
      from order_loop_eq [OF this, of cr "[]"] show ?thesis
        unfolding four ord_def m_def ps_def by (simp add: minValidators_def)
    qed
    then have v: "validateBlock cr r b = (if ord then Inr (length m = 4 \<and> list_all (valid_pair cr) m) else Inr False)"
      using True head by (simp add: validateBlock_def minValidators_def)
    have len: "length ps = 4" by (simp add: ps_def minValidators_def)
    have m: "length m = 4 \<longleftrightarrow> ?dist" "?dist \<Longrightarrow> m = ps"
      using emplace_all [of cr "[]" ps] len by (simp_all add: m_def)
    have keys: "map (TxValidator_hash cr True) (take 4 ?txs) = map (\<lambda>p. TxValidator_hash cr True (fst p)) ps"
      using True by (auto simp: ps_def minValidators_def intro!: nth_equalityI)
    have "{0..<4} = {..<4::nat}" by auto
    then have com: "list_all (valid_pair cr) ps \<longleftrightarrow> (\<forall>i<4. committed cr (?txs ! i) (?txs ! (i + 4)))"
      by (simp add: ps_def list_all_iff valid_pair_iff minValidators_def) blast
    have "accepted cr ?rl b \<longleftrightarrow>
        (\<forall>i<4. tv_from (?txs ! i) = ?rl ! (i + 1) \<and> committed cr (?txs ! i) (?txs ! (i + 4))) \<and> ?dist"
      using True unfolding accepted_def keys by (simp add: list_all_iff minValidators_def)
    also have "\<dots> \<longleftrightarrow> ord \<and> list_all (valid_pair cr) ps \<and> ?dist"
    proof -
      have "tv_from (?txs ! i) = v \<and> committed cr (?txs ! i) (?txs ! (i + 4)) \<longleftrightarrow>
          (tv_from (?txs ! i) = v \<and> tv_from (?txs ! (i + 4)) = v) \<and> committed cr (?txs ! i) (?txs ! (i + 4))" for i v
        using committed_from [of cr "?txs ! i" "?txs ! (i + 4)"] by auto
      then show ?thesis unfolding com ord_def by blast
    qed
    finally have "accepted cr ?rl b \<longleftrightarrow> ord \<and> list_all (valid_pair cr) ps \<and> ?dist" .
    moreover have "length m = 4 \<and> list_all (valid_pair cr) m \<longleftrightarrow> list_all (valid_pair cr) ps \<and> ?dist"
      using m by metis
    ultimately show ?thesis unfolding v by simp
  qed
qed

subsection \<open>The pool\<close>

lemma participates_eq:
  "4 < length rl \<Longrightarrow> participates rl a [1..<minValidators + 1] = Inr (a \<in> set (take 4 (drop 1 rl)))"
  unfolding minValidators_upt
  by (cases rl; cases "tl rl"; cases "tl (tl rl)"; cases "tl (tl (tl rl))"; cases "tl (tl (tl (tl rl)))")
     (auto simp: at_idx_def)

text \<open>
  The pool holds transactions for the next height from the four participants of the round under their hashes, at most two
  per participant, with different functors.
\<close>

definition pool_ok :: "crypto \<Rightarrow> uint64 \<Rightarrow> rdpos \<Rightarrow> bool" where
  "pool_ok cr h r \<longleftrightarrow> distinct (map fst (r_validatorMempool r)) \<and>
     (\<forall>p\<in>set (r_validatorMempool r). fst p = TxValidator_hash cr True (snd p) \<and> tv_nHeight (snd p) = h + 1 \<and>
        tv_from (snd p) \<in> set (take 4 (drop 1 (r_randomList r)))) \<and>
     (\<forall>a. length (filter (\<lambda>t. tv_from t = a) (map snd (r_validatorMempool r))) \<le> 2) \<and>
     (\<forall>p\<in>set (r_validatorMempool r). \<forall>q\<in>set (r_validatorMempool r). tv_from (snd p) = tv_from (snd q) \<and> p \<noteq> q \<longrightarrow>
        TxValidator_getFunctor (snd p) \<noteq> TxValidator_getFunctor (snd q))"

lemma addValidatorTx_cases:
  assumes len: "4 < length (r_randomList r)" and add: "addValidatorTx cr h t r = (r', res)"
  obtains "r' = r"
  | "r' = r\<lparr>r_validatorMempool := (TxValidator_hash cr True t, t) # r_validatorMempool r\<rparr>" "res = Inr True"
    "TxValidator_hash cr True t \<notin> fst ` set (r_validatorMempool r)" "tv_nHeight t = h + 1"
    "tv_from t \<in> set (take 4 (drop 1 (r_randomList r)))"
    "filter (\<lambda>v. tv_from v = tv_from t) (map snd (r_validatorMempool r)) = [] \<or>
     (\<exists>u. filter (\<lambda>v. tv_from v = tv_from t) (map snd (r_validatorMempool r)) = [u] \<and>
        TxValidator_getFunctor u \<noteq> TxValidator_getFunctor t)"
  using add unfolding addValidatorTx_def participates_eq [OF len]
  by (auto simp: Let_def pool_add_def bindR_def split: if_splits list.splits sum.splits bool.splits)

lemma pool_ok_add:
  assumes len: "4 < length (r_randomList r)" and ok: "pool_ok cr h r" and add: "addValidatorTx cr h t r = (r', res)"
  shows "pool_ok cr h r'"
  using len add
proof (cases rule: addValidatorTx_cases)
  case 1
  then show ?thesis using ok by simp
next
  case 2
  let ?pool = "r_validatorMempool r"
  define old where "old = filter (\<lambda>v. tv_from v = tv_from t) (map snd ?pool)"
  note shape = 2(6) [folded old_def]
  then have "length old \<le> 1" by auto
  then have one: "length (filter (\<lambda>v. tv_from v = tv_from t) (map snd ?pool)) \<le> 1" unfolding old_def .
  have new: "TxValidator_getFunctor (snd p) \<noteq> TxValidator_getFunctor t" if "p \<in> set ?pool" "tv_from (snd p) = tv_from t" for p
  proof -
    have "snd p \<in> set old" using that by (auto simp: old_def)
    then show ?thesis using shape by auto
  qed
  have pool: "r_validatorMempool r' = (TxValidator_hash cr True t, t) # ?pool" "r_randomList r' = r_randomList r"
    by (simp_all add: 2(1))
  have ok': "distinct (map fst ?pool)" "\<And>a. length (filter (\<lambda>t. tv_from t = a) (map snd ?pool)) \<le> 2"
    "\<forall>p\<in>set ?pool. fst p = TxValidator_hash cr True (snd p) \<and> tv_nHeight (snd p) = h + 1 \<and>
        tv_from (snd p) \<in> set (take 4 (drop 1 (r_randomList r)))"
    "\<forall>p\<in>set ?pool. \<forall>q\<in>set ?pool. tv_from (snd p) = tv_from (snd q) \<and> p \<noteq> q \<longrightarrow>
        TxValidator_getFunctor (snd p) \<noteq> TxValidator_getFunctor (snd q)"
    using ok by (simp_all only: pool_ok_def) blast+
  show ?thesis
    unfolding pool_ok_def pool
  proof (intro conjI)
    show "distinct (map fst ((TxValidator_hash cr True t, t) # ?pool))" using ok'(1) 2(3) by simp
    show "\<forall>p\<in>set ((TxValidator_hash cr True t, t) # ?pool). fst p = TxValidator_hash cr True (snd p) \<and>
        tv_nHeight (snd p) = h + 1 \<and> tv_from (snd p) \<in> set (take 4 (drop 1 (r_randomList r)))"
      using ok'(3) 2(4,5) by simp
    show "\<forall>a. length (filter (\<lambda>t. tv_from t = a) (map snd ((TxValidator_hash cr True t, t) # ?pool))) \<le> 2"
    proof
      fix a
      show "length (filter (\<lambda>t. tv_from t = a) (map snd ((TxValidator_hash cr True t, t) # ?pool))) \<le> 2"
        using one ok'(2) [of a] by (cases "tv_from t = a") simp_all
    qed
    show "\<forall>p\<in>set ((TxValidator_hash cr True t, t) # ?pool). \<forall>q\<in>set ((TxValidator_hash cr True t, t) # ?pool).
        tv_from (snd p) = tv_from (snd q) \<and> p \<noteq> q \<longrightarrow> TxValidator_getFunctor (snd p) \<noteq> TxValidator_getFunctor (snd q)"
    proof (intro ballI impI)
      fix p q
      assume "p \<in> set ((TxValidator_hash cr True t, t) # ?pool)" "q \<in> set ((TxValidator_hash cr True t, t) # ?pool)"
        "tv_from (snd p) = tv_from (snd q) \<and> p \<noteq> q"
      then consider "p \<in> set ?pool" "q \<in> set ?pool" | "p \<in> set ?pool" "snd q = t" | "q \<in> set ?pool" "snd p = t" by auto
      then show "TxValidator_getFunctor (snd p) \<noteq> TxValidator_getFunctor (snd q)"
      proof cases
        case 1
        then show ?thesis using ok'(4) \<open>tv_from (snd p) = tv_from (snd q) \<and> p \<noteq> q\<close> by blast
      next
        case 2
        then show ?thesis using new [of p] \<open>tv_from (snd p) = tv_from (snd q) \<and> p \<noteq> q\<close> by simp
      next
        case 3
        then show ?thesis using new [of q] \<open>tv_from (snd p) = tv_from (snd q) \<and> p \<noteq> q\<close> by metis
      qed
    qed
  qed
qed

lemma pool_ok_empty: "r_validatorMempool r = [] \<Longrightarrow> pool_ok cr h r"
  by (simp add: pool_ok_def)

lemma length_by_key:
  assumes "finite S" "f ` set xs \<subseteq> S"
  shows "length xs = (\<Sum>a\<in>S. length (filter (\<lambda>x. f x = a) xs))"
  using assms(2)
proof (induction xs)
  case (Cons x xs)
  have "(\<Sum>a\<in>S. length (filter (\<lambda>y. f y = a) (x # xs))) = (\<Sum>a\<in>S. (if f x = a then 1 else 0) + length (filter (\<lambda>y. f y = a) xs))"
    by (rule sum.cong) auto
  then show ?case using Cons assms(1) by (simp add: sum.distrib)
qed simp

lemma pool_bound:
  assumes "pool_ok cr h r"
  shows "length (r_validatorMempool r) \<le> 2 * minValidators"
proof -
  let ?S = "set (take 4 (drop 1 (r_randomList r)))" and ?xs = "map snd (r_validatorMempool r)"
  have "length ?xs = (\<Sum>a\<in>?S. length (filter (\<lambda>t. tv_from t = a) ?xs))"
    using assms by (intro length_by_key) (auto simp: pool_ok_def)
  also have "\<dots> \<le> (\<Sum>a\<in>?S. 2)" using assms by (intro sum_mono) (simp add: pool_ok_def)
  also have "\<dots> \<le> 2 * 4" using card_length [of "take 4 (drop 1 (r_randomList r))"] by simp
  finally show ?thesis by (simp add: minValidators_def)
qed

subsection \<open>Reachable states\<close>

text \<open>
  The node and the height of its latest block: construction from a database with enough validators, arriving validator
  transactions, processing of a finalized block (after which the storage moves on to another height), clearing.
\<close>

inductive rdpos_reach :: "crypto \<Rightarrow> rdpos \<Rightarrow> uint64 \<Rightarrow> bool" for cr where
  init: "rdPoS_new cr db seed = Inr r \<Longrightarrow> minValidators < length (r_validators r) \<Longrightarrow> length (r_validators r) < 2 ^ 64 \<Longrightarrow>
    rdpos_reach cr r h"
| add: "rdpos_reach cr r h \<Longrightarrow> rdpos_reach cr (fst (addValidatorTx cr h t r)) h"
| process: "rdpos_reach cr r h \<Longrightarrow> b_finalized b \<Longrightarrow> rdpos_reach cr (fst (processBlock cr b r)) h'"
| clear: "rdpos_reach cr r h \<Longrightarrow> rdpos_reach cr (clearMempool r) h"

definition rdpos_inv :: "crypto \<Rightarrow> uint64 \<Rightarrow> rdpos \<Rightarrow> bool" where
  "rdpos_inv cr h r \<longleftrightarrow> minValidators < length (r_validators r) \<and> length (r_validators r) < 2 ^ 64 \<and>
     mset (r_randomList r) = mset (r_validators r) \<and> pool_ok cr h r"

lemma rdpos_inv_length: "rdpos_inv cr h r \<Longrightarrow> 4 < length (r_randomList r)"
  using mset_eq_length [of "r_randomList r" "r_validators r"] by (simp add: rdpos_inv_def minValidators_def)

lemma rdpos_inv_add: "rdpos_inv cr h r \<Longrightarrow> rdpos_inv cr h (fst (addValidatorTx cr h t r))"
proof -
  assume inv: "rdpos_inv cr h r"
  note len = rdpos_inv_length [OF inv]
  obtain r' res where add: "addValidatorTx cr h t r = (r', res)" by fastforce
  have "pool_ok cr h r'" using inv by (intro pool_ok_add [OF len _ add]) (simp add: rdpos_inv_def)
  moreover have "r_validators r' = r_validators r \<and> r_randomList r' = r_randomList r"
    using len add by (cases rule: addValidatorTx_cases) simp_all
  ultimately show ?thesis using inv add by (simp add: rdpos_inv_def)
qed

lemma shuffle_ok:
  assumes "\<And>x. length (sha3 cr x) = 32" "length v < 2 ^ 64"
  obtains v' s where "shuffle cr v seed = Inr (v', s)" "mset v' = mset v"
  using shuffle_loop_ok [OF assms(1), of 0 v seed] assms(2) that by (auto simp: shuffle_def)

lemma rdpos_inv_process:
  assumes "\<And>x. length (sha3 cr x) = 32" "rdpos_inv cr h r" "b_finalized b"
  shows "rdpos_inv cr h' (fst (processBlock cr b r))" "snd (processBlock cr b r) = Inr (b_blockRandomness b)"
proof -
  have len: "length (r_validators r) < 2 ^ 64" using assms(2) by (simp add: rdpos_inv_def)
  obtain rl s where sh: "shuffle cr (r_validators r) (b_blockRandomness b) = Inr (rl, s)" "mset rl = mset (r_validators r)"
    using shuffle_ok [OF assms(1) len] by metis
  show "rdpos_inv cr h' (fst (processBlock cr b r))" "snd (processBlock cr b r) = Inr (b_blockRandomness b)"
    using assms(2,3) sh by (simp_all add: processBlock_def Let_def rdpos_inv_def pool_ok_empty)
qed

lemma rdpos_reach_inv:
  assumes sha: "\<And>x. length (sha3 cr x) = 32"
  shows "rdpos_reach cr r h \<Longrightarrow> rdpos_inv cr h r"
proof (induction rule: rdpos_reach.induct)
  case (init db seed r h)
  then obtain vs rl s where "shuffle cr vs seed = Inr (rl, s)" "r = \<lparr>r_validators = vs, r_randomList = rl, r_validatorMempool = [],
      r_randomGen = s, r_bestRandomSeed = seed\<rparr>"
    by (auto simp: rdPoS_new_def bindR_eq_Inr split: if_splits)
  then show ?case using init shuffle_ok [OF sha, of vs seed] by (auto simp: rdpos_inv_def pool_ok_empty)
next
  case (add r h t)
  then show ?case by (simp add: rdpos_inv_add)
next
  case (process r h b h')
  then show ?case using rdpos_inv_process(1) [OF sha] by blast
next
  case (clear r h)
  then show ?case by (simp add: rdpos_inv_def clearMempool_def pool_ok_empty)
qed

subsection \<open>Seeds\<close>

lemma parseTxSeedList_concat:
  "txs \<noteq> [] \<Longrightarrow> parseTxSeedList cr txs =
     sha3 cr (concat (map (\<lambda>t. drop 4 (tv_data t)) (filter (\<lambda>t. getTxValidatorFunction t = RANDOMSEED) txs)))"
proof -
  have "foldl (\<lambda>seed t. if getTxValidatorFunction t = RANDOMSEED then seed @ drop 4 (tv_data t) else seed) s txs =
      s @ concat (map (\<lambda>t. drop 4 (tv_data t)) (filter (\<lambda>t. getTxValidatorFunction t = RANDOMSEED) txs))" for s
    by (induction txs arbitrary: s) auto
  then show "txs \<noteq> [] \<Longrightarrow> ?thesis" by (simp add: parseTxSeedList_def)
qed

lemma committed_functions:
  assumes "committed cr h s"
  shows "getTxValidatorFunction h = RANDOMHASH" "getTxValidatorFunction s = RANDOMSEED"
    "tv_data h = [0xcf, 0xff, 0xe7, 0x46] @ sha3 cr (drop 4 (tv_data s))" "length (drop 4 (tv_data s)) = 32"
  using assms by (auto simp: committed_def function_iff)

lemma list_of_8: "length xs = 8 \<Longrightarrow> xs = [xs ! 0, xs ! 1, xs ! 2, xs ! 3, xs ! 4, xs ! 5, xs ! 6, xs ! 7]"
  by (rule nth_equalityI) (auto simp: less_Suc_eq numeral_eq_Suc)

lemma accepted_seed:
  assumes "accepted cr rl b"
  shows "parseTxSeedList cr (b_txValidators b) = sha3 cr (concat (map (\<lambda>i. drop 4 (tv_data (b_txValidators b ! (i + 4)))) [0, 1, 2, 3]))"
proof -
  let ?txs = "b_txValidators b"
  have com: "committed cr (?txs ! 0) (?txs ! 4)" "committed cr (?txs ! 1) (?txs ! 5)" "committed cr (?txs ! 2) (?txs ! 6)"
    "committed cr (?txs ! 3) (?txs ! 7)" and len: "length ?txs = 8"
    using assms unfolding accepted_def by (auto dest: spec [of _ 0] spec [of _ 1] spec [of _ 2] spec [of _ 3])
  have "filter (\<lambda>t. getTxValidatorFunction t = RANDOMSEED) ?txs = [?txs ! 4, ?txs ! 5, ?txs ! 6, ?txs ! 7]"
    by (subst list_of_8 [OF len]) (simp add: com [THEN committed_functions(1)] com [THEN committed_functions(2)] del: One_nat_def)
  moreover have "?txs \<noteq> []" using len by auto
  ultimately show ?thesis by (simp add: parseTxSeedList_concat)
qed

subsection \<open>Honest transactions\<close>

lemma functor_literals:
  "Hex_toBytes ''0xcfffe746'' = Inr [0xcf, 0xff, 0xe7, 0x46]" "Hex_toBytes ''0x6fc5a2d6'' = Inr [0x6f, 0xc5, 0xa2, 0xd6]"
  by code_simp+

lemma TxValidator_new_fields:
  assumes "TxValidator_new cr from data chainId nHeight key = Inr t"
  shows "tv_from t = from" "tv_data t = data" "tv_nHeight t = nHeight"
proof -
  from assms have "tv_from t = from \<and> tv_data t = data \<and> tv_nHeight t = nHeight"
    by (rule TxValidator_new_ok) simp
  then show "tv_from t = from" "tv_data t = data" "tv_nHeight t = nHeight" by simp_all
qed

lemma create_txs_fields:
  assumes "create_txs cr key chainId nHeight me randomness = Inr (Some (h, s))"
  shows "tv_from h = me" "tv_from s = me" "tv_nHeight h = nHeight" "tv_nHeight s = nHeight"
    "tv_data h = [0xcf, 0xff, 0xe7, 0x46] @ sha3 cr randomness" "tv_data s = [0x6f, 0xc5, 0xa2, 0xd6] @ randomness"
  using assms unfolding create_txs_def Let_def functor_literals
  by (auto simp: bindR_eq_Inr dest: TxValidator_new_fields split: if_splits)

lemma create_txs_committed:
  assumes "create_txs cr key chainId nHeight me randomness = Inr (Some (h, s))" "length randomness = 32"
    "length (sha3 cr randomness) = 32"
  shows "committed cr h s"
  using create_txs_fields [OF assms(1)] assms(2,3) by (auto simp: committed_def)

section \<open>Properties\<close>

text \<open>
  C9. What rdPoS accepts: with the five validators of a round present, \<open>validateBlock\<close> ends without reading outside a
  vector and returns true exactly for a finalized block signed by the first validator of the random list, with eight
  validator transactions of the height of the block, of which the first four are commitments of the next four validators
  in order, with different hashes, and the last four are the seeds that open them.
\<close>

theorem validateBlock_correct:
  assumes "5 \<le> length (r_randomList r)"
  shows "\<exists>ok. validateBlock cr r b = Inr ok \<and> (ok \<longleftrightarrow> accepted cr (r_randomList r) b)"
  using validateBlock_eq [OF assms] by simp

text \<open>
  C35. The randomness of an accepted block is the hash of the four seeds that the validators of the round committed to: for
  a sealed block that \<open>validateBlock\<close> accepts it is the hash of the four 32-byte seeds, each of which hashes to the
  commitment of the same validator.
\<close>

theorem accepted_randomness:
  assumes "5 \<le> length (r_randomList r)" "sealed cr b" "validateBlock cr r b = Inr True"
  shows "\<exists>s1 s2 s3 s4. b_blockRandomness b = sha3 cr (s1 @ s2 @ s3 @ s4) \<and> (\<forall>(i, s)\<in>set (zip [0..<4] [s1, s2, s3, s4]).
    length s = 32 \<and> tv_from (b_txValidators b ! i) = r_randomList r ! (i + 1) \<and>
    tv_data (b_txValidators b ! i) = [0xcf, 0xff, 0xe7, 0x46] @ sha3 cr s)"
proof -
  let ?txs = "b_txValidators b" and ?rl = "r_randomList r"
  define s where "s i = drop 4 (tv_data (?txs ! (i + 4)))" for i :: nat
  have acc: "accepted cr ?rl b" using validateBlock_eq [OF assms(1), of cr b] assms(3) by simp
  have "b_blockRandomness b = sha3 cr (s 0 @ s 1 @ s 2 @ s 3)"
    using assms(2) accepted_seed [OF acc] by (simp add: sealed_def s_def)
  moreover have "length (s i) = 32 \<and> tv_from (?txs ! i) = ?rl ! (i + 1) \<and> tv_data (?txs ! i) = [0xcf, 0xff, 0xe7, 0x46] @ sha3 cr (s i)"
    if "i < 4" for i
    using acc that committed_functions(3,4) [of cr "?txs ! i" "?txs ! (i + 4)"] by (simp add: accepted_def s_def)
  ultimately show ?thesis
    by (intro exI [of _ "s 0"] exI [of _ "s 1"] exI [of _ "s 2"] exI [of _ "s 3"])
       (simp add: upt_rec numeral_eq_Suc)
qed

text \<open>
  C17. In every reachable state of a node with more than four validators, the random list is a permutation of the validators
  and the pool is sound: it holds at most eight transactions, each under its hash, for the next height, from one of the four
  participants of the round, at most two of each participant and with different functors. No step reads outside the random
  list.
\<close>

theorem rdpos_pool_invariant:
  assumes "\<And>x. length (sha3 cr x) = 32" "rdpos_reach cr r h"
  shows "mset (r_randomList r) = mset (r_validators r) \<and> pool_ok cr h r \<and> length (r_validatorMempool r) \<le> 2 * minValidators \<and>
    (\<exists>p. participates (r_randomList r) a [1..<minValidators + 1] = Inr p)"
proof -
  note inv = rdpos_reach_inv [OF assms]
  then have "pool_ok cr h r" "mset (r_randomList r) = mset (r_validators r)" by (simp_all add: rdpos_inv_def)
  then show ?thesis using pool_bound [of cr h r] participates_eq [OF rdpos_inv_length [OF inv]] by simp
qed

text \<open>A second transaction of less than four bytes of data is read outside its bounds.\<close>

lemma addValidatorTx_short_data:
  assumes "r_randomList r = [a0, a1, a2, a3, a4]" "r_validatorMempool r = [(k, u)]" "tv_from u = a1" "tv_from t = a1"
    "tv_nHeight t = h + 1" "TxValidator_hash cr True t \<noteq> k" "length (tv_data u) = 36" "length (tv_data t) < 4"
  shows "addValidatorTx cr h t r = (r, Inl UndefinedBehaviour)"
proof -
  have "participates (r_randomList r) (tv_from t) [1..<minValidators + 1] = Inr True"
    using participates_eq [of "r_randomList r" "tv_from t"] assms(1,4) by simp
  then show ?thesis using assms by (simp add: addValidatorTx_def Let_def TxValidator_getFunctor_def subspan_def)
qed

subsection \<open>The validator set\<close>

text \<open>The type invariant of \<^verbatim>\<open>std::set<Validator>\<close>: 20-byte addresses in strictly increasing order.\<close>

definition validator_set :: "Address list \<Rightarrow> bool" where
  "validator_set vs \<longleftrightarrow> sorted_wrt addr_less vs \<and> (\<forall>v\<in>set vs. length v = 20)"

lemma addr_less_trans: "addr_less a b \<Longrightarrow> addr_less b c \<Longrightarrow> length a = length b \<Longrightarrow> length b = length c \<Longrightarrow> addr_less a c"
proof (induction a b arbitrary: c rule: addr_less.induct)
  case (3 x xs y ys)
  then obtain z zs where "c = z # zs" by (cases c) auto
  with 3 show ?case by (auto split: if_splits)
qed auto

lemma set_set_insert: "length a = 20 \<Longrightarrow> \<forall>v\<in>set vs. length v = 20 \<Longrightarrow> set (set_insert a vs) = insert a (set vs)"
proof (induction vs)
  case (Cons b bs)
  then show ?case using addr_less_total [of a b] by auto
qed simp

lemma validator_set_insert: "length a = 20 \<Longrightarrow> validator_set vs \<Longrightarrow> validator_set (set_insert a vs)"
proof (induction vs)
  case (Cons b bs)
  then have b: "length b = 20" "\<forall>v\<in>set bs. addr_less b v \<and> length v = 20" and bs: "validator_set bs"
    by (auto simp: validator_set_def)
  have "validator_set (set_insert a bs)" using Cons bs by simp
  moreover have "set (set_insert a bs) = insert a (set bs)" using set_set_insert Cons.prems(1) b(2) by blast
  moreover have "addr_less a b \<Longrightarrow> \<forall>v\<in>set bs. addr_less a v"
    using addr_less_trans [of a b] Cons.prems(1) b by auto
  ultimately show ?case using Cons.prems b bs by (auto simp: validator_set_def)
qed (simp add: validator_set_def)

lemma validator_set_load: "load_validators db vs = Inr vs' \<Longrightarrow> validator_set vs \<Longrightarrow> validator_set vs'"
  by (induction db arbitrary: vs) (auto simp: validator_set_insert split: if_splits)

lemma set_insert_last: "\<forall>v\<in>set vs. addr_less v a \<Longrightarrow> set_insert a vs = vs @ [a]"
  by (induction vs) (auto dest: addr_less_antisym)

lemma load_sorted: "validator_set (vs @ db) \<Longrightarrow> load_validators db vs = Inr (vs @ db)"
proof (induction db arbitrary: vs)
  case (Cons a db)
  then have "set_insert a vs = vs @ [a]" "length a = 20"
    by (auto simp: validator_set_def sorted_wrt_append intro!: set_insert_last)
  then show ?case using Cons.IH [of "vs @ [a]"] Cons.prems by simp
qed simp

lemma rdPoS_new_validator_set: "rdPoS_new cr db seed = Inr r \<Longrightarrow> validator_set (r_validators r) \<and> r_validators r \<noteq> []"
proof -
  assume "rdPoS_new cr db seed = Inr r"
  then obtain db' where db: "db' \<noteq> []" "load_validators db' [] = Inr (r_validators r)"
    by (auto simp: rdPoS_new_def bindR_eq_Inr split: if_splits)
  have "set_insert a vs \<noteq> []" for a vs by (cases vs) auto
  then have "load_validators d vs = Inr vs' \<Longrightarrow> d \<noteq> [] \<or> vs \<noteq> [] \<Longrightarrow> vs' \<noteq> []" for d vs vs'
    by (induction d arbitrary: vs) (auto split: if_splits)
  then show ?thesis using db validator_set_load [OF db(2)] by (auto simp: validator_set_def)
qed

text \<open>
  C36. A node that saves its validators and starts again has the same validators: the set is stored under different keys,
  and loading the stored values gives the same sequence of 20-byte addresses in strictly increasing order. A node that
  starts with an empty database has the five validators of the source.
\<close>

theorem rdPoS_restart:
  assumes "\<And>x. length (sha3 cr x) = 32" "rdPoS_new cr db seed = Inr r" "length (r_validators r) < 2 ^ 64"
  shows "validator_set (r_validators r) \<and> distinct (map fst (rdPoS_save r)) \<and>
    (\<exists>r'. rdPoS_new cr (map snd (rdPoS_save r)) seed' = Inr r' \<and> r_validators r' = r_validators r) \<and>
    (db = [] \<longrightarrow> length (r_validators r) = 5)"
proof -
  note vs = rdPoS_new_validator_set [OF assms(2)]
  have snd: "map snd (rdPoS_save r) = r_validators r" by (simp add: rdPoS_save_def)
  have "load_validators (r_validators r) [] = Inr (r_validators r)" using load_sorted [of "[]"] vs by simp
  moreover obtain rl s where "shuffle cr (r_validators r) seed' = Inr (rl, s)"
    using shuffle_ok [OF assms(1,3)] by metis
  ultimately have "\<exists>r'. rdPoS_new cr (map snd (rdPoS_save r)) seed' = Inr r' \<and> r_validators r' = r_validators r"
    using vs by (simp add: rdPoS_new_def initializeBlockchain_def snd)
  moreover have "distinct (map fst (rdPoS_save r))"
  proof -
    have "inj_on (\<lambda>i. uint64ToBytes (of_nat i)) {0..<length (r_validators r)}"
    proof (rule inj_onI)
      fix i j assume ij: "i \<in> {0..<length (r_validators r)}" "j \<in> {0..<length (r_validators r)}"
        and "uint64ToBytes (of_nat i) = uint64ToBytes (of_nat j)"
      then have "unat (of_nat i :: uint64) = unat (of_nat j :: uint64)" by (simp add: c64.enc_inj)
      then show "i = j" using ij assms(3) by (simp add: unat_of_nat_eq)
    qed
    then show ?thesis by (simp add: rdPoS_save_def distinct_map)
  qed
  moreover have "length (r_validators r) = 5" if "db = []"
  proof -
    have "bindR (all_toBytes default_validators) (\<lambda>d. bindR (load_validators d []) (\<lambda>vs. Inr (d \<noteq> [] \<and> length vs = 5))) = Inr True"
      by code_simp
    then show ?thesis
      using assms(2) that by (auto simp: rdPoS_new_def initializeBlockchain_def bindR_eq_Inr split: if_splits)
  qed
  ultimately show ?thesis using vs by blast
qed

section \<open>Witnesses\<close>

definition demo_node :: "rdpos" where
  "demo_node = (case rdPoS_new demo_crypto [] (replicate 32 0) of Inr r \<Rightarrow> r | Inl _ \<Rightarrow> undefined)"

lemma demo_sha: "length (sha3 demo_crypto x) = 32"
  by (simp add: demo_crypto_def)

lemma demo_node_new:
  "rdPoS_new demo_crypto [] (replicate 32 0) = Inr demo_node" "length (r_validators demo_node) = 5"
proof -
  have "bindR (all_toBytes default_validators) (\<lambda>d. bindR (load_validators d []) (\<lambda>vs. Inr (d \<noteq> [] \<and> length vs = 5))) = Inr True"
    by code_simp
  then obtain d vs where d: "all_toBytes default_validators = Inr d" "load_validators d [] = Inr vs" "d \<noteq> []" "length vs = 5"
    by (auto simp: bindR_eq_Inr)
  have "length vs < 2 ^ 64" using d(4) by simp
  then obtain rl s where "shuffle demo_crypto vs (replicate 32 0) = Inr (rl, s)"
    by (rule shuffle_ok [OF demo_sha])
  then show "rdPoS_new demo_crypto [] (replicate 32 0) = Inr demo_node" "length (r_validators demo_node) = 5"
    using d by (simp_all add: demo_node_def rdPoS_new_def initializeBlockchain_def)
qed

theorem rdPoS_restart_witness:
  "validator_set (r_validators demo_node) \<and> length (r_validators demo_node) = 5"
  using rdPoS_restart [OF demo_sha demo_node_new(1), of "[]"] demo_node_new(2) by simp

theorem rdpos_pool_invariant_witness:
  "length (r_validatorMempool (fst (addValidatorTx demo_crypto 0 demo_vote demo_node))) \<le> 8"
proof -
  have "rdpos_reach demo_crypto demo_node 0"
    by (rule rdpos_reach.init [OF demo_node_new(1)]) (simp_all add: demo_node_new(2) minValidators_def)
  from rdpos_pool_invariant [OF demo_sha rdpos_reach.add [OF this]] show ?thesis by (simp add: minValidators_def)
qed

text \<open>A round of five validators whose four participants commit to the seeds of equal bytes 1 to 4.\<close>

definition demo_round_crypto :: crypto where
  "demo_round_crypto = demo_crypto\<lparr>sha3 := \<lambda>x. if length x = 32 then x else take 32 (drop 6 (x @ replicate 38 0))\<rparr>"

definition demo_round_tx :: "bytes \<Rightarrow> byte \<Rightarrow> tx_validator" where
  "demo_round_tx f i = \<lparr>tv_from = replicate 20 i, tv_data = f @ replicate 32 i, tv_chainId = 1, tv_nHeight = 7, tv_v = 37,
     tv_r = 1, tv_s = 1\<rparr>"

definition demo_round_block :: block where
  "demo_round_block = (let cr = demo_round_crypto;
     txs = map (demo_round_tx [0xcf, 0xff, 0xe7, 0x46]) [1, 2, 3, 4] @ map (demo_round_tx [0x6f, 0xc5, 0xa2, 0xd6]) [1, 2, 3, 4];
     b = (Block_new (replicate 32 1) 5 7)\<lparr>b_txValidators := txs, b_txMerkleRoot := tx_root cr [],
       b_validatorMerkleRoot := validator_root cr txs, b_blockRandomness := parseTxSeedList cr txs,
       b_validatorSig := makeSig 1 1 0, b_finalized := True\<rparr>
   in b\<lparr>b_validatorPubKey := recover cr (makeSig 1 1 0) (Block_hash cr b)\<rparr>)"

definition demo_round :: rdpos where
  "demo_round = \<lparr>r_validators = [], r_randomList = toAddress demo_round_crypto (b_validatorPubKey demo_round_block) #
     map (replicate 20) [1, 2, 3, 4], r_validatorMempool = [], r_randomGen = [], r_bestRandomSeed = []\<rparr>"

lemma demo_round_accepted: "accepted demo_round_crypto (r_randomList demo_round) demo_round_block"
  "sealed demo_round_crypto demo_round_block"
proof -
  let ?h = "demo_round_tx [0xcf, 0xff, 0xe7, 0x46]" and ?s = "demo_round_tx [0x6f, 0xc5, 0xa2, 0xd6]"
  have txs: "b_txValidators demo_round_block = map ?h [1, 2, 3, 4] @ map ?s [1, 2, 3, 4]"
    by (simp add: demo_round_block_def Let_def)
  have "TxValidator_total_size True (?h i) = 43" for i
    by (simp add: TxValidator_total_size_def demo_round_tx_def data_size_def uint_size_def bytesRequired_step)
  then have hash: "TxValidator_hash demo_round_crypto True (?h i) = replicate 32 i" for i
    by (simp add: TxValidator_hash_def demo_round_crypto_def TxValidator_rlpSerialize_def put_list_header_def put_data_def
        demo_round_tx_def)
  have com: "committed demo_round_crypto (?h i) (?s i)" for i
    by (auto simp: committed_def demo_round_tx_def demo_round_crypto_def)
  have four: "(\<forall>i<4. P i) \<longleftrightarrow> P 0 \<and> P 1 \<and> P 2 \<and> P 3" for P :: "nat \<Rightarrow> bool"
    by (auto simp: less_Suc_eq numeral_eq_Suc)
  have field: "tv_from (demo_round_tx f i) = replicate 20 i" "tv_nHeight (demo_round_tx f i) = 7" for f i
    by (simp_all add: demo_round_tx_def)
  have b: "b_finalized demo_round_block" "b_nHeight demo_round_block = 7"
    by (simp_all add: demo_round_block_def Let_def Block_new_def)
  show "accepted demo_round_crypto (r_randomList demo_round) demo_round_block"
    unfolding accepted_def txs four by (simp add: demo_round_def hash field b com replicate_eq_replicate)
  show "sealed demo_round_crypto demo_round_block"
    by (simp add: sealed_def demo_round_block_def Let_def Block_new_def Block_hash_def serializeHeader_def)
qed

theorem validateBlock_correct_witness: "validateBlock demo_round_crypto demo_round demo_round_block = Inr True"
  using validateBlock_correct [of demo_round demo_round_crypto demo_round_block] demo_round_accepted(1)
  by (simp add: demo_round_def)

theorem accepted_randomness_witness:
  "\<exists>s1 s2 s3 s4. b_blockRandomness demo_round_block = sha3 demo_round_crypto (s1 @ s2 @ s3 @ s4) \<and> length s1 = 32"
proof -
  have len: "5 \<le> length (r_randomList demo_round)" by (simp add: demo_round_def)
  then have "validateBlock demo_round_crypto demo_round demo_round_block = Inr True"
    using validateBlock_eq demo_round_accepted(1) by simp
  from accepted_randomness [OF len demo_round_accepted(2) this] show ?thesis by (auto simp: upt_rec)
qed

end
