(* ===== verification/Storage.thy ===== *)
theory Storage
  imports Db Block
begin

text \<open>
  The history of the chain (\<^verbatim>\<open>core/storage.h\<close>, \<^verbatim>\<open>core/storage.cpp\<close>): the recent blocks with their indexes, the
  caches, lookup through chain, cache and database, loading and saving. The locks make every operation atomic; the
  periodic save thread of the source does nothing yet. \<open>R\<close> is the database library and \<open>d\<close> its contents; \<open>thrNum\<close> is the
  number of hardware threads that parsing a block uses.
\<close>

section \<open>Definitions\<close>

datatype StorageStatus = NotFound | OnChain | OnCache | OnDB

type_synonym tx_entry = "tx_block option \<times> Hash \<times> uint64 \<times> uint64"

record 'd storage =
  st_db :: 'd
  st_chain :: "block list"
  st_blockByHash :: "Hash \<rightharpoonup> block"
  st_txByHash :: "Hash \<rightharpoonup> Hash \<times> uint64 \<times> uint64"
  st_blockHeightByHash :: "Hash \<rightharpoonup> uint64"
  st_blockHashByHeight :: "uint64 \<rightharpoonup> Hash"
  st_cachedBlocks :: "Hash \<rightharpoonup> block"
  st_cachedTxs :: "Hash \<rightharpoonup> tx_entry"

text \<open>\<^verbatim>\<open>unordered_map::insert\<close> keeps an entry that is already there.\<close>

definition map_insert :: "'k \<Rightarrow> 'v \<Rightarrow> ('k \<rightharpoonup> 'v) \<Rightarrow> 'k \<rightharpoonup> 'v" where
  "map_insert k v m = (if m k = None then m(k \<mapsto> v) else m)"

fun index_txs :: "crypto \<Rightarrow> block \<Rightarrow> nat \<Rightarrow> tx_block list \<Rightarrow> (Hash \<rightharpoonup> Hash \<times> uint64 \<times> uint64) \<Rightarrow> Hash \<rightharpoonup> Hash \<times> uint64 \<times> uint64" where
  "index_txs cr b i [] m = m"
| "index_txs cr b i (t # ts) m =
     index_txs cr b (i + 1) ts (map_insert (TxBlock_hash cr True t) (Block_hash cr b, of_nat i, b_nHeight b) m)"

definition index_block :: "crypto \<Rightarrow> block \<Rightarrow> 'd storage \<Rightarrow> 'd storage" where
  "index_block cr b s =
     s\<lparr>st_blockByHash := map_insert (Block_hash cr b) b (st_blockByHash s),
       st_blockHashByHeight := map_insert (b_nHeight b) (Block_hash cr b) (st_blockHashByHeight s),
       st_blockHeightByHash := map_insert (Block_hash cr b) (b_nHeight b) (st_blockHeightByHash s),
       st_txByHash := index_txs cr b 0 (b_txs b) (st_txByHash s)\<rparr>"

definition pushBackInternal :: "crypto \<Rightarrow> block \<Rightarrow> ('d storage, unit) sres" where
  "pushBackInternal cr b s =
     (if st_chain s \<noteq> [] \<and> Block_hash cr (last (st_chain s)) \<noteq> b_prevBlockHash b
      then (s, Inl (RuntimeError ''does not have the correct previous block hash.''))
      else if st_chain s \<noteq> [] \<and> b_nHeight b \<noteq> b_nHeight (last (st_chain s)) + 1
      then (s, Inl (RuntimeError ''does not have the correct height.''))
      else (index_block cr b (s\<lparr>st_chain := st_chain s @ [b]\<rparr>), Inr ()))"

definition pushFrontInternal :: "crypto \<Rightarrow> block \<Rightarrow> ('d storage, unit) sres" where
  "pushFrontInternal cr b s =
     (if st_chain s \<noteq> [] \<and> b_prevBlockHash (hd (st_chain s)) \<noteq> Block_hash cr b
      then (s, Inl (RuntimeError ''does not have the correct previous block hash.''))
      else if st_chain s \<noteq> [] \<and> b_nHeight b \<noteq> b_nHeight (hd (st_chain s)) - 1
      then (s, Inl (RuntimeError ''does not have the correct height.''))
      else (index_block cr b (s\<lparr>st_chain := b # st_chain s\<rparr>), Inr ()))"

definition unindex :: "crypto \<Rightarrow> block \<Rightarrow> 'd storage \<Rightarrow> 'd storage" where
  "unindex cr b s =
     s\<lparr>st_txByHash := foldl (\<lambda>m t. m(TxBlock_hash cr True t := None)) (st_txByHash s) (b_txs b),
       st_blockByHash := (st_blockByHash s)(Block_hash cr b := None)\<rparr>"

definition popBack :: "crypto \<Rightarrow> ('d storage, unit) sres" where
  "popBack cr s = (if st_chain s = [] then (s, Inl UndefinedBehaviour)
     else ((unindex cr (last (st_chain s)) s)\<lparr>st_chain := butlast (st_chain s)\<rparr>, Inr ()))"

definition popFront :: "crypto \<Rightarrow> ('d storage, unit) sres" where
  "popFront cr s = (if st_chain s = [] then (s, Inl UndefinedBehaviour)
     else ((unindex cr (hd (st_chain s)) s)\<lparr>st_chain := tl (st_chain s)\<rparr>, Inr ()))"

definition latest :: "'d storage \<Rightarrow> block res" where
  "latest s = (if st_chain s = [] then Inl UndefinedBehaviour else Inr (last (st_chain s)))"

definition currentChainSize :: "'d storage \<Rightarrow> uint64 res" where
  "currentChainSize s = bindR (latest s) (\<lambda>b. Inr (b_nHeight b + 1))"

subsection \<open>Lookup of blocks\<close>

definition blockExists :: "'d rocks \<Rightarrow> Hash \<Rightarrow> 'd storage \<Rightarrow> StorageStatus" where
  "blockExists R h s =
     (if st_blockByHash s h \<noteq> None then OnChain
      else if st_cachedBlocks s h \<noteq> None then OnCache
      else if DB_has R (st_db s) h pfx_blocks then OnDB else NotFound)"

definition blockExists_height :: "uint64 \<Rightarrow> 'd storage \<Rightarrow> StorageStatus" where
  "blockExists_height height s =
     (case st_blockHashByHeight s height of
        None \<Rightarrow> NotFound
      | Some h \<Rightarrow> if st_blockByHash s h \<noteq> None then OnChain
                  else if st_cachedBlocks s h \<noteq> None then OnCache else OnDB)"

definition load_block :: "crypto \<Rightarrow> nat \<Rightarrow> 'd rocks \<Rightarrow> Hash \<Rightarrow> ('d storage, block option) sres" where
  "load_block cr thrNum R h =
     bindS (readS (\<lambda>s. DB_get R (st_db s) h pfx_blocks)) (\<lambda>data.
     bindS (liftS (Block_parse cr thrNum data)) (\<lambda>b s.
       let m = map_insert h b (st_cachedBlocks s) in (s\<lparr>st_cachedBlocks := m\<rparr>, Inr (m h))))"

definition getBlock :: "crypto \<Rightarrow> nat \<Rightarrow> 'd rocks \<Rightarrow> Hash \<Rightarrow> ('d storage, block option) sres" where
  "getBlock cr thrNum R h s =
     (case blockExists R h s of
        NotFound \<Rightarrow> (s, Inr None)
      | OnChain \<Rightarrow> (s, Inr (st_blockByHash s h))
      | OnCache \<Rightarrow> (s, Inr (st_cachedBlocks s h))
      | OnDB \<Rightarrow> load_block cr thrNum R h s)"

definition getBlock_height :: "crypto \<Rightarrow> nat \<Rightarrow> 'd rocks \<Rightarrow> uint64 \<Rightarrow> ('d storage, block option) sres" where
  "getBlock_height cr thrNum R height s =
     (case blockExists_height height s of
        NotFound \<Rightarrow> (s, Inr None)
      | OnChain \<Rightarrow> (s, Inr (st_blockByHash s (the (st_blockHashByHeight s height))))
      | OnCache \<Rightarrow> (s, Inr (st_cachedBlocks s (the (st_blockHashByHeight s height))))
      | OnDB \<Rightarrow> load_block cr thrNum R (the (st_blockHashByHeight s height)) s)"


subsection \<open>Lookup of transactions\<close>

text \<open>Skipping transactions: the size is a 32-bit integer, and so is \<^verbatim>\<open>txSize + 4\<close>.\<close>

fun skip_to_tx :: "bytes \<Rightarrow> nat \<Rightarrow> nat \<Rightarrow> nat res" where
  "skip_to_tx bs index 0 = Inr index"
| "skip_to_tx bs index (Suc n) =
     bindR (read_size bs index) (\<lambda>txSize. skip_to_tx bs (index + unat ((of_nat txSize :: uint32) + 4)) n)"

definition getTxFromBlockWithIndex :: "crypto \<Rightarrow> bytes \<Rightarrow> uint64 \<Rightarrow> tx_block res" where
  "getTxFromBlockWithIndex cr blockData txIndex =
     bindR (skip_to_tx blockData 217 (unat txIndex)) (\<lambda>index.
     bindR (read_size blockData index) (\<lambda>txSize.
     bindR (subspan blockData (index + 4) txSize) (TxBlock_parse cr)))"

definition no_tx :: tx_entry where
  "no_tx = (None, replicate 32 0, 0, 0)"

definition txExists :: "'d rocks \<Rightarrow> Hash \<Rightarrow> 'd storage \<Rightarrow> StorageStatus" where
  "txExists R tx s =
     (if st_txByHash s tx \<noteq> None then OnChain
      else if st_cachedTxs s tx \<noteq> None then OnCache
      else if DB_has R (st_db s) tx pfx_txToBlocks then OnDB else NotFound)"

text \<open>\<^verbatim>\<open>operator[]\<close> of a map inserts a default entry for a key that is missing.\<close>

definition map_index :: "'v \<Rightarrow> 'k \<Rightarrow> ('k \<rightharpoonup> 'v) \<Rightarrow> 'v \<times> ('k \<rightharpoonup> 'v)" where
  "map_index dflt k m = (case m k of Some v \<Rightarrow> (v, m) | None \<Rightarrow> (dflt, m(k \<mapsto> dflt)))"

definition cachedTx_index :: "Hash \<Rightarrow> ('d storage, tx_entry) sres" where
  "cachedTx_index h s = (let (e, m) = map_index no_tx h (st_cachedTxs s) in (s\<lparr>st_cachedTxs := m\<rparr>, Inr e))"

definition txByHash_index :: "Hash \<Rightarrow> ('d storage, Hash \<times> uint64 \<times> uint64) sres" where
  "txByHash_index h s = (let (e, m) = map_index (replicate 32 0, 0, 0) h (st_txByHash s) in (s\<lparr>st_txByHash := m\<rparr>, Inr e))"

definition heightByHash_index :: "Hash \<Rightarrow> ('d storage, uint64) sres" where
  "heightByHash_index h s =
     (let (e, m) = map_index 0 h (st_blockHeightByHash s) in (s\<lparr>st_blockHeightByHash := m\<rparr>, Inr e))"

definition cache_tx :: "Hash \<Rightarrow> tx_entry \<Rightarrow> ('d storage, tx_entry) sres" where
  "cache_tx h e s = cachedTx_index h (s\<lparr>st_cachedTxs := map_insert h e (st_cachedTxs s)\<rparr>)"

text \<open>A block of a map, dereferenced, and one of its transactions; a missing block is a null pointer.\<close>

definition tx_of :: "(Hash \<rightharpoonup> block) \<Rightarrow> Hash \<Rightarrow> uint64 \<Rightarrow> tx_block res" where
  "tx_of m h i = (case m h of None \<Rightarrow> Inl UndefinedBehaviour | Some b \<Rightarrow> at_idx (b_txs b) (unat i))"

definition getTx :: "crypto \<Rightarrow> 'd rocks \<Rightarrow> Hash \<Rightarrow> ('d storage, tx_entry) sres" where
  "getTx cr R tx s =
     (case txExists R tx s of
        NotFound \<Rightarrow> (s, Inr no_tx)
      | OnChain \<Rightarrow>
          (let (blockHash, blockIndex, blockHeight) = the (st_txByHash s tx) in
           (s, bindR (tx_of (st_blockByHash s) blockHash blockIndex) (\<lambda>transaction.
             if TxBlock_hash cr True transaction \<noteq> tx then Inl (RuntimeError ''Tx hash mismatch'')
             else Inr (Some transaction, blockHash, blockIndex, blockHeight))))
      | OnCache \<Rightarrow> cachedTx_index tx s
      | OnDB \<Rightarrow>
          (let txData = DB_get R (st_db s) tx pfx_txToBlocks in
           bindS (liftS (subspan txData 0 32)) (\<lambda>blockHash.
           bindS (liftS (bindR (subspan txData 32 4) bytesToUint32)) (\<lambda>blockIndex.
           bindS (liftS (bindR (subspan txData 36 8) bytesToUint64)) (\<lambda>blockHeight.
           bindS (liftS (getTxFromBlockWithIndex cr (DB_get R (st_db s) blockHash pfx_blocks) (ucast blockIndex))) (\<lambda>t.
           cache_tx tx (Some t, blockHash, ucast blockIndex, blockHeight))))) s))"

definition getTxByBlockHashAndIndex :: "crypto \<Rightarrow> 'd rocks \<Rightarrow> Hash \<Rightarrow> uint64 \<Rightarrow> ('d storage, tx_entry) sres" where
  "getTxByBlockHashAndIndex cr R blockHash blockIndex s =
     (case blockExists R blockHash s of
        NotFound \<Rightarrow> (s, Inr no_tx)
      | OnChain \<Rightarrow>
          bindS (liftS (tx_of (st_blockByHash s) blockHash blockIndex)) (\<lambda>transaction.
          bindS (txByHash_index (TxBlock_hash cr True transaction)) (\<lambda>(txBlockHash, txBlockIndex, txBlockHeight).
          if txBlockHash \<noteq> blockHash \<or> txBlockIndex \<noteq> blockIndex then throwS (RuntimeError ''Tx hash mismatch'')
          else retS (Some transaction, txBlockHash, txBlockIndex, txBlockHeight))) s
      | OnCache \<Rightarrow>
          bindS (liftS (tx_of (st_cachedBlocks s) blockHash blockIndex)) (\<lambda>t. cachedTx_index (TxBlock_hash cr True t)) s
      | OnDB \<Rightarrow>
          bindS (liftS (getTxFromBlockWithIndex cr (DB_get R (st_db s) blockHash pfx_blocks) blockIndex)) (\<lambda>t.
          bindS (heightByHash_index blockHash) (\<lambda>blockHeight.
          cache_tx (TxBlock_hash cr True t) (Some t, blockHash, blockIndex, blockHeight))) s)"

definition getTxByBlockNumberAndIndex :: "crypto \<Rightarrow> 'd rocks \<Rightarrow> uint64 \<Rightarrow> uint64 \<Rightarrow> ('d storage, tx_entry) sres" where
  "getTxByBlockNumberAndIndex cr R height blockIndex s =
     (let blockHash = the (st_blockHashByHeight s height) in
      case blockExists_height height s of
        NotFound \<Rightarrow> (s, Inr no_tx)
      | OnChain \<Rightarrow>
          bindS (liftS (tx_of (st_blockByHash s) blockHash blockIndex)) (\<lambda>transaction.
          bindS (txByHash_index (TxBlock_hash cr True transaction)) (\<lambda>(txBlockHash, txBlockIndex, txBlockHeight).
          retS (Some transaction, txBlockHash, txBlockIndex, txBlockHeight))) s
      | OnCache \<Rightarrow>
          bindS (liftS (tx_of (st_cachedBlocks s) blockHash blockIndex)) (\<lambda>t. cachedTx_index (TxBlock_hash cr True t)) s
      | OnDB \<Rightarrow>
          bindS (liftS (getTxFromBlockWithIndex cr (DB_get R (st_db s) blockHash pfx_blocks) blockIndex)) (\<lambda>t.
          bindS (heightByHash_index blockHash) (\<lambda>blockHeight.
          cache_tx (TxBlock_hash cr True t) (Some t, blockHash, blockIndex, blockHeight))) s)"


subsection \<open>Loading and saving\<close>

definition key_latest :: bytes where
  "key_latest = map of_char ''latest''"

text \<open>
  The copy constructor of \<^verbatim>\<open>FixedBytes\<close> from a byte vector makes an exception for a wrong size but does not throw it: a
  longer vector is written past the array, a shorter one leaves bytes that were never set.
\<close>

definition FixedBytes_of_Bytes :: "nat \<Rightarrow> bytes \<Rightarrow> bytes res" where
  "FixedBytes_of_Bytes n data = (if length data = n then Inr data else Inl UndefinedBehaviour)"

definition genesis :: "crypto \<Rightarrow> block res" where
  "genesis cr =
     bindR (Hex_toBytes ''0xe89ef6409c467285bcae9f80ab1cfeb3487cfe61ab28fb7d36443e1daa0c2867'') (\<lambda>bs.
     bindR (FixedBytes_of_Bytes 32 bs) (\<lambda>key.
     case finalize cr key 1656356646000000 (Block_new (uint256ToBytes 0) 1656356645000000 0) of
       (_, Inl e) \<Rightarrow> Inl e | (b, Inr _) \<Rightarrow> Inr b))"

definition Storage_initializeBlockchain :: "crypto \<Rightarrow> 'd rocks \<Rightarrow> 'd \<Rightarrow> 'd res" where
  "Storage_initializeBlockchain cr R d =
     (if \<not> DB_has R d key_latest pfx_blocks then
        bindR (genesis cr) (\<lambda>g.
          let d = DB_put R key_latest (serializeBlock g) pfx_blocks d;
              d = DB_put R (uint64ToBytes (b_nHeight g)) (Block_hash cr g) pfx_blockHeightMaps d
          in Inr (DB_put R (Block_hash cr g) (serializeBlock g) pfx_blocks d))
      else Inr d)"

fun load_maps :: "(bytes \<times> bytes) list \<Rightarrow> 'd storage \<Rightarrow> 'd storage res" where
  "load_maps [] s = Inr s"
| "load_maps ((key, value) # es) s =
     bindR (bytesToUint64 key) (\<lambda>height.
     bindR (FixedBytes_of_Bytes 32 value) (\<lambda>hash.
     load_maps es (s\<lparr>st_blockHashByHeight := map_insert height hash (st_blockHashByHeight s),
                     st_blockHeightByHash := map_insert hash height (st_blockHeightByHash s)\<rparr>)))"

text \<open>The loop over the recent blocks, for \<open>n\<close> more blocks down from \<open>height\<close>.\<close>

fun load_blocks :: "crypto \<Rightarrow> nat \<Rightarrow> 'd rocks \<Rightarrow> nat \<Rightarrow> uint64 \<Rightarrow> ('d storage, unit) sres" where
  "load_blocks cr thrNum R 0 height s = (s, Inr ())"
| "load_blocks cr thrNum R (Suc n) height s =
     (let (hash, m) = map_index (replicate 32 0) height (st_blockHashByHeight s); s = s\<lparr>st_blockHashByHeight := m\<rparr> in
      bindS (liftS (Block_parse cr thrNum (DB_get R (st_db s) hash pfx_blocks))) (\<lambda>b.
      bindS (pushFrontInternal cr b) (\<lambda>_. load_blocks cr thrNum R n (height - 1))) s)"

definition Storage_empty :: "'d \<Rightarrow> 'd storage" where
  "Storage_empty d = \<lparr>st_db = d, st_chain = [], st_blockByHash = Map.empty, st_txByHash = Map.empty,
     st_blockHeightByHash = Map.empty, st_blockHashByHeight = Map.empty, st_cachedBlocks = Map.empty, st_cachedTxs = Map.empty\<rparr>"

definition Storage_new :: "crypto \<Rightarrow> nat \<Rightarrow> 'd rocks \<Rightarrow> 'd \<Rightarrow> 'd storage res" where
  "Storage_new cr thrNum R d =
     bindR (Storage_initializeBlockchain cr R d) (\<lambda>d.
     bindR (Block_parse cr thrNum (DB_get R d key_latest pfx_blocks)) (\<lambda>b.
     let depth = b_nHeight b in
     bindR (load_maps (DB_getBatch R d pfx_blockHeightMaps []) (Storage_empty d)) (\<lambda>s.
     case load_blocks cr thrNum R (min 501 (unat depth + 1)) depth s of (s, Inl e) \<Rightarrow> Inl e | (s, Inr _) \<Rightarrow> Inr s)))"

fun batch_txs :: "crypto \<Rightarrow> block \<Rightarrow> nat \<Rightarrow> tx_block list \<Rightarrow> db_batch \<Rightarrow> db_batch" where
  "batch_txs cr b i [] bt = bt"
| "batch_txs cr b i (t # ts) bt =
     batch_txs cr b (i + 1) ts (Batch_push_back (TxBlock_hash cr True t)
       (Block_hash cr b @ uint32ToBytes (of_nat i) @ uint64ToBytes (b_nHeight b)) pfx_txToBlocks bt)"

fun batch_chain :: "crypto \<Rightarrow> block list \<Rightarrow> db_batch \<Rightarrow> db_batch" where
  "batch_chain cr [] bt = bt"
| "batch_chain cr (b # bs) bt =
     batch_chain cr bs (batch_txs cr b 0 (b_txs b)
       (Batch_push_back (uint64ToBytes (b_nHeight b)) (Block_hash cr b) pfx_blockHeightMaps
       (Batch_push_back (Block_hash cr b) (serializeBlock b) pfx_blocks bt)))"

text \<open>The destructor; of the storage it leaves the database.\<close>

definition Storage_destroy :: "crypto \<Rightarrow> 'd rocks \<Rightarrow> 'd storage \<Rightarrow> 'd res" where
  "Storage_destroy cr R s =
     bindR (latest s) (\<lambda>b.
     Inr (DB_put R key_latest (serializeBlock b) pfx_blocks (DB_putBatch R (batch_chain cr (st_chain s) Batch_new) (st_db s))))"


section \<open>Lemmas\<close>

subsection \<open>The chain and its indexes\<close>

fun linked :: "crypto \<Rightarrow> block list \<Rightarrow> bool" where
  "linked cr [] = True"
| "linked cr [b] = True"
| "linked cr (a # b # bs) = (b_prevBlockHash b = Block_hash cr a \<and> b_nHeight b = b_nHeight a + 1 \<and> linked cr (b # bs))"

definition tx_hashes :: "crypto \<Rightarrow> block list \<Rightarrow> Hash list" where
  "tx_hashes cr bs = concat (map (\<lambda>b. map (TxBlock_hash cr True) (b_txs b)) bs)"

text \<open>Where a transaction is found.\<close>

definition tx_at :: "crypto \<Rightarrow> block \<Rightarrow> Hash \<Rightarrow> Hash \<times> uint64 \<times> uint64 \<Rightarrow> bool" where
  "tx_at cr b t e \<longleftrightarrow> (\<exists>i<length (b_txs b). t = TxBlock_hash cr True (b_txs b ! i) \<and> e = (Block_hash cr b, of_nat i, b_nHeight b))"

definition storage_inv :: "crypto \<Rightarrow> 'd storage \<Rightarrow> bool" where
  "storage_inv cr s \<longleftrightarrow> linked cr (st_chain s) \<and> distinct (map (Block_hash cr) (st_chain s)) \<and>
     distinct (tx_hashes cr (st_chain s)) \<and> (\<forall>b\<in>set (st_chain s). length (b_txs b) < 2 ^ 32) \<and>
     (\<forall>h b. st_blockByHash s h = Some b \<longleftrightarrow> b \<in> set (st_chain s) \<and> Block_hash cr b = h) \<and>
     (\<forall>t e. st_txByHash s t = Some e \<longleftrightarrow> (\<exists>b\<in>set (st_chain s). tx_at cr b t e))"

text \<open>A block whose hash is not on the chain and whose transactions are new and differ.\<close>

definition fresh_block :: "crypto \<Rightarrow> block \<Rightarrow> 'd storage \<Rightarrow> bool" where
  "fresh_block cr b s \<longleftrightarrow> Block_hash cr b \<notin> Block_hash cr ` set (st_chain s) \<and> distinct (tx_hashes cr (b # st_chain s)) \<and>
     length (b_txs b) < 2 ^ 32"

text \<open>The states of a storage from the moment the maps are loaded, with every operation, also one that throws.\<close>

inductive storage_reach :: "crypto \<Rightarrow> nat \<Rightarrow> 'd rocks \<Rightarrow> 'd storage \<Rightarrow> bool" for cr thrNum R where
  start: "load_maps es (Storage_empty d) = Inr s \<Longrightarrow> storage_reach cr thrNum R s"
| pushBack: "storage_reach cr thrNum R s \<Longrightarrow> fresh_block cr b s \<Longrightarrow> storage_reach cr thrNum R (fst (pushBackInternal cr b s))"
| pushFront: "storage_reach cr thrNum R s \<Longrightarrow> fresh_block cr b s \<Longrightarrow> storage_reach cr thrNum R (fst (pushFrontInternal cr b s))"
| popBack: "storage_reach cr thrNum R s \<Longrightarrow> storage_reach cr thrNum R (fst (popBack cr s))"
| popFront: "storage_reach cr thrNum R s \<Longrightarrow> storage_reach cr thrNum R (fst (popFront cr s))"
| getBlock: "storage_reach cr thrNum R s \<Longrightarrow> storage_reach cr thrNum R (fst (getBlock cr thrNum R h s))"
| getBlock_height: "storage_reach cr thrNum R s \<Longrightarrow> storage_reach cr thrNum R (fst (getBlock_height cr thrNum R height s))"
| getTx: "storage_reach cr thrNum R s \<Longrightarrow> storage_reach cr thrNum R (fst (getTx cr R t s))"
| getTxByHash: "storage_reach cr thrNum R s \<Longrightarrow> storage_reach cr thrNum R (fst (getTxByBlockHashAndIndex cr R h i s))"
| getTxByNumber: "storage_reach cr thrNum R s \<Longrightarrow>
    storage_reach cr thrNum R (fst (getTxByBlockNumberAndIndex cr R height i s))"

lemma linked_Cons: "linked cr (b # bs) \<longleftrightarrow> linked cr bs \<and>
    (bs \<noteq> [] \<longrightarrow> b_prevBlockHash (hd bs) = Block_hash cr b \<and> b_nHeight (hd bs) = b_nHeight b + 1)"
  by (cases bs) auto

lemma linked_append: "linked cr (as @ bs) \<longleftrightarrow> linked cr as \<and> linked cr bs \<and>
    (as \<noteq> [] \<and> bs \<noteq> [] \<longrightarrow> b_prevBlockHash (hd bs) = Block_hash cr (last as) \<and> b_nHeight (hd bs) = b_nHeight (last as) + 1)"
  by (induction as) (auto simp: linked_Cons)

lemma tx_hashes_simps [simp]:
  "tx_hashes cr [] = []"
  "tx_hashes cr (b # bs) = map (TxBlock_hash cr True) (b_txs b) @ tx_hashes cr bs"
  "tx_hashes cr (as @ bs) = tx_hashes cr as @ tx_hashes cr bs"
  by (simp_all add: tx_hashes_def)

lemma in_image_nth: "x \<in> f ` set xs \<longleftrightarrow> (\<exists>i<length xs. x = f (xs ! i))"
  by (metis image_iff in_set_conv_nth)

lemma tx_at_hash: "tx_at cr b t e \<Longrightarrow> t \<in> TxBlock_hash cr True ` set (b_txs b)"
  by (auto simp: tx_at_def)

lemma tx_at_hashes: "tx_at cr b t e \<Longrightarrow> b \<in> set bs \<Longrightarrow> t \<in> set (tx_hashes cr bs)"
  using tx_at_hash [of cr b t e] by (auto simp: tx_hashes_def)

lemma index_txs_Some:
  assumes "distinct (map (TxBlock_hash cr True) ts)" "\<forall>t\<in>set ts. m (TxBlock_hash cr True t) = None"
  shows "index_txs cr b k ts m t = Some e \<longleftrightarrow> m t = Some e \<or>
    (\<exists>i<length ts. t = TxBlock_hash cr True (ts ! i) \<and> e = (Block_hash cr b, of_nat (k + i), b_nHeight b))"
  using assms
proof (induction ts arbitrary: k m)
  case (Cons x ts)
  let ?h = "TxBlock_hash cr True" and ?e = "(Block_hash cr b, of_nat k, b_nHeight b)"
  let ?m = "m(?h x \<mapsto> ?e)"
  have none: "m (?h x) = None" using Cons.prems by simp
  have "distinct (map ?h ts)" "\<forall>t\<in>set ts. ?m (?h t) = None" using Cons.prems by (auto simp: image_iff)
  note IH = Cons.IH [OF this, of "k + 1"]
  have step: "index_txs cr b k (x # ts) m = index_txs cr b (k + 1) ts ?m" using none by (simp add: map_insert_def)
  have "(\<exists>i<length (x # ts). t = ?h ((x # ts) ! i) \<and> e = (Block_hash cr b, of_nat (k + i), b_nHeight b)) \<longleftrightarrow>
      t = ?h x \<and> e = ?e \<or> (\<exists>i<length ts. t = ?h (ts ! i) \<and> e = (Block_hash cr b, of_nat (k + 1 + i), b_nHeight b))"
    by (simp add: Ex_less_Suc2 ac_simps)
  then show ?case unfolding step IH using none by auto
qed simp

lemma unindex_txs: "foldl (\<lambda>m t. m(f t := None)) m ts x = (if x \<in> f ` set ts then None else m x)"
  by (induction ts arbitrary: m) auto

lemma storage_invD:
  assumes "storage_inv cr s"
  shows "linked cr (st_chain s)" "distinct (map (Block_hash cr) (st_chain s))" "distinct (tx_hashes cr (st_chain s))"
    "b \<in> set (st_chain s) \<Longrightarrow> length (b_txs b) < 2 ^ 32"
    "st_blockByHash s h = Some b \<longleftrightarrow> b \<in> set (st_chain s) \<and> Block_hash cr b = h"
    "st_txByHash s t = Some e \<longleftrightarrow> (\<exists>b\<in>set (st_chain s). tx_at cr b t e)"
  using assms unfolding storage_inv_def by blast+

lemma inv_indexed:
  assumes inv: "storage_inv cr s" and fresh: "fresh_block cr b s" and l: "linked cr ch"
    and ch: "set ch = insert b (set (st_chain s))" "distinct (map (Block_hash cr) ch)" "distinct (tx_hashes cr ch)"
  shows "storage_inv cr (index_block cr b (s\<lparr>st_chain := ch\<rparr>))"
proof -
  let ?h = "TxBlock_hash cr True"
  have nob: "Block_hash cr b \<notin> Block_hash cr ` set (st_chain s)" and len: "length (b_txs b) < 2 ^ 32"
    and new: "distinct (map ?h (b_txs b))" "?h ` set (b_txs b) \<inter> set (tx_hashes cr (st_chain s)) = {}"
    using fresh by (simp_all add: fresh_block_def)
  have none: "st_blockByHash s (Block_hash cr b) = None"
    using storage_invD(5) [OF inv, of "Block_hash cr b"] nob
    by (cases "st_blockByHash s (Block_hash cr b)") (simp_all add: image_iff, metis)
  have txs: "\<forall>t\<in>set (b_txs b). st_txByHash s (?h t) = None"
  proof
    fix t assume "t \<in> set (b_txs b)"
    then have "?h t \<notin> set (tx_hashes cr (st_chain s))" using new(2) by blast
    then show "st_txByHash s (?h t) = None"
      using storage_invD(6) [OF inv, of "?h t"] tx_at_hashes by (cases "st_txByHash s (?h t)") blast+
  qed
  have byHash: "map_insert (Block_hash cr b) b (st_blockByHash s) h = Some b' \<longleftrightarrow> b' \<in> set ch \<and> Block_hash cr b' = h" for h b'
    using storage_invD(5) [OF inv, of h b'] nob none unfolding map_insert_def ch by auto
  have "index_txs cr b 0 (b_txs b) (st_txByHash s) t = Some e \<longleftrightarrow> (\<exists>b\<in>set ch. tx_at cr b t e)" for t e
    using index_txs_Some [OF new(1) txs, of b 0 t e] storage_invD(6) [OF inv, of t e] unfolding ch
    by (simp add: tx_at_def [of cr b t e]) blast
  moreover have "\<forall>b\<in>set ch. length (b_txs b) < 2 ^ 32" using storage_invD(4) [OF inv] len unfolding ch by blast
  ultimately show ?thesis using byHash l ch by (simp add: storage_inv_def index_block_def)
qed

lemma inv_pushBack: "storage_inv cr s \<Longrightarrow> fresh_block cr b s \<Longrightarrow> storage_inv cr (fst (pushBackInternal cr b s))"
  using inv_indexed [of cr s b "st_chain s @ [b]"] storage_invD(1-3) [of cr s]
  by (auto simp: pushBackInternal_def linked_append fresh_block_def Int_commute)

lemma inv_pushFront: "storage_inv cr s \<Longrightarrow> fresh_block cr b s \<Longrightarrow> storage_inv cr (fst (pushFrontInternal cr b s))"
  using inv_indexed [of cr s b "b # st_chain s"] storage_invD(1-3) [of cr s]
  by (auto simp: pushFrontInternal_def linked_Cons fresh_block_def)

lemma inv_popped:
  assumes inv: "storage_inv cr s" and ch: "st_chain s = as @ b # bs" "as = [] \<or> bs = []"
  shows "storage_inv cr ((unindex cr b s)\<lparr>st_chain := as @ bs\<rparr>)"
proof -
  let ?h = "TxBlock_hash cr True"
  note d = storage_invD [OF inv, unfolded ch(1)]
  have ne: "Block_hash cr b' \<noteq> Block_hash cr b" if "b' \<in> set (as @ bs)" for b' using d(2) that by (auto simp: image_iff)
  have "?h ` set (b_txs b) \<inter> set (tx_hashes cr (as @ bs)) = {}" using d(3) by auto
  then have other: "t \<notin> ?h ` set (b_txs b)" if "b' \<in> set (as @ bs)" "tx_at cr b' t e" for b' t e
    using tx_at_hashes [OF that(2,1)] by blast
  have txs: "(if t \<in> ?h ` set (b_txs b) then None else st_txByHash s t) = Some e \<longleftrightarrow> (\<exists>b\<in>set (as @ bs). tx_at cr b t e)" for t e
  proof (cases "t \<in> ?h ` set (b_txs b)")
    case True
    then have "\<not> (\<exists>b\<in>set (as @ bs). tx_at cr b t e)" using other by blast
    then show ?thesis using True by simp
  next
    case False
    then have "\<not> tx_at cr b t e" using tx_at_hash by blast
    then show ?thesis using d(6) [of t e] False by simp
  qed
  have byHash: "((st_blockByHash s)(Block_hash cr b := None)) h = Some b' \<longleftrightarrow> b' \<in> set (as @ bs) \<and> Block_hash cr b' = h" for h b'
    using d(5) [of h b'] ne by auto
  have "linked cr (as @ bs)" using d(1) ch(2) by (auto simp: linked_append linked_Cons)
  moreover have "distinct (map (Block_hash cr) (as @ bs))" "distinct (tx_hashes cr (as @ bs))" using d(2,3) by auto
  moreover have "\<forall>b\<in>set (as @ bs). length (b_txs b) < 2 ^ 32" using d(4) by simp
  ultimately show ?thesis using txs byHash by (simp add: storage_inv_def unindex_def unindex_txs)
qed

lemma inv_popBack: "storage_inv cr s \<Longrightarrow> storage_inv cr (fst (popBack cr s))"
  using inv_popped [of cr s "butlast (st_chain s)" "last (st_chain s)" "[]"] by (simp add: popBack_def)

lemma inv_popFront: "storage_inv cr s \<Longrightarrow> storage_inv cr (fst (popFront cr s))"
  using inv_popped [of cr s "[]" "hd (st_chain s)" "tl (st_chain s)"] by (simp add: popFront_def)


subsection \<open>Lookups\<close>

text \<open>What the invariant speaks about.\<close>

definition same_index :: "'d storage \<Rightarrow> 'd storage \<Rightarrow> bool" where
  "same_index s s' \<longleftrightarrow> st_chain s' = st_chain s \<and> st_blockByHash s' = st_blockByHash s \<and> st_txByHash s' = st_txByHash s"

lemma inv_same_index: "same_index s s' \<Longrightarrow> storage_inv cr s \<Longrightarrow> storage_inv cr s'"
  by (simp add: storage_inv_def same_index_def)

lemma same_index_refl [simp]: "same_index s s"
  by (simp add: same_index_def)

lemma same_index_bindS:
  "same_index s (fst (m s0)) \<Longrightarrow> (\<And>a s'. same_index s s' \<Longrightarrow> same_index s (fst (f a s'))) \<Longrightarrow> same_index s (fst (bindS m f s0))"
  by (auto simp: bindS_def split: prod.splits sum.splits)

lemma same_index_ops [simp]:
  "same_index s (fst (liftS r s')) \<longleftrightarrow> same_index s s'"
  "same_index s (fst (retS a s')) \<longleftrightarrow> same_index s s'"
  "same_index s (fst (throwS err s')) \<longleftrightarrow> same_index s s'"
  "same_index s (fst (cachedTx_index h s')) \<longleftrightarrow> same_index s s'"
  "same_index s (fst (heightByHash_index h s')) \<longleftrightarrow> same_index s s'"
  "same_index s (fst (cache_tx h e s')) \<longleftrightarrow> same_index s s'"
  by (simp_all add: same_index_def liftS_def retS_def throwS_def cachedTx_index_def heightByHash_index_def cache_tx_def
      split: prod.splits)

lemma same_index_load_block: "same_index s (fst (load_block cr thrNum R h s))"
  by (auto simp: load_block_def same_index_def bindS_def readS_def Let_def liftS_def split: sum.splits)

lemma same_index_getBlock:
  "same_index s (fst (getBlock cr thrNum R h s))" "same_index s (fst (getBlock_height cr thrNum R height s))"
  by (auto simp: getBlock_def getBlock_height_def same_index_load_block split: StorageStatus.splits)

lemma same_index_getTx: "same_index s (fst (getTx cr R t s))"
proof -
  let ?d = "DB_get R (st_db s) t pfx_txToBlocks"
  have "same_index s (fst (bindS (liftS (subspan ?d 0 32)) (\<lambda>blockHash.
           bindS (liftS (bindR (subspan ?d 32 4) bytesToUint32)) (\<lambda>blockIndex.
           bindS (liftS (bindR (subspan ?d 36 8) bytesToUint64)) (\<lambda>blockHeight.
           bindS (liftS (getTxFromBlockWithIndex cr (DB_get R (st_db s) blockHash pfx_blocks) (ucast blockIndex))) (\<lambda>tx.
           cache_tx t (Some tx, blockHash, ucast blockIndex, blockHeight))))) s))"
    by (auto simp: bindS_def liftS_def split: prod.splits sum.splits)
  then show ?thesis unfolding getTx_def by (auto simp: Let_def split: StorageStatus.splits prod.splits)
qed

text \<open>A transaction of a block on the chain is in the index, so \<^verbatim>\<open>operator[]\<close> adds nothing.\<close>

lemma tx_of_indexed:
  assumes inv: "storage_inv cr s" and t: "tx_of (st_blockByHash s) h i = Inr t"
  obtains b where "b \<in> set (st_chain s)" "Block_hash cr b = h" "st_txByHash s (TxBlock_hash cr True t) = Some (h, i, b_nHeight b)"
proof -
  obtain b where b: "st_blockByHash s h = Some b" "unat i < length (b_txs b)" "t = b_txs b ! unat i"
    using t by (auto simp: tx_of_def res_simps split: option.splits)
  then have "b \<in> set (st_chain s)" "Block_hash cr b = h" using storage_invD(5) [OF inv] by blast+
  moreover have "tx_at cr b (TxBlock_hash cr True t) (h, i, b_nHeight b)"
    unfolding tx_at_def using b calculation by (intro exI [of _ "unat i"]) simp
  ultimately show thesis using that storage_invD(6) [OF inv] by blast
qed

lemma txByHash_index_present: "st_txByHash s h = Some e \<Longrightarrow> txByHash_index h s = (s, Inr e)"
  by (simp add: txByHash_index_def map_index_def)

lemma same_index_getTxBy:
  assumes inv: "storage_inv cr s"
  shows "same_index s (fst (getTxByBlockHashAndIndex cr R h i s))" "same_index s (fst (getTxByBlockNumberAndIndex cr R height i s))"
proof -
  have chain: "same_index s (fst (bindS (liftS (tx_of (st_blockByHash s) h i))
      (\<lambda>t. bindS (txByHash_index (TxBlock_hash cr True t)) (k t)) s))" if "\<And>t e. same_index s (fst (k t e s))"
    for h and k :: "tx_block \<Rightarrow> Hash \<times> uint64 \<times> uint64 \<Rightarrow> ('a storage, tx_entry) sres"
  proof (cases "tx_of (st_blockByHash s) h i")
    case (Inr t)
    obtain b :: block where "st_txByHash s (TxBlock_hash cr True t) = Some (h, i, b_nHeight b)"
      using tx_of_indexed [OF inv Inr] by blast
    then show ?thesis using that Inr by (simp add: bindS_def liftS_def txByHash_index_present)
  qed (simp add: bindS_def liftS_def)
  have ret: "same_index s (fst ((case e of (x, y, z) \<Rightarrow> if P x y then throwS err else retS (f x y z)) s))"
    "same_index s (fst ((case e of (x, y, z) \<Rightarrow> retS (f x y z)) s))" for e :: "Hash \<times> uint64 \<times> uint64" and P err and f :: "Hash \<Rightarrow> uint64 \<Rightarrow> uint64 \<Rightarrow> tx_entry"
    by (auto split: prod.splits)
  show "same_index s (fst (getTxByBlockHashAndIndex cr R h i s))"
    unfolding getTxByBlockHashAndIndex_def
    by (auto split: StorageStatus.splits intro!: chain ret same_index_bindS)
  show "same_index s (fst (getTxByBlockNumberAndIndex cr R height i s))"
    unfolding getTxByBlockNumberAndIndex_def Let_def
    by (auto split: StorageStatus.splits intro!: chain ret same_index_bindS)
qed

lemma storage_reach_inv: "storage_reach cr thrNum R s \<Longrightarrow> storage_inv cr s"
proof (induction rule: storage_reach.induct)
  case (start es d s)
  have "load_maps es s0 = Inr s \<Longrightarrow> same_index s0 s" for s0
    by (induction es s0 rule: load_maps.induct) (auto simp: res_simps same_index_def)
  moreover have "storage_inv cr (Storage_empty d)" by (simp add: storage_inv_def Storage_empty_def)
  ultimately show ?case using start inv_same_index by blast
qed (auto intro: inv_pushBack inv_pushFront inv_popBack inv_popFront
    inv_same_index [OF same_index_getBlock(1)] inv_same_index [OF same_index_getBlock(2)]
    inv_same_index [OF same_index_getTx] inv_same_index [OF same_index_getTxBy(1)] inv_same_index [OF same_index_getTxBy(2)])


lemma getTx_indexed:
  assumes inv: "storage_inv cr s" and b: "b \<in> set (st_chain s)" and i: "i < length (b_txs b)"
  shows "getTx cr R (TxBlock_hash cr True (b_txs b ! i)) s = (s, Inr (Some (b_txs b ! i), Block_hash cr b, of_nat i, b_nHeight b))"
    "getTxByBlockHashAndIndex cr R (Block_hash cr b) (of_nat i) s =
      (s, Inr (Some (b_txs b ! i), Block_hash cr b, of_nat i, b_nHeight b))"
proof -
  note d = storage_invD [OF inv]
  have "st_blockByHash s (Block_hash cr b) = Some b" using d(5) b by blast
  moreover have "tx_at cr b (TxBlock_hash cr True (b_txs b ! i)) (Block_hash cr b, of_nat i, b_nHeight b)"
    using i unfolding tx_at_def by blast
  then have "st_txByHash s (TxBlock_hash cr True (b_txs b ! i)) = Some (Block_hash cr b, of_nat i, b_nHeight b)"
    using d(6) b by blast
  moreover have "unat (of_nat i :: uint64) = i" using i d(4) [OF b] by (intro unat_of_nat_eq) simp
  ultimately show "getTx cr R (TxBlock_hash cr True (b_txs b ! i)) s = (s, Inr (Some (b_txs b ! i), Block_hash cr b, of_nat i, b_nHeight b))"
    "getTxByBlockHashAndIndex cr R (Block_hash cr b) (of_nat i) s =
      (s, Inr (Some (b_txs b ! i), Block_hash cr b, of_nat i, b_nHeight b))"
    using i by (simp_all add: getTx_def txExists_def getTxByBlockHashAndIndex_def blockExists_def tx_of_def at_idx_def
        bindS_def liftS_def txByHash_index_present retS_def)
qed

subsection \<open>Stale entries\<close>

text \<open>
  \<^verbatim>\<open>popBack\<close> keeps the popped block in the map from heights and \<^verbatim>\<open>insert\<close> does not overwrite: the block that takes its height
  is not found by its height.
\<close>

lemma popBack_stale_height:
  assumes "st_blockHashByHeight s (b_nHeight (last (st_chain s))) = Some h" "st_chain s \<noteq> []"
    "pushBackInternal cr b (fst (popBack cr s)) = (s', Inr ())" "b_nHeight b = b_nHeight (last (st_chain s))"
  shows "last (st_chain s') = b \<and> st_blockHashByHeight s' (b_nHeight b) = Some h"
  using assms by (auto simp: pushBackInternal_def popBack_def unindex_def index_block_def map_insert_def split: if_splits)

text \<open>A cached block whose transactions were not looked up before gives a null transaction for each of its indexes.\<close>

lemma getTxByBlock_cached_null:
  assumes "blockExists R h s = OnCache" "st_cachedBlocks s h = Some b" "unat i < length (b_txs b)"
    "st_cachedTxs s (TxBlock_hash cr True (b_txs b ! unat i)) = None"
  shows "snd (getTxByBlockHashAndIndex cr R h i s) = Inr no_tx"
  using assms by (simp add: getTxByBlockHashAndIndex_def tx_of_def at_idx_def bindS_def liftS_def cachedTx_index_def map_index_def)

section \<open>Properties\<close>


section \<open>Witnesses\<close>

definition demo_store :: "(bytes \<times> bytes) list storage" where
  "demo_store = fst (pushBackInternal demo_crypto demo_block (Storage_empty []))"

lemma demo_store_reach: "storage_reach demo_crypto 1 sl_rocks demo_store"
proof -
  have "storage_reach demo_crypto 1 sl_rocks (Storage_empty [])" by (rule storage_reach.start [of "[]"]) simp
  moreover have "fresh_block demo_crypto demo_block (Storage_empty ([] :: (bytes \<times> bytes) list))"
    by (simp add: fresh_block_def Storage_empty_def demo_block_txs)
  ultimately show ?thesis unfolding demo_store_def by (rule storage_reach.pushBack)
qed

lemma demo_store_chain: "st_chain demo_store = [demo_block]"
  by (simp add: demo_store_def pushBackInternal_def Storage_empty_def index_block_def)


end
