(* ===== verification/State.thy ===== *)
theory State
  imports ContractManager RdPoS Storage
begin

text \<open>
  The state of the chain (\<^verbatim>\<open>core/state.h\<close>, \<^verbatim>\<open>core/state.cpp\<close>): native accounts, the pool of transactions, validation and
  processing of transactions and blocks, over the contract manager, rdPoS and the storage. The locks make every operation
  atomic. The pool is the list of its entries in the order of iteration; the library leaves the place of a new entry
  open, the model appends it. The record \<open>contracts\<close> stands for the virtual functions of the contracts.
\<close>

section \<open>Definitions\<close>

datatype TxInvalid = NotInvalid | InvalidNonce | InvalidBalance

record account =
  a_balance :: uint256
  a_nonce :: uint64

record contracts =
  k_manager :: Address
  k_rdpos :: Address
  k_ethCall :: "eth_call_info \<Rightarrow> Address \<Rightarrow> cmgr \<Rightarrow> cmgr \<times> error option"
  k_isPayableFunction :: "Address \<Rightarrow> bytes \<Rightarrow> bool"
  k_ethCallView :: "eth_call_info \<Rightarrow> cmgr \<Rightarrow> bytes res"
  k_value :: uint256

record 'd state =
  s_accounts :: "Address \<rightharpoonup> account"
  s_mempool :: "(Hash \<times> tx_block) list"
  s_processingPayable :: bool
  s_cm :: cmgr
  s_rdpos :: rdpos
  s_storage :: "'d storage"

subsection \<open>Transactions\<close>

definition txWithFees :: "tx_block \<Rightarrow> uint256 res" where
  "txWithFees t = bindR (checked_mult (t_gasLimit t) (t_maxFeePerGas t)) (checked_add (t_value t))"

definition validateTransactionInternal :: "crypto \<Rightarrow> tx_block \<Rightarrow> 'd state \<Rightarrow> TxInvalid res" where
  "validateTransactionInternal cr t s =
     (if TxBlock_hash cr True t \<in> fst ` set (s_mempool s) then Inr NotInvalid
      else case s_accounts s (t_from t) of
        None \<Rightarrow> Inr InvalidBalance
      | Some acc \<Rightarrow>
          bindR (txWithFees t) (\<lambda>fees.
          if fees > a_balance acc then Inr InvalidBalance
          else if ucast (a_nonce acc) \<noteq> t_nonce t then Inr InvalidNonce
          else Inr NotInvalid))"

text \<open>\<^verbatim>\<open>accounts[a].balance op= x\<close>: the account is created when it is missing.\<close>

definition acc_update :: "Address \<Rightarrow> (uint256 \<Rightarrow> uint256 res) \<Rightarrow> ('d state, unit) sres" where
  "acc_update a f s =
     (let acc = (case s_accounts s a of None \<Rightarrow> \<lparr>a_balance = 0, a_nonce = 0\<rparr> | Some acc \<Rightarrow> acc) in
      case f (a_balance acc) of
        Inl e \<Rightarrow> (s\<lparr>s_accounts := (s_accounts s)(a \<mapsto> acc)\<rparr>, Inl e)
      | Inr x \<Rightarrow> (s\<lparr>s_accounts := (s_accounts s)(a \<mapsto> acc\<lparr>a_balance := x\<rparr>)\<rparr>, Inr ()))"

definition set_balances :: "(Address \<rightharpoonup> uint256) \<Rightarrow> (Address \<rightharpoonup> account) \<Rightarrow> Address \<rightharpoonup> account" where
  "set_balances m accs = (\<lambda>a. case m a of
       None \<Rightarrow> accs a
     | Some b \<Rightarrow> Some (case accs a of None \<Rightarrow> \<lparr>a_balance = b, a_nonce = 0\<rparr> | Some acc \<Rightarrow> acc\<lparr>a_balance := b\<rparr>))"

definition processContractPayable :: "(Address \<rightharpoonup> uint256) \<Rightarrow> ('d state, unit) sres" where
  "processContractPayable payableMap s =
     (if \<not> s_processingPayable s
      then (s, Inl (RuntimeError ''Cannot change State while not processing a payable contract.''))
      else (s\<lparr>s_accounts := set_balances payableMap (s_accounts s)\<rparr>, Inr ()))"

text \<open>
  \<^verbatim>\<open>contractManager->callContract(tx)\<close>: the manager reads the balances of the accounts, and a payable call writes its own back
  through \<open>processContractPayable\<close>, whose guard holds because the caller has set the flag for the same function.
\<close>

definition state_callContract :: "contracts \<Rightarrow> eth_call_info \<Rightarrow> ('d state, unit) sres" where
  "state_callContract K info s =
     (let c = (s_cm s)\<lparr>cm_accounts := (\<lambda>a. map_option a_balance (s_accounts s a))\<rparr> in
      case callContract (k_manager K) (k_rdpos K) (k_ethCall K info) (k_isPayableFunction K (ci_to info) (ci_functor info))
             (\<lambda>bals accs. accs ++ bals) (ci_to info) c of
        (c', r) \<Rightarrow> (s\<lparr>s_cm := c', s_accounts := set_balances (cm_accounts c') (s_accounts s)\<rparr>,
          case r of None \<Rightarrow> Inr () | Some e \<Rightarrow> Inl e))"

definition isPayable :: "contracts \<Rightarrow> eth_call_info \<Rightarrow> cmgr \<Rightarrow> bool" where
  "isPayable K info c \<longleftrightarrow> ci_to info \<in> cm_contracts c \<and> k_isPayableFunction K (ci_to info) (ci_functor info)"

text \<open>\<^verbatim>\<open>try { m } catch (std::exception) { h }\<close>; undefined behaviour is not an exception.\<close>

definition tryS :: "('s, unit) sres \<Rightarrow> ('s, unit) sres \<Rightarrow> ('s, unit) sres" where
  "tryS m h s = (case m s of
       (s', Inl e) \<Rightarrow> if e = UndefinedBehaviour then (s', Inl e) else h s'
     | (s', Inr _) \<Rightarrow> (s', Inr ()))"

definition set_payable :: "bool \<Rightarrow> ('d state, unit) sres" where
  "set_payable b s = (s\<lparr>s_processingPayable := b\<rparr>, Inr ())"

definition increment_nonce :: "Address \<Rightarrow> ('d state, unit) sres" where
  "increment_nonce a s = (s\<lparr>s_accounts := (s_accounts s)(a := map_option (\<lambda>acc. acc\<lparr>a_nonce := a_nonce acc + 1\<rparr>) (s_accounts s a))\<rparr>, Inr ())"

text \<open>The body of the \<^verbatim>\<open>try\<close> and its handler.\<close>

definition pay_and_call :: "contracts \<Rightarrow> tx_block \<Rightarrow> ('d state, unit) sres" where
  "pay_and_call K t =
     bindS (liftS (txWithFees t)) (\<lambda>fees.
     bindS (acc_update (t_from t) (\<lambda>b. checked_sub b fees)) (\<lambda>_.
     bindS (acc_update (t_to t) (\<lambda>b. checked_add b (t_value t))) (\<lambda>_ s.
     if isContractCall (k_manager K) (k_rdpos K) (t_to t) (s_cm s) then
       bindS (liftS (txToCallInfo t)) (\<lambda>info.
       bindS (if isPayable K info (s_cm s) then set_payable True else retS ()) (\<lambda>_.
       bindS (state_callContract K info) (\<lambda>_. set_payable False))) s
     else (s, Inr ()))))"

definition refund :: "tx_block \<Rightarrow> ('d state, unit) sres" where
  "refund t s =
     bindS (if s_processingPayable s then
              bindS (acc_update (t_from t) (\<lambda>b. checked_add b (t_value t))) (\<lambda>_.
              bindS (acc_update (t_to t) (\<lambda>b. checked_sub b (t_value t))) (\<lambda>_. set_payable False))
            else retS ()) (\<lambda>_.
     acc_update (t_from t) (\<lambda>b. checked_add b (t_value t))) s"

definition processTransaction :: "contracts \<Rightarrow> tx_block \<Rightarrow> ('d state, unit) sres" where
  "processTransaction K t s =
     (if s_accounts s (t_from t) = None then (s, Inl UndefinedBehaviour)
      else bindS (tryS (pay_and_call K t) (refund t)) (\<lambda>_. increment_nonce (t_from t)) s)"


subsection \<open>The pool\<close>

definition mempool_insert :: "Hash \<Rightarrow> tx_block \<Rightarrow> 'd state \<Rightarrow> 'd state" where
  "mempool_insert h t s = (if h \<in> fst ` set (s_mempool s) then s else s\<lparr>s_mempool := s_mempool s @ [(h, t)]\<rparr>)"

fun refresh_loop :: "crypto \<Rightarrow> (Hash \<times> tx_block) list \<Rightarrow> ('d state, unit) sres" where
  "refresh_loop cr [] s = (s, Inr ())"
| "refresh_loop cr ((h, t) # mempoolCopy) s =
     bindS (readS (validateTransactionInternal cr t)) (\<lambda>r.
     bindS (liftS r) (\<lambda>invalid s.
     refresh_loop cr mempoolCopy (if invalid = NotInvalid then mempool_insert h t s else s))) s"

definition refreshMempool :: "crypto \<Rightarrow> block \<Rightarrow> ('d state, unit) sres" where
  "refreshMempool cr b s =
     (let mempoolCopy = filter (\<lambda>(h, t). h \<notin> TxBlock_hash cr True ` set (b_txs b)) (s_mempool s)
      in refresh_loop cr mempoolCopy (s\<lparr>s_mempool := []\<rparr>))"

definition addTx :: "crypto \<Rightarrow> tx_block \<Rightarrow> ('d state, TxInvalid) sres" where
  "addTx cr t s =
     (case validateTransactionInternal cr t s of
        Inl e \<Rightarrow> (s, Inl e)
      | Inr invalid \<Rightarrow> if invalid \<noteq> NotInvalid then (s, Inr invalid)
                       else (mempool_insert (TxBlock_hash cr True t) t s, Inr invalid))"

definition isTxInMempool :: "Hash \<Rightarrow> 'd state \<Rightarrow> bool" where
  "isTxInMempool h s \<longleftrightarrow> h \<in> fst ` set (s_mempool s)"

definition getTxFromMempool :: "Hash \<Rightarrow> 'd state \<Rightarrow> tx_block option" where
  "getTxFromMempool h s = map_of (s_mempool s) h"

definition fillBlockWithTransactions :: "block \<Rightarrow> 'd state \<Rightarrow> block" where
  "fillBlockWithTransactions b s = foldl (\<lambda>b (h, t). fst (appendTx t b)) b (s_mempool s)"

subsection \<open>Blocks\<close>

fun validate_txs :: "crypto \<Rightarrow> tx_block list \<Rightarrow> 'd state \<Rightarrow> bool res" where
  "validate_txs cr [] s = Inr True"
| "validate_txs cr (t # ts) s =
     bindR (validateTransactionInternal cr t s) (\<lambda>invalid. if invalid \<noteq> NotInvalid then Inr False else validate_txs cr ts s)"

definition validateNextBlock :: "crypto \<Rightarrow> block \<Rightarrow> 'd state \<Rightarrow> bool res" where
  "validateNextBlock cr b s =
     bindR (latest (s_storage s)) (\<lambda>latestBlock.
     if b_nHeight b \<noteq> b_nHeight latestBlock + 1 then Inr False
     else if b_prevBlockHash b \<noteq> Block_hash cr latestBlock then Inr False
     else if b_timestamp latestBlock > b_timestamp b then Inr False
     else bindR (validateBlock cr (s_rdpos s) b) (\<lambda>ok. if \<not> ok then Inr False else validate_txs cr (b_txs b) s))"

fun process_txs :: "contracts \<Rightarrow> tx_block list \<Rightarrow> ('d state, unit) sres" where
  "process_txs K [] s = (s, Inr ())"
| "process_txs K (t # ts) s = bindS (processTransaction K t) (\<lambda>_. process_txs K ts) s"

definition on_rdpos :: "(rdpos, 'a) sres \<Rightarrow> ('d state, 'a) sres" where
  "on_rdpos m s = (case m (s_rdpos s) of (r, x) \<Rightarrow> (s\<lparr>s_rdpos := r\<rparr>, x))"

definition on_storage :: "('d storage, 'a) sres \<Rightarrow> ('d state, 'a) sres" where
  "on_storage m s = (case m (s_storage s) of (st, x) \<Rightarrow> (s\<lparr>s_storage := st\<rparr>, x))"

definition processNextBlock :: "crypto \<Rightarrow> contracts \<Rightarrow> block \<Rightarrow> ('d state, unit) sres" where
  "processNextBlock cr K b =
     bindS (readS (validateNextBlock cr b)) (\<lambda>r.
     bindS (liftS r) (\<lambda>valid.
     if \<not> valid then throwS (RuntimeError ''Invalid block detected during processNextBlock sanity check.'')
     else bindS (process_txs K (b_txs b)) (\<lambda>_.
          bindS (on_rdpos (processBlock cr b)) (\<lambda>_.
          bindS (refreshMempool cr b) (\<lambda>_.
          on_storage (pushBackInternal cr b))))))"

definition State_addValidatorTx :: "crypto \<Rightarrow> tx_validator \<Rightarrow> ('d state, bool) sres" where
  "State_addValidatorTx cr t s =
     bindS (liftS (latest (s_storage s))) (\<lambda>b. on_rdpos (addValidatorTx cr (b_nHeight b) t)) s"

subsection \<open>Queries\<close>

definition getNativeBalance :: "Address \<Rightarrow> 'd state \<Rightarrow> uint256" where
  "getNativeBalance a s = (case s_accounts s a of None \<Rightarrow> 0 | Some acc \<Rightarrow> a_balance acc)"

definition getNativeNonce :: "Address \<Rightarrow> 'd state \<Rightarrow> uint64" where
  "getNativeNonce a s = (case s_accounts s a of None \<Rightarrow> 0 | Some acc \<Rightarrow> a_nonce acc)"

definition addBalance :: "Address \<Rightarrow> ('d state, unit) sres" where
  "addBalance a = acc_update a (\<lambda>b. checked_add b 1000000000000000000000)"

definition State_ethCall :: "contracts \<Rightarrow> eth_call_info \<Rightarrow> 'd state \<Rightarrow> bytes res" where
  "State_ethCall K info s =
     (if isContractAddress (k_manager K) (k_rdpos K) (ci_to info) (s_cm s)
      then (let c = (s_cm s)\<lparr>cm_accounts := (\<lambda>a. map_option a_balance (s_accounts s a))\<rparr> in k_ethCallView K info c)
      else Inr [])"

definition estimateGas :: "contracts \<Rightarrow> eth_call_info \<Rightarrow> ('d state, bool) sres" where
  "estimateGas K info s =
     (let funds =
        (if fb_nonzero (ci_from info) \<and> ci_value info \<noteq> 0 then
           bindR (if ci_gasLimit info \<noteq> 0 \<and> ci_gasPrice info \<noteq> 0 then checked_mult (ci_gasLimit info) (ci_gasPrice info) else Inr 0) (\<lambda>totalGas.
           case s_accounts s (ci_from info) of
             None \<Rightarrow> Inr False
           | Some acc \<Rightarrow> bindR (checked_add (ci_value info) totalGas) (\<lambda>x. Inr (\<not> a_balance acc < x)))
         else Inr True)
      in bindS (liftS funds) (\<lambda>ok s.
         if \<not> ok then (s, Inr False)
         else if isContractAddress (k_manager K) (k_rdpos K) (ci_to info) (s_cm s) then
           (let c = (s_cm s)\<lparr>cm_accounts := (\<lambda>a. map_option a_balance (s_accounts s a))\<rparr> in
            case validateCallContractWithTx (k_manager K) (k_rdpos K) (k_ethCall K info) (k_value K) (ci_to info) (ci_value info) c of
              (c', r) \<Rightarrow> (s\<lparr>s_cm := c'\<rparr>, bindR r (\<lambda>_. Inr True)))
         else (s, Inr True)) s)"

subsection \<open>Loading and saving\<close>

definition account_value :: "account \<Rightarrow> bytes" where
  "account_value acc =
     (if a_balance acc = 0 then [0]
      else uintToBytes (of_nat (bytesRequired (a_balance acc)) :: uint32) @ uintToBytes (a_balance acc)) @
     (if a_nonce acc = 0 then [0]
      else uintToBytes (of_nat (bytesRequired (a_nonce acc)) :: uint32) @ uintToBytes (a_nonce acc))"

definition account_parse :: "bytes \<Rightarrow> account res" where
  "account_parse data =
     bindR (subspan data 0 1) (\<lambda>b.
     let balanceSize = unat (fromBigEndian b :: uint8) in
     bindR (bindR (subspan data 1 balanceSize) fromBigEndian_checked) (\<lambda>balance.
     bindR (subspan data (1 + balanceSize) 1) (\<lambda>n.
     let nonceSize = unat (fromBigEndian n :: uint8) in
     if 2 + balanceSize + nonceSize \<noteq> length data
     then Inl (RuntimeError ''Error when loading State from DB, value from DB size mismatch on nonceSize'')
     else bindR (subspan data (2 + balanceSize) nonceSize) (\<lambda>nonce.
       Inr \<lparr>a_balance = balance, a_nonce = fromBigEndian nonce\<rparr>))))"

fun load_accounts :: "(bytes \<times> bytes) list \<Rightarrow> (Address \<rightharpoonup> account) \<Rightarrow> (Address \<rightharpoonup> account) res" where
  "load_accounts [] accs = Inr accs"
| "load_accounts ((key, value) # es) accs =
     (if length key \<noteq> 20 then Inl (RuntimeError ''Error when loading State from DB, address from DB size mismatch'')
      else bindR (account_parse value) (\<lambda>acc. load_accounts es (map_insert key acc accs)))"

text \<open>The accounts of the constructor, with the database that it may have initialized.\<close>

definition State_accounts :: "'d rocks \<Rightarrow> 'd \<Rightarrow> ('d \<times> (Address \<rightharpoonup> account)) res" where
  "State_accounts R d =
     bindR (if DB_getBatch R d pfx_nativeAccounts [] = [] then
              bindR (Hex_toBytes ''0x00dead00665771855a34155f5e7405489df2c3c6'') (\<lambda>dev1.
                let desiredBalance = 1000000000000000000000 :: uint256;
                    v = uintToBytes (of_nat (bytesRequired desiredBalance) :: uint32) @ uintToBytes desiredBalance @ [0]
                in Inr (DB_put R dev1 v pfx_nativeAccounts d))
            else Inr d) (\<lambda>d.
     bindR (load_accounts (DB_getBatch R d pfx_nativeAccounts []) Map.empty) (\<lambda>accs. Inr (d, accs)))"

text \<open>The destructor; \<open>order\<close> is the order in which the map of accounts is iterated.\<close>

definition State_save :: "'d rocks \<Rightarrow> Address list \<Rightarrow> (Address \<rightharpoonup> account) \<Rightarrow> 'd \<Rightarrow> 'd" where
  "State_save R order accs d =
     DB_putBatch R (foldl (\<lambda>bt a. Batch_push_back a (account_value (the (accs a))) pfx_nativeAccounts bt) Batch_new order) d"


section \<open>Lemmas\<close>

subsection \<open>A transfer\<close>

definition nativeOf :: "(Address \<rightharpoonup> account) \<Rightarrow> Address \<Rightarrow> nat" where
  "nativeOf accs a = (case accs a of None \<Rightarrow> 0 | Some acc \<Rightarrow> unat (a_balance acc))"

definition nonce_of :: "(Address \<rightharpoonup> account) \<Rightarrow> Address \<Rightarrow> uint64" where
  "nonce_of accs a = (case accs a of None \<Rightarrow> 0 | Some acc \<Rightarrow> a_nonce acc)"

definition supply_native :: "(Address \<rightharpoonup> account) \<Rightarrow> nat" where
  "supply_native accs = (\<Sum>a\<in>dom accs. nativeOf accs a)"

definition fee :: "tx_block \<Rightarrow> nat" where
  "fee t = unat (t_gasLimit t) * unat (t_maxFeePerGas t)"

definition cost :: "tx_block \<Rightarrow> nat" where
  "cost t = unat (t_value t) + fee t"

definition plain :: "contracts \<Rightarrow> cmgr \<Rightarrow> tx_block \<Rightarrow> bool" where
  "plain K c t \<longleftrightarrow> \<not> isContractCall (k_manager K) (k_rdpos K) (t_to t) c"

lemma txWithFees_ok: "cost t < 2 ^ 256 \<Longrightarrow> \<exists>f. txWithFees t = Inr f \<and> unat f = cost t"
proof -
  assume c: "cost t < 2 ^ 256"
  then have m: "unat (t_gasLimit t) * unat (t_maxFeePerGas t) < 2 ^ 256" by (simp add: cost_def fee_def)
  then have f: "unat (t_gasLimit t * t_maxFeePerGas t) = fee t" unfolding fee_def by (intro unat_mult_no_wrap) simp
  have "unat (t_value t + t_gasLimit t * t_maxFeePerGas t) = cost t"
    using c unfolding cost_def f [symmetric] by (intro unat_add_no_wrap) simp
  then show ?thesis using m c by (simp add: txWithFees_def checked_mult_def checked_add_def f cost_def)
qed

lemma txWithFees_Inr: "txWithFees t = Inr f \<Longrightarrow> unat f = cost t"
proof -
  assume f: "txWithFees t = Inr f"
  then have m: "unat (t_gasLimit t) * unat (t_maxFeePerGas t) < 2 ^ 256"
    and a: "unat (t_value t) + unat (t_gasLimit t * t_maxFeePerGas t) < 2 ^ 256" "f = t_value t + t_gasLimit t * t_maxFeePerGas t"
    by (auto simp: txWithFees_def res_simps)
  have g: "unat (t_gasLimit t * t_maxFeePerGas t) = fee t" unfolding fee_def using m by (intro unat_mult_no_wrap) simp
  show ?thesis unfolding a(2) cost_def g [symmetric] using a(1) by (intro unat_add_no_wrap) simp
qed

text \<open>The accounts after a transfer.\<close>

definition transferred :: "tx_block \<Rightarrow> (Address \<rightharpoonup> account) \<Rightarrow> (Address \<rightharpoonup> account) \<Rightarrow> bool" where
  "transferred t accs accs' \<longleftrightarrow> dom accs' = insert (t_to t) (dom accs) \<and>
     (\<forall>a. nativeOf accs' a + (if a = t_from t then cost t else 0) = nativeOf accs a + (if a = t_to t then unat (t_value t) else 0)) \<and>
     (\<forall>a. nonce_of accs' a = nonce_of accs a + (if a = t_from t then 1 else 0))"

lemma processTransaction_transfer:
  assumes "s_accounts s (t_from t) = Some acc" "cost t \<le> unat (a_balance acc)" "plain K (s_cm s) t"
    and room: "t_to t \<noteq> t_from t \<longrightarrow> nativeOf (s_accounts s) (t_to t) + unat (t_value t) < 2 ^ 256"
  obtains accs' where "processTransaction K t s = (s\<lparr>s_accounts := accs'\<rparr>, Inr ())" "transferred t (s_accounts s) accs'"
proof -
  have "cost t < 2 ^ 256" using assms(2) unat_bound [of "a_balance acc"] by simp
  then obtain f where f: "txWithFees t = Inr f" "unat f = cost t" using txWithFees_ok by blast
  let ?acc = "acc\<lparr>a_balance := a_balance acc - f\<rparr>"
  have le: "f \<le> a_balance acc" using f(2) assms(2) by (simp add: word_le_nat_alt)
  have sub: "unat (a_balance acc - f) = unat (a_balance acc) - cost t" using le f(2) by (simp add: unat_sub)
  define accs1 where "accs1 = (s_accounts s)(t_from t \<mapsto> ?acc)"
  define old where "old = (case accs1 (t_to t) of None \<Rightarrow> \<lparr>a_balance = 0, a_nonce = 0\<rparr> | Some acc \<Rightarrow> acc)"
  define accs2 where "accs2 = accs1(t_to t \<mapsto> old\<lparr>a_balance := a_balance old + t_value t\<rparr>)"
  define accs3 where "accs3 = accs2(t_from t := map_option (\<lambda>acc. acc\<lparr>a_nonce := a_nonce acc + 1\<rparr>) (accs2 (t_from t)))"
  have fits: "unat (a_balance old) + unat (t_value t) < 2 ^ 256"
  proof (cases "t_to t = t_from t")
    case True
    then have "unat (a_balance old) = unat (a_balance acc) - cost t" by (simp add: old_def accs1_def sub)
    then show ?thesis using assms(2) unat_bound [of "a_balance acc"] by (simp add: cost_def)
  next
    case False
    then have "unat (a_balance old) = nativeOf (s_accounts s) (t_to t)"
      by (simp add: old_def accs1_def nativeOf_def split: option.split)
    then show ?thesis using room False by simp
  qed
  then have add: "unat (a_balance old + t_value t) = unat (a_balance old) + unat (t_value t)" by (intro unat_add_no_wrap) simp
  have one: "acc_update (t_from t) (\<lambda>b. checked_sub b f) s = (s\<lparr>s_accounts := accs1\<rparr>, Inr ())"
    using assms(1) le by (simp add: acc_update_def checked_sub_def accs1_def)
  have two: "acc_update (t_to t) (\<lambda>b. checked_add b (t_value t)) (s\<lparr>s_accounts := accs1\<rparr>) = (s\<lparr>s_accounts := accs2\<rparr>, Inr ())"
    using fits by (simp add: acc_update_def checked_add_def accs2_def old_def [symmetric])
  have "pay_and_call K t s = (s\<lparr>s_accounts := accs2\<rparr>, Inr ())"
    using assms(3) one two by (simp add: pay_and_call_def bindS_def liftS_def f(1) plain_def)
  then have run: "processTransaction K t s = (s\<lparr>s_accounts := accs3\<rparr>, Inr ())"
    using assms(1) by (simp add: processTransaction_def tryS_def bindS_def increment_nonce_def accs3_def)
  have dom: "dom accs3 = insert (t_to t) (dom (s_accounts s))"
    using assms(1) by (auto simp: accs3_def accs2_def accs1_def split: if_splits)
  have "nativeOf accs3 a + (if a = t_from t then cost t else 0) = nativeOf (s_accounts s) a + (if a = t_to t then unat (t_value t) else 0)" for a
    using assms(1,2) add sub
    by (auto simp: accs3_def accs2_def old_def accs1_def nativeOf_def split: option.split)
  moreover have "nonce_of accs3 a = nonce_of (s_accounts s) a + (if a = t_from t then 1 else 0)" for a
    using assms(1) by (auto simp: accs3_def accs2_def old_def accs1_def nonce_of_def split: option.split)
  ultimately show thesis using that run dom unfolding transferred_def by blast
qed


lemma native_le_supply:
  assumes "finite (dom accs)"
  shows "nativeOf accs a \<le> supply_native accs" "a \<noteq> b \<Longrightarrow> nativeOf accs a + nativeOf accs b \<le> supply_native accs"
proof -
  have out: "nativeOf accs x = 0" if "x \<notin> dom accs" for x using that by (auto simp: nativeOf_def split: option.split)
  show one: "nativeOf accs a \<le> supply_native accs" for a
    using out [of a] assms unfolding supply_native_def by (cases "a \<in> dom accs") (auto intro: member_le_sum)
  show "nativeOf accs a + nativeOf accs b \<le> supply_native accs" if "a \<noteq> b"
  proof (cases "a \<in> dom accs \<and> b \<in> dom accs")
    case True
    then have "sum (nativeOf accs) {a, b} \<le> supply_native accs"
      unfolding supply_native_def using assms by (intro sum_mono2) auto
    then show ?thesis using that by simp
  next
    case False
    then have "nativeOf accs a = 0 \<or> nativeOf accs b = 0" by (cases "a \<in> dom accs") (simp_all only: out simp_thms)
    then show ?thesis using one [of a] one [of b] by auto
  qed
qed

text \<open>A transfer burns its fee.\<close>

lemma transferred_supply:
  assumes t: "transferred t accs accs'" and fin: "finite (dom accs)" and sender: "t_from t \<in> dom accs"
  shows "supply_native accs' + fee t = supply_native accs" "finite (dom accs')"
proof -
  let ?D = "insert (t_to t) (dom accs)"
  have D: "dom accs' = ?D" "finite ?D" using t fin by (simp_all add: transferred_def)
  then show "finite (dom accs')" by simp
  have eq: "nativeOf accs' a + (if a = t_from t then cost t else 0) = nativeOf accs a + (if a = t_to t then unat (t_value t) else 0)" for a
    using t unfolding transferred_def by blast
  have "(\<Sum>a\<in>?D. nativeOf accs' a) + (\<Sum>a\<in>?D. if a = t_from t then cost t else 0) =
      (\<Sum>a\<in>?D. nativeOf accs a) + (\<Sum>a\<in>?D. if a = t_to t then unat (t_value t) else 0)"
    unfolding sum.distrib [symmetric] eq ..
  moreover have "(\<Sum>a\<in>?D. if a = t_from t then cost t else 0) = cost t" using sender D(2) by (subst sum.delta) auto
  moreover have "(\<Sum>a\<in>?D. if a = t_to t then unat (t_value t) else 0) = unat (t_value t)" using D(2) by (subst sum.delta) auto
  moreover have "(\<Sum>a\<in>?D. nativeOf accs a) = supply_native accs"
    unfolding supply_native_def using fin by (intro sum.mono_neutral_right) (auto simp: nativeOf_def split: option.splits)
  ultimately show "supply_native accs' + fee t = supply_native accs" by (simp add: supply_native_def D(1) cost_def)
qed

definition paid_by :: "Address \<Rightarrow> tx_block list \<Rightarrow> nat" where
  "paid_by a ts = (\<Sum>t\<leftarrow>ts. if a = t_from t then cost t else 0)"

definition received_by :: "Address \<Rightarrow> tx_block list \<Rightarrow> nat" where
  "received_by a ts = (\<Sum>t\<leftarrow>ts. if a = t_to t then unat (t_value t) else 0)"

definition sent_by :: "Address \<Rightarrow> tx_block list \<Rightarrow> nat" where
  "sent_by a ts = length (filter (\<lambda>t. a = t_from t) ts)"

text \<open>What a list of transfers does to the accounts.\<close>

definition settled_by :: "tx_block list \<Rightarrow> (Address \<rightharpoonup> account) \<Rightarrow> (Address \<rightharpoonup> account) \<Rightarrow> bool" where
  "settled_by ts accs accs' \<longleftrightarrow>
     (\<forall>a. nativeOf accs' a + paid_by a ts = nativeOf accs a + received_by a ts \<and> nonce_of accs' a = nonce_of accs a + of_nat (sent_by a ts)) \<and>
     supply_native accs' + (\<Sum>t\<leftarrow>ts. fee t) = supply_native accs"

definition funded :: "(Address \<rightharpoonup> account) \<Rightarrow> tx_block \<Rightarrow> bool" where
  "funded accs t \<longleftrightarrow> t_from t \<in> dom accs \<and> cost t \<le> nativeOf accs (t_from t)"

lemma process_txs_settled:
  assumes "finite (dom (s_accounts s))" "supply_native (s_accounts s) < 2 ^ 256" "distinct (map t_from ts)"
    "\<forall>t\<in>set ts. plain K (s_cm s) t \<and> funded (s_accounts s) t"
  shows "\<exists>accs'. process_txs K ts s = (s\<lparr>s_accounts := accs'\<rparr>, Inr ()) \<and> settled_by ts (s_accounts s) accs'"
  using assms
proof (induction ts arbitrary: s)
  case Nil
  show ?case
    by (rule exI [of _ "s_accounts s"]) (simp add: settled_by_def paid_by_def received_by_def sent_by_def)
next
  case (Cons t ts)
  let ?accs = "s_accounts s"
  obtain acc where acc: "?accs (t_from t) = Some acc" using Cons.prems(4) by (auto simp: funded_def)
  have funds: "cost t \<le> unat (a_balance acc)" "cost t \<le> nativeOf ?accs (t_from t)"
    using Cons.prems(4) acc by (auto simp: funded_def nativeOf_def)
  have "t_to t \<noteq> t_from t \<longrightarrow> nativeOf ?accs (t_to t) + unat (t_value t) < 2 ^ 256"
    using native_le_supply(2) [OF Cons.prems(1), of "t_to t" "t_from t"] funds(2) Cons.prems(2) by (auto simp: cost_def)
  then obtain accs1 where step: "processTransaction K t s = (s\<lparr>s_accounts := accs1\<rparr>, Inr ())" and tr: "transferred t ?accs accs1"
    using processTransaction_transfer [OF acc funds(1), of K] Cons.prems(4) by auto
  note sup = transferred_supply [OF tr Cons.prems(1)]
  have from_in: "t_from t \<in> dom ?accs" using acc by blast
  have eq: "nativeOf accs1 a + (if a = t_from t then cost t else 0) = nativeOf ?accs a + (if a = t_to t then unat (t_value t) else 0)"
    "nonce_of accs1 a = nonce_of ?accs a + (if a = t_from t then 1 else 0)" for a
    using tr unfolding transferred_def by blast+
  have "\<forall>u\<in>set ts. plain K (s_cm s) u \<and> funded accs1 u"
  proof
    fix u assume u: "u \<in> set ts"
    have ne: "t_from u \<noteq> t_from t" using Cons.prems(3) u by (auto simp: image_iff)
    have "funded ?accs u" "plain K (s_cm s) u" using Cons.prems(4) u by auto
    then show "plain K (s_cm s) u \<and> funded accs1 u" using eq(1) [of "t_from u"] ne tr by (auto simp: funded_def transferred_def)
  qed
  then have "\<exists>accs'. process_txs K ts (s\<lparr>s_accounts := accs1\<rparr>) = (s\<lparr>s_accounts := accs'\<rparr>, Inr ()) \<and> settled_by ts accs1 accs'"
    using Cons.IH [of "s\<lparr>s_accounts := accs1\<rparr>"] Cons.prems(2,3) sup from_in by simp
  then obtain accs' where rest: "process_txs K ts (s\<lparr>s_accounts := accs1\<rparr>) = (s\<lparr>s_accounts := accs'\<rparr>, Inr ())"
    and set: "settled_by ts accs1 accs'" by blast
  have "nativeOf accs' a + paid_by a (t # ts) = nativeOf ?accs a + received_by a (t # ts)" for a
  proof -
    have "nativeOf accs' a + paid_by a ts = nativeOf accs1 a + received_by a ts" using set unfolding settled_by_def by blast
    then show ?thesis using eq(1) [of a] by (simp add: paid_by_def received_by_def)
  qed
  moreover have "nonce_of accs' a = nonce_of ?accs a + of_nat (sent_by a (t # ts))" for a
  proof -
    have "nonce_of accs' a = nonce_of accs1 a + of_nat (sent_by a ts)" using set unfolding settled_by_def by blast
    then show ?thesis using eq(2) [of a] by (simp add: sent_by_def)
  qed
  moreover have "supply_native accs' + (\<Sum>t\<leftarrow>t # ts. fee t) = supply_native ?accs"
    using sup(1) [OF from_in] set unfolding settled_by_def by simp
  ultimately have "settled_by (t # ts) ?accs accs'" unfolding settled_by_def by blast
  moreover have "process_txs K (t # ts) s = (s\<lparr>s_accounts := accs'\<rparr>, Inr ())" using step rest by (simp add: bindS_def)
  ultimately show ?case by blast
qed


subsection \<open>The pool\<close>

text \<open>What validation checks of a transaction that is not in the pool.\<close>

definition valid_now :: "(Address \<rightharpoonup> account) \<Rightarrow> tx_block \<Rightarrow> bool" where
  "valid_now accs t \<longleftrightarrow> (\<exists>acc. accs (t_from t) = Some acc \<and> cost t \<le> unat (a_balance acc) \<and> ucast (a_nonce acc) = t_nonce t)"

definition mempool_inv :: "crypto \<Rightarrow> 'd state \<Rightarrow> bool" where
  "mempool_inv cr s \<longleftrightarrow> distinct (map fst (s_mempool s)) \<and>
     (\<forall>(h, t)\<in>set (s_mempool s). h = TxBlock_hash cr True t \<and> valid_now (s_accounts s) t)"

lemma valid_now_funded: "valid_now accs t \<Longrightarrow> funded accs t"
  by (auto simp: valid_now_def funded_def nativeOf_def)

lemma validate_new:
  assumes "TxBlock_hash cr True t \<notin> fst ` set (s_mempool s)"
  shows "validateTransactionInternal cr t s = Inr NotInvalid \<longleftrightarrow> valid_now (s_accounts s) t"
    "cost t < 2 ^ 256 \<Longrightarrow> \<exists>r. validateTransactionInternal cr t s = Inr r"
proof -
  have val: "validateTransactionInternal cr t s = (case s_accounts s (t_from t) of None \<Rightarrow> Inr InvalidBalance
      | Some acc \<Rightarrow> bindR (txWithFees t) (\<lambda>fees. if fees > a_balance acc then Inr InvalidBalance
          else if ucast (a_nonce acc) \<noteq> t_nonce t then Inr InvalidNonce else Inr NotInvalid))"
    using assms by (simp add: validateTransactionInternal_def)
  show "validateTransactionInternal cr t s = Inr NotInvalid \<longleftrightarrow> valid_now (s_accounts s) t"
  proof (cases "s_accounts s (t_from t)")
    case (Some acc)
    show ?thesis
    proof (cases "txWithFees t")
      case (Inl e)
      then have "\<not> cost t < 2 ^ 256" using txWithFees_ok [of t] by auto
      then have "\<not> cost t \<le> unat (a_balance acc)" using unat_bound [of "a_balance acc"] by simp
      then show ?thesis unfolding val Some using Inl by (simp add: valid_now_def Some)
    next
      case (Inr f)
      have "f > a_balance acc \<longleftrightarrow> \<not> cost t \<le> unat (a_balance acc)" using txWithFees_Inr [OF Inr] by (simp add: word_less_nat_alt not_le)
      then show ?thesis unfolding val Some using Inr by (simp add: valid_now_def Some)
    qed
  qed (simp add: val valid_now_def)
  show "\<exists>r. validateTransactionInternal cr t s = Inr r" if "cost t < 2 ^ 256"
    using txWithFees_ok [OF that] by (auto simp: val split: option.split)
qed

lemma validate_inv:
  assumes inv: "mempool_inv cr s" and v: "validateTransactionInternal cr t s = Inr NotInvalid"
    and h: "\<And>u. u \<in> snd ` set (s_mempool s) \<Longrightarrow> TxBlock_hash cr True u = TxBlock_hash cr True t \<Longrightarrow> u = t"
  shows "valid_now (s_accounts s) t"
proof (cases "TxBlock_hash cr True t \<in> fst ` set (s_mempool s)")
  case True
  then obtain u where u: "(TxBlock_hash cr True t, u) \<in> set (s_mempool s)" by auto
  then have "TxBlock_hash cr True t = TxBlock_hash cr True u" "valid_now (s_accounts s) u" using inv by (auto simp: mempool_inv_def)
  moreover have "u \<in> snd ` set (s_mempool s)" using u by force
  ultimately show ?thesis using h by metis
next
  case False
  then show ?thesis using validate_new(1) v by blast
qed

lemma mempool_inv_addTx: "mempool_inv cr s \<Longrightarrow> mempool_inv cr (fst (addTx cr t s))"
proof (cases "TxBlock_hash cr True t \<in> fst ` set (s_mempool s)")
  case True
  then show "mempool_inv cr s \<Longrightarrow> ?thesis" by (simp add: addTx_def validateTransactionInternal_def mempool_insert_def)
next
  case False
  then show "mempool_inv cr s \<Longrightarrow> ?thesis"
    using validate_new(1) [OF False] by (auto simp: addTx_def mempool_insert_def mempool_inv_def split: sum.splits)
qed

text \<open>The refresh keeps exactly the valid transactions.\<close>

lemma refresh_loop_ok:
  assumes "distinct (map fst (s_mempool s @ m))" "\<forall>(h, t)\<in>set m. h = TxBlock_hash cr True t \<and> cost t < 2 ^ 256"
  shows "refresh_loop cr m s = (s\<lparr>s_mempool := s_mempool s @ filter (\<lambda>(h, t). valid_now (s_accounts s) t) m\<rparr>, Inr ())"
  using assms
proof (induction m arbitrary: s)
  case (Cons e m)
  obtain h t where e: "e = (h, t)" by (cases e)
  have h: "h = TxBlock_hash cr True t" "cost t < 2 ^ 256" "h \<notin> fst ` set (s_mempool s)" using Cons.prems e by simp_all
  note new = validate_new [OF h(3) [unfolded h(1)]]
  obtain r where r: "validateTransactionInternal cr t s = Inr r" using new(2) [OF h(2)] by blast
  then have nv: "r = NotInvalid \<longleftrightarrow> valid_now (s_accounts s) t" using new(1) by simp
  define s1 where "s1 = (if valid_now (s_accounts s) t then s\<lparr>s_mempool := s_mempool s @ [(h, t)]\<rparr> else s)"
  have s1: "s_accounts s1 = s_accounts s" "s_mempool s1 = s_mempool s @ (if valid_now (s_accounts s) t then [(h, t)] else [])"
    "\<And>m. s1\<lparr>s_mempool := m\<rparr> = s\<lparr>s_mempool := m\<rparr>"
    by (simp_all add: s1_def)
  have "distinct (map fst (s_mempool s1 @ m))" using Cons.prems(1) e unfolding s1 by (auto split: if_splits)
  moreover have "\<forall>(h, t)\<in>set m. h = TxBlock_hash cr True t \<and> cost t < 2 ^ 256" using Cons.prems(2) by simp
  ultimately have "refresh_loop cr m s1 = (s1\<lparr>s_mempool := s_mempool s1 @ filter (\<lambda>(h, t). valid_now (s_accounts s1) t) m\<rparr>, Inr ())"
    by (rule Cons.IH)
  moreover have "refresh_loop cr (e # m) s = refresh_loop cr m s1"
    using r nv h(3) by (simp add: e bindS_def readS_def liftS_def mempool_insert_def s1_def)
  ultimately show ?case unfolding s1 by (simp add: e)
qed simp

lemma refreshMempool_ok:
  assumes "distinct (map fst (s_mempool s))" "\<forall>(h, t)\<in>set (s_mempool s). h = TxBlock_hash cr True t \<and> cost t < 2 ^ 256"
  shows "refreshMempool cr b s = (s\<lparr>s_mempool := filter (\<lambda>(h, t). h \<notin> TxBlock_hash cr True ` set (b_txs b) \<and>
    valid_now (s_accounts s) t) (s_mempool s)\<rparr>, Inr ())"
proof -
  let ?m = "filter (\<lambda>(h, t). h \<notin> TxBlock_hash cr True ` set (b_txs b)) (s_mempool s)"
  let ?s = "s\<lparr>s_mempool := []\<rparr>"
  have "distinct (map fst ?m)" using assms(1) by (rule distinct_map_filter)
  then have d: "distinct (map fst (s_mempool ?s @ ?m))" by simp
  have "set ?m \<subseteq> set (s_mempool s)" by (rule filter_is_subset)
  then have w: "\<forall>(h, t)\<in>set ?m. h = TxBlock_hash cr True t \<and> cost t < 2 ^ 256" using assms(2) by blast
  have "(?s\<lparr>s_mempool := s_mempool ?s @ filter (\<lambda>(h, t). valid_now (s_accounts ?s) t) ?m\<rparr>, Inr ()) =
      (s\<lparr>s_mempool := filter (\<lambda>(h, t). valid_now (s_accounts s) t) ?m\<rparr>, Inr () :: unit res)" by simp
  then have "refresh_loop cr ?m ?s = (s\<lparr>s_mempool := filter (\<lambda>(h, t). valid_now (s_accounts s) t) ?m\<rparr>, Inr ())"
    using refresh_loop_ok [OF d w] by (rule trans [rotated])
  moreover have "filter (\<lambda>(h, t). valid_now (s_accounts s) t) ?m =
      filter (\<lambda>(h, t). h \<notin> TxBlock_hash cr True ` set (b_txs b) \<and> valid_now (s_accounts s) t) (s_mempool s)"
    unfolding filter_filter by (rule filter_cong) auto
  ultimately show ?thesis by (simp only: refreshMempool_def Let_def)
qed


subsection \<open>Blocks\<close>

definition state_inv :: "crypto \<Rightarrow> 'd state \<Rightarrow> bool" where
  "state_inv cr s \<longleftrightarrow> st_chain (s_storage s) \<noteq> [] \<and> linked cr (st_chain (s_storage s)) \<and>
     rdpos_inv cr (b_nHeight (last (st_chain (s_storage s)))) (s_rdpos s) \<and> mempool_inv cr s"

text \<open>The states that the operations reach from a linked chain, a sound rdPoS and an empty pool.\<close>

inductive state_reach :: "crypto \<Rightarrow> 'd state \<Rightarrow> bool" for cr where
  start: "st_chain (s_storage s) \<noteq> [] \<Longrightarrow> linked cr (st_chain (s_storage s)) \<Longrightarrow>
    rdpos_inv cr (b_nHeight (last (st_chain (s_storage s)))) (s_rdpos s) \<Longrightarrow> s_mempool s = [] \<Longrightarrow> state_reach cr s"
| addTx: "state_reach cr s \<Longrightarrow> state_reach cr (fst (addTx cr t s))"
| addValidatorTx: "state_reach cr s \<Longrightarrow> state_reach cr (fst (State_addValidatorTx cr v s))"
| addBalance: "state_reach cr s \<Longrightarrow> state_reach cr (fst (addBalance a s))"
| block: "state_reach cr s \<Longrightarrow> processNextBlock cr K b s = (s', Inr ()) \<Longrightarrow> state_reach cr s'"

text \<open>Transactions leave the pool, rdPoS and the storage alone.\<close>

definition same_rest :: "'d state \<Rightarrow> 'd state \<Rightarrow> bool" where
  "same_rest s s' \<longleftrightarrow> s_mempool s' = s_mempool s \<and> s_rdpos s' = s_rdpos s \<and> s_storage s' = s_storage s"

lemma same_rest_bindS:
  "same_rest s (fst (m s0)) \<Longrightarrow> (\<And>a s'. same_rest s s' \<Longrightarrow> same_rest s (fst (f a s'))) \<Longrightarrow> same_rest s (fst (bindS m f s0))"
  by (auto simp: bindS_def split: prod.splits sum.splits)

lemma same_rest_tryS:
  "same_rest s (fst (m s0)) \<Longrightarrow> (\<And>s'. same_rest s s' \<Longrightarrow> same_rest s (fst (h s'))) \<Longrightarrow> same_rest s (fst (tryS m h s0))"
  by (auto simp: tryS_def split: prod.splits sum.splits)

lemma same_rest_ops [simp]:
  "same_rest s s"
  "same_rest s (fst (liftS r s')) \<longleftrightarrow> same_rest s s'"
  "same_rest s (fst (retS x s')) \<longleftrightarrow> same_rest s s'"
  "same_rest s (fst (set_payable p s')) \<longleftrightarrow> same_rest s s'"
  "same_rest s (fst (increment_nonce a s')) \<longleftrightarrow> same_rest s s'"
  "same_rest s (fst (acc_update a f s')) \<longleftrightarrow> same_rest s s'"
  "same_rest s (fst (state_callContract K info s')) \<longleftrightarrow> same_rest s s'"
  by (simp_all add: same_rest_def liftS_def retS_def set_payable_def increment_nonce_def acc_update_def state_callContract_def Let_def
      split: sum.split prod.split)

lemma same_rest_pay: "same_rest s s0 \<Longrightarrow> same_rest s (fst (pay_and_call K t s0))"
  unfolding pay_and_call_def by (intro same_rest_bindS) (auto intro!: same_rest_bindS)

lemma same_rest_refund: "same_rest s s0 \<Longrightarrow> same_rest s (fst (refund t s0))"
  unfolding refund_def by (intro same_rest_bindS) (auto intro!: same_rest_bindS)

lemma same_rest_process: "same_rest s s0 \<Longrightarrow> same_rest s (fst (processTransaction K t s0))"
  unfolding processTransaction_def
  by (auto intro!: same_rest_bindS same_rest_tryS same_rest_pay same_rest_refund)

lemma same_rest_process_txs: "same_rest s s0 \<Longrightarrow> same_rest s (fst (process_txs K ts s0))"
proof (induction ts arbitrary: s0)
  case (Cons t ts)
  show ?case unfolding process_txs.simps by (intro same_rest_bindS same_rest_process Cons)
qed simp

lemma validate_txs_True: "validate_txs cr ts s = Inr True \<longleftrightarrow> (\<forall>t\<in>set ts. validateTransactionInternal cr t s = Inr NotInvalid)"
  by (induction ts) (auto simp: res_simps)

lemma validateNextBlock_True:
  "validateNextBlock cr b s = Inr True \<longleftrightarrow> (let ch = st_chain (s_storage s) in ch \<noteq> [] \<and> b_nHeight b = b_nHeight (last ch) + 1 \<and>
     b_prevBlockHash b = Block_hash cr (last ch) \<and> b_timestamp (last ch) \<le> b_timestamp b \<and> validateBlock cr (s_rdpos s) b = Inr True \<and>
     (\<forall>t\<in>set (b_txs b). validateTransactionInternal cr t s = Inr NotInvalid))"
  by (auto simp: validateNextBlock_def latest_def Let_def res_simps validate_txs_True not_less)

lemma pool_costs: "mempool_inv cr s \<Longrightarrow> \<forall>(h, t)\<in>set (s_mempool s). h = TxBlock_hash cr True t \<and> cost t < 2 ^ 256"
proof (intro ballI, clarify)
  fix h t assume "mempool_inv cr s" "(h, t) \<in> set (s_mempool s)"
  then have h: "h = TxBlock_hash cr True t" and v: "valid_now (s_accounts s) t" by (auto simp: mempool_inv_def)
  from v obtain acc :: account where "cost t \<le> unat (a_balance acc)" by (auto simp: valid_now_def)
  then have "cost t < 2 ^ 256" using unat_bound [of "a_balance acc"] by simp
  then show "h = TxBlock_hash cr True t \<and> cost t < 2 ^ 256" using h by blast
qed


definition kept :: "crypto \<Rightarrow> block \<Rightarrow> (Address \<rightharpoonup> account) \<Rightarrow> Hash \<times> tx_block \<Rightarrow> bool" where
  "kept cr b accs e \<longleftrightarrow> fst e \<notin> TxBlock_hash cr True ` set (b_txs b) \<and> valid_now accs (snd e)"

text \<open>A validated block whose transactions are processed is added: nothing after them fails.\<close>

lemma processNextBlock_eq:
  assumes sha: "\<And>x. length (sha3 cr x) = 32" and inv: "state_inv cr s" and valid: "validateNextBlock cr b s = Inr True"
    and run: "process_txs K (b_txs b) s = (s1, Inr ())"
  shows "processNextBlock cr K b s = (s1\<lparr>s_rdpos := fst (processBlock cr b (s_rdpos s)),
      s_mempool := filter (kept cr b (s_accounts s1)) (s_mempool s),
      s_storage := index_block cr b ((s_storage s)\<lparr>st_chain := st_chain (s_storage s) @ [b]\<rparr>)\<rparr>, Inr ())"
proof -
  let ?ch = "st_chain (s_storage s)" and ?r = "fst (processBlock cr b (s_rdpos s))"
  have same: "s_mempool s1 = s_mempool s" "s_rdpos s1 = s_rdpos s" "s_storage s1 = s_storage s"
    using same_rest_process_txs [of s s K "b_txs b"] run by (simp_all add: same_rest_def)
  have v: "?ch \<noteq> []" "b_nHeight b = b_nHeight (last ?ch) + 1" "b_prevBlockHash b = Block_hash cr (last ?ch)"
    "validateBlock cr (s_rdpos s) b = Inr True"
    using valid unfolding validateNextBlock_True Let_def by blast+
  have rinv: "rdpos_inv cr (b_nHeight (last ?ch)) (s_rdpos s)" "mempool_inv cr s" using inv by (simp_all add: state_inv_def)
  have "b_finalized b" using v(4) by (auto simp: validateBlock_def split: if_splits)
  then have "snd (processBlock cr b (s_rdpos s)) = Inr (b_blockRandomness b)" using rdpos_inv_process(2) [OF sha rinv(1)] by blast
  then have rd: "on_rdpos (processBlock cr b) s1 = (s1\<lparr>s_rdpos := ?r\<rparr>, Inr (b_blockRandomness b))"
    by (cases "processBlock cr b (s_rdpos s)") (simp add: on_rdpos_def same)
  let ?m = "filter (kept cr b (s_accounts s1)) (s_mempool s)" and ?s2 = "s1\<lparr>s_rdpos := ?r\<rparr>"
  have "distinct (map fst (s_mempool ?s2))" using rinv(2) by (simp add: mempool_inv_def same)
  moreover have "\<forall>(h, t)\<in>set (s_mempool ?s2). h = TxBlock_hash cr True t \<and> cost t < 2 ^ 256"
    using pool_costs [OF rinv(2)] unfolding same by (simp add: same)
  ultimately have "refreshMempool cr b ?s2 = (?s2\<lparr>s_mempool := filter (\<lambda>(h, t). h \<notin> TxBlock_hash cr True ` set (b_txs b) \<and>
      valid_now (s_accounts ?s2) t) (s_mempool ?s2)\<rparr>, Inr ())" by (rule refreshMempool_ok)
  moreover have "filter (\<lambda>(h, t). h \<notin> TxBlock_hash cr True ` set (b_txs b) \<and> valid_now (s_accounts ?s2) t) (s_mempool ?s2) = ?m"
    by (rule filter_cong) (auto simp: same kept_def)
  ultimately have re: "refreshMempool cr b ?s2 = (?s2\<lparr>s_mempool := ?m\<rparr>, Inr ())" by simp
  have "pushBackInternal cr b (s_storage s) = (index_block cr b ((s_storage s)\<lparr>st_chain := ?ch @ [b]\<rparr>), Inr ())"
    using v(1-3) by (simp add: pushBackInternal_def)
  then have "on_storage (pushBackInternal cr b) (?s2\<lparr>s_mempool := ?m\<rparr>) = (?s2\<lparr>s_mempool := ?m,
      s_storage := index_block cr b ((s_storage s)\<lparr>st_chain := ?ch @ [b]\<rparr>)\<rparr>, Inr ())" by (simp add: on_storage_def same)
  then show ?thesis by (simp add: processNextBlock_def bindS_def readS_def liftS_def valid run rd re)
qed

lemma processNextBlock_runs:
  assumes "processNextBlock cr K b s = (s', Inr ())"
  obtains s1 where "validateNextBlock cr b s = Inr True" "process_txs K (b_txs b) s = (s1, Inr ())"
  using assms that by (auto simp: processNextBlock_def bindS_Inr readS_Inr liftS_Inr throwS_Inr split: if_splits)

lemma index_block_chain [simp]: "st_chain (index_block cr b st) = st_chain st"
  by (simp add: index_block_def)

lemma state_inv_block:
  assumes sha: "\<And>x. length (sha3 cr x) = 32" and inv: "state_inv cr s" and step: "processNextBlock cr K b s = (s', Inr ())"
  shows "state_inv cr s'"
proof -
  obtain s1 where v: "validateNextBlock cr b s = Inr True" and run: "process_txs K (b_txs b) s = (s1, Inr ())"
    using step by (rule processNextBlock_runs)
  have s': "s' = s1\<lparr>s_rdpos := fst (processBlock cr b (s_rdpos s)), s_mempool := filter (kept cr b (s_accounts s1)) (s_mempool s),
      s_storage := index_block cr b ((s_storage s)\<lparr>st_chain := st_chain (s_storage s) @ [b]\<rparr>)\<rparr>"
    using processNextBlock_eq [OF sha inv v run] step by simp
  let ?ch = "st_chain (s_storage s)"
  have l: "linked cr (?ch @ [b])"
    using inv v unfolding validateNextBlock_True Let_def state_inv_def linked_append by simp
  have "b_finalized b" using v unfolding validateNextBlock_True Let_def by (auto simp: validateBlock_def split: if_splits)
  then have r: "rdpos_inv cr (b_nHeight b) (fst (processBlock cr b (s_rdpos s)))"
    using rdpos_inv_process(1) [OF sha, of "b_nHeight (last ?ch)" "s_rdpos s" b] inv by (simp add: state_inv_def)
  have m: "distinct (map fst (s_mempool s))" "\<forall>e\<in>set (s_mempool s). fst e = TxBlock_hash cr True (snd e)"
    using inv by (auto simp: state_inv_def mempool_inv_def)
  then have "distinct (map fst (filter (kept cr b (s_accounts s1)) (s_mempool s)))" by (intro distinct_map_filter)
  then have "mempool_inv cr s'" using m(2) by (auto simp: mempool_inv_def s' kept_def)
  then show ?thesis using l r by (simp add: state_inv_def s')
qed

lemma valid_now_addBalance:
  assumes "valid_now (s_accounts s) t"
  shows "valid_now (s_accounts (fst (addBalance a s))) t"
proof -
  let ?x = "1000000000000000000000 :: uint256"
  obtain acc where acc: "s_accounts s (t_from t) = Some acc" "cost t \<le> unat (a_balance acc)" "ucast (a_nonce acc) = t_nonce t"
    using assms by (auto simp: valid_now_def)
  show ?thesis
  proof (cases "a = t_from t")
    case True
    show ?thesis
    proof (cases "checked_add (a_balance acc) ?x")
      case (Inl e)
      then show ?thesis using acc True by (simp add: valid_now_def addBalance_def acc_update_def)
    next
      case (Inr y)
      then have "unat (a_balance acc) \<le> unat y" using unat_add_no_wrap [of "a_balance acc" ?x] by (simp add: res_simps)
      then show ?thesis using acc True Inr by (simp add: valid_now_def addBalance_def acc_update_def)
    qed
  next
    case False
    then show ?thesis using acc by (simp add: valid_now_def addBalance_def acc_update_def Let_def split: sum.split)
  qed
qed

lemma state_reach_inv:
  assumes sha: "\<And>x. length (sha3 cr x) = 32"
  shows "state_reach cr s \<Longrightarrow> state_inv cr s"
proof (induction rule: state_reach.induct)
  case (start s)
  then show ?case by (simp add: state_inv_def mempool_inv_def)
next
  case (addTx s t)
  have "s_storage (fst (addTx cr t s)) = s_storage s" "s_rdpos (fst (addTx cr t s)) = s_rdpos s"
    by (simp_all add: addTx_def mempool_insert_def split: sum.split)
  then show ?case using addTx mempool_inv_addTx [of cr s t] by (simp add: state_inv_def)
next
  case (addValidatorTx s v)
  then show ?case
    using rdpos_inv_add [of cr "b_nHeight (last (st_chain (s_storage s)))" "s_rdpos s" v]
    by (auto simp: state_inv_def State_addValidatorTx_def latest_def bindS_def liftS_def on_rdpos_def mempool_inv_def split: prod.split)
next
  case (addBalance s a)
  have "s_storage (fst (addBalance a s)) = s_storage s" "s_rdpos (fst (addBalance a s)) = s_rdpos s"
    "s_mempool (fst (addBalance a s)) = s_mempool s"
    by (simp_all add: addBalance_def acc_update_def Let_def split: sum.split)
  then show ?case using addBalance valid_now_addBalance [of s _ a] by (auto simp: state_inv_def mempool_inv_def)
next
  case (block s K b s')
  then show ?case using state_inv_block [OF sha] by blast
qed


subsection \<open>Failing transactions\<close>

lemma acc_update_ok:
  assumes "s_accounts s a = Some acc" "f (a_balance acc) = Inr x"
  shows "acc_update a f s = (s\<lparr>s_accounts := (s_accounts s)(a \<mapsto> acc\<lparr>a_balance := x\<rparr>)\<rparr>, Inr ())"
  using assms by (simp add: acc_update_def)

text \<open>
  A sender who cannot pay for the transaction is not charged but credited with its value: the handler gives back what was
  never taken.
\<close>

lemma processTransaction_unfunded_mints:
  assumes acc: "s_accounts s (t_from t) = Some acc" and poor: "unat (a_balance acc) < cost t" "cost t < 2 ^ 256"
    and room: "unat (a_balance acc) + unat (t_value t) < 2 ^ 256" and flag: "\<not> s_processingPayable s"
  shows "processTransaction K t s = (s\<lparr>s_accounts := (s_accounts s)(t_from t \<mapsto>
    acc\<lparr>a_balance := a_balance acc + t_value t, a_nonce := a_nonce acc + 1\<rparr>)\<rparr>, Inr ())"
proof -
  obtain f where f: "txWithFees t = Inr f" "unat f = cost t" using txWithFees_ok [OF poor(2)] by blast
  have "\<not> f \<le> a_balance acc" using f(2) poor(1) by (simp add: word_le_nat_alt)
  then have "pay_and_call K t s = (s, Inl NumericError)"
    using acc f(1) by (simp add: pay_and_call_def bindS_def liftS_def acc_update_def checked_sub_def fun_upd_idem)
  moreover have "refund t s = (s\<lparr>s_accounts := (s_accounts s)(t_from t \<mapsto> acc\<lparr>a_balance := a_balance acc + t_value t\<rparr>)\<rparr>, Inr ())"
    using flag acc room by (simp add: refund_def bindS_def retS_def acc_update_def checked_add_def)
  ultimately show ?thesis
    using acc by (simp add: processTransaction_def tryS_def bindS_def increment_nonce_def)
qed

text \<open>
  A block may hold a transaction twice: both copies are validated in the state before the block. The sender pays for the
  first, and the failure of the second gives the value back although the recipient keeps it.
\<close>

lemma double_spend_mints:
  assumes acc: "s_accounts s (t_from t) = Some acc" "cost t \<le> unat (a_balance acc)" "unat (a_balance acc) < 2 * cost t"
    and t: "t_to t \<noteq> t_from t" "plain K (s_cm s) t" and flag: "\<not> s_processingPayable s"
    and room: "nativeOf (s_accounts s) (t_to t) + unat (t_value t) < 2 ^ 256"
  shows "\<exists>s'. process_txs K [t, t] s = (s', Inr ()) \<and> nativeOf (s_accounts s') (t_from t) + cost t = nativeOf (s_accounts s) (t_from t) + unat (t_value t) \<and>
    nativeOf (s_accounts s') (t_to t) = nativeOf (s_accounts s) (t_to t) + unat (t_value t)"
proof -
  obtain accs1 where one: "processTransaction K t s = (s\<lparr>s_accounts := accs1\<rparr>, Inr ())" and tr: "transferred t (s_accounts s) accs1"
    using processTransaction_transfer [OF acc(1,2) t(2)] room by blast
  have "t_from t \<in> dom accs1" using tr acc(1) by (auto simp: transferred_def)
  then obtain acc1 where acc1: "accs1 (t_from t) = Some acc1" by blast
  have all: "nativeOf accs1 a + (if a = t_from t then cost t else 0) = nativeOf (s_accounts s) a + (if a = t_to t then unat (t_value t) else 0)" for a
    using tr unfolding transferred_def by blast
  have n: "nativeOf (s_accounts s) (t_from t) = unat (a_balance acc)" using acc(1) by (simp add: nativeOf_def)
  have eq: "nativeOf accs1 (t_from t) + cost t = unat (a_balance acc)" "nativeOf accs1 (t_to t) = nativeOf (s_accounts s) (t_to t) + unat (t_value t)"
    using all [of "t_from t"] all [of "t_to t"] t(1) n by simp_all
  have b1: "unat (a_balance acc1) + cost t = unat (a_balance acc)" using eq(1) acc1 by (simp add: nativeOf_def)
  have "unat (a_balance acc1) < cost t" "cost t < 2 ^ 256" "unat (a_balance acc1) + unat (t_value t) < 2 ^ 256"
    using b1 acc(2,3) unat_bound [of "a_balance acc"] by (simp_all add: cost_def)
  note two = processTransaction_unfunded_mints [of "s\<lparr>s_accounts := accs1\<rparr>" t acc1 K, OF _ this]
  have "unat (a_balance acc1 + t_value t) = unat (a_balance acc1) + unat (t_value t)"
    using b1 unat_bound [of "a_balance acc"] by (intro unat_add_no_wrap) (simp add: cost_def)
  moreover define accs2 where "accs2 = accs1(t_from t \<mapsto> acc1\<lparr>a_balance := a_balance acc1 + t_value t, a_nonce := a_nonce acc1 + 1\<rparr>)"
  ultimately have "nativeOf accs2 (t_from t) + cost t = unat (a_balance acc) + unat (t_value t)" "nativeOf accs2 (t_to t) = nativeOf accs1 (t_to t)"
    using b1 t(1) by (simp_all add: nativeOf_def)
  moreover have "process_txs K [t, t] s = (s\<lparr>s_accounts := accs2\<rparr>, Inr ())" using one two acc1 flag by (simp add: bindS_def accs2_def)
  ultimately show ?thesis using eq(2) n by simp
qed

text \<open>The balances that a call which throws leaves are those the manager read.\<close>

lemma set_balances_same: "set_balances (\<lambda>a. map_option a_balance (accs a)) accs = accs"
  by (rule ext) (simp add: set_balances_def split: option.split)


text \<open>
  A contract call that throws at once, from an account that can pay: the sender loses the fees only, but a function that
  is not payable leaves the value with the contract as well, and a payable one gives it back to the sender twice.
\<close>

lemma failed_call_mints:
  assumes acc: "s_accounts s (t_from t) = Some acc" "cost t \<le> unat (a_balance acc)" and to: "s_accounts s (t_to t) = Some dst" "t_to t \<noteq> t_from t"
    and room: "unat (a_balance dst) + unat (t_value t) < 2 ^ 256" "unat (a_balance acc) + unat (t_value t) < 2 ^ 256"
    and info: "txToCallInfo t = Inr info" "ci_to info = t_to t"
    and contract: "t_to t \<in> cm_contracts (s_cm s)" "t_to t \<noteq> k_manager K" "t_to t \<noteq> k_rdpos K"
    and throws: "\<And>c. k_ethCall K info (t_to t) c = (c, Some (RuntimeError e))" and flag: "\<not> s_processingPayable s"
  shows "\<exists>s'. processTransaction K t s = (s', Inr ()) \<and>
    nativeOf (s_accounts s') (t_from t) + cost t =
      nativeOf (s_accounts s) (t_from t) + (if isPayable K info (s_cm s) then 2 else 1) * unat (t_value t) \<and>
    nativeOf (s_accounts s') (t_to t) = nativeOf (s_accounts s) (t_to t) + (if isPayable K info (s_cm s) then 0 else unat (t_value t))"
proof -
  let ?v = "t_value t" and ?p = "isPayable K info (s_cm s)"
  have "cost t < 2 ^ 256" using acc(2) unat_bound [of "a_balance acc"] by simp
  then obtain f where f: "txWithFees t = Inr f" "unat f = cost t" using txWithFees_ok by blast
  have le: "f \<le> a_balance acc" using f(2) acc(2) by (simp add: word_le_nat_alt)
  define x where "x = a_balance acc - f"
  define y where "y = a_balance dst + ?v"
  have x: "unat x + cost t = unat (a_balance acc)" using le f(2) acc(2) by (simp add: x_def unat_sub)
  have y: "unat y = unat (a_balance dst) + unat ?v" unfolding y_def using room(1) by (intro unat_add_no_wrap) simp
  define accs where "accs = (s_accounts s)(t_from t \<mapsto> acc\<lparr>a_balance := x\<rparr>, t_to t \<mapsto> dst\<lparr>a_balance := y\<rparr>)"
  define c where "c = fst (callContract (k_manager K) (k_rdpos K) (k_ethCall K info) (k_isPayableFunction K (t_to t) (ci_functor info))
     (\<lambda>bals accs. accs ++ bals) (t_to t) ((s_cm s)\<lparr>cm_accounts := (\<lambda>a. map_option a_balance (accs a))\<rparr>))"
  have call: "callContract (k_manager K) (k_rdpos K) (k_ethCall K info) (k_isPayableFunction K (t_to t) (ci_functor info))
     (\<lambda>bals accs. accs ++ bals) (t_to t) ((s_cm s)\<lparr>cm_accounts := (\<lambda>a. map_option a_balance (accs a))\<rparr>) = (c, Some (rethrow (RuntimeError e)))"
    "cm_accounts c = (\<lambda>a. map_option a_balance (accs a))"
    using contract throws by (simp_all add: c_def callContract_def cm_fail_def updateState_def Let_def)
  have one: "acc_update (t_from t) (\<lambda>b. checked_sub b f) s = (s\<lparr>s_accounts := (s_accounts s)(t_from t \<mapsto> acc\<lparr>a_balance := x\<rparr>)\<rparr>, Inr ())"
    using acc(1) le by (simp add: acc_update_def checked_sub_def x_def)
  have two: "acc_update (t_to t) (\<lambda>b. checked_add b ?v) (s\<lparr>s_accounts := (s_accounts s)(t_from t \<mapsto> acc\<lparr>a_balance := x\<rparr>)\<rparr>) =
      (s\<lparr>s_accounts := accs\<rparr>, Inr ())"
    using to room(1) by (simp add: acc_update_def checked_add_def y_def accs_def)
  have run: "pay_and_call K t s = (s\<lparr>s_accounts := accs, s_processingPayable := ?p, s_cm := c\<rparr>, Inl (rethrow (RuntimeError e)))"
    using one two info contract flag call set_balances_same [of accs]
    by (auto simp: pay_and_call_def bindS_def liftS_def f(1) isContractCall_def set_payable_def retS_def state_callContract_def)
  have add: "unat (x + ?v) = unat x + unat ?v" using x room(2) by (intro unat_add_no_wrap) simp
  have add2: "unat (x + ?v + ?v) = unat x + 2 * unat ?v" if "unat x + 2 * unat ?v < 2 ^ 256"
    using that add unat_add_no_wrap [of "x + ?v" ?v] by simp
  have small: "unat x + 2 * unat ?v < 2 ^ 256" using x room(2) by (simp add: cost_def)
  have sub: "?v \<le> y" "y - ?v = a_balance dst" using y by (simp_all add: word_le_nat_alt y_def)
  define z where "z = (if ?p then x + ?v + ?v else x + ?v)"
  define w where "w = (if ?p then a_balance dst else y)"
  have upd: "refund t (s\<lparr>s_accounts := accs, s_processingPayable := ?p, s_cm := c\<rparr>) =
      (s\<lparr>s_accounts := (s_accounts s)(t_from t \<mapsto> acc\<lparr>a_balance := z\<rparr>, t_to t \<mapsto> dst\<lparr>a_balance := w\<rparr>), s_processingPayable := False, s_cm := c\<rparr>, Inr ())"
    using small add to(2) sub flag
    by (auto simp: refund_def bindS_def retS_def set_payable_def acc_update_def checked_add_def checked_sub_def accs_def z_def w_def fun_upd_twist)
  have "rethrow (RuntimeError e) \<noteq> UndefinedBehaviour" by simp
  then have "processTransaction K t s = (s\<lparr>s_accounts := (s_accounts s)(t_from t \<mapsto> acc\<lparr>a_balance := z, a_nonce := a_nonce acc + 1\<rparr>,
      t_to t \<mapsto> dst\<lparr>a_balance := w\<rparr>), s_processingPayable := False, s_cm := c\<rparr>, Inr ())"
    using acc(1) to(2) run upd by (simp add: processTransaction_def tryS_def bindS_def increment_nonce_def fun_upd_twist)
  moreover have "unat z + cost t = unat (a_balance acc) + (if ?p then 2 else 1) * unat ?v" using x add add2 [OF small] by (simp add: z_def)
  moreover have "unat w = unat (a_balance dst) + (if ?p then 0 else unat ?v)" using y by (simp add: w_def)
  ultimately show ?thesis using acc(1) to by (simp add: nativeOf_def)
qed


section \<open>Properties\<close>

text \<open>
  C10. In every state that transactions, validator transactions, deposits and blocks lead to, the chain is linked, the order of the
  validators is a permutation of them, and every transaction of the pool could be processed now: its sender has the
  value and the fees, and its nonce is the sender's.
\<close>

theorem state_invariant:
  assumes "\<And>x. length (sha3 cr x) = 32" "state_reach cr s"
  shows "st_chain (s_storage s) \<noteq> [] \<and> linked cr (st_chain (s_storage s)) \<and>
    mset (r_randomList (s_rdpos s)) = mset (r_validators (s_rdpos s)) \<and>
    (\<forall>(h, t)\<in>set (s_mempool s). h = TxBlock_hash cr True t \<and>
      (\<exists>acc. s_accounts s (t_from t) = Some acc \<and> cost t \<le> unat (a_balance acc) \<and> ucast (a_nonce acc) = t_nonce t))"
  using state_reach_inv [OF assms] unfolding state_inv_def rdpos_inv_def mempool_inv_def valid_now_def by blast



section \<open>Witnesses\<close>

text \<open>One transfer of 5 with fees of 6 from an account with 100, in a block after a chain of one block.\<close>

definition demo_pay :: tx_block where
  "demo_pay = \<lparr>t_to = replicate 20 8, t_from = replicate 20 9, t_data = [], t_chainId = 1, t_nonce = 0, t_value = 5,
     t_maxPriorityFeePerGas = 0, t_maxFeePerGas = 3, t_gasLimit = 2, t_v = 0, t_r = 1, t_s = 1\<rparr>"

definition demo_prev :: block where
  "demo_prev = (Block_new (replicate 32 1) 0 6)\<lparr>b_blockRandomness := replicate 32 1\<rparr>"

definition demo_pay_block :: block where
  "demo_pay_block = demo_round_block\<lparr>b_txs := [demo_pay]\<rparr>"

definition demo_state :: "unit state" where
  "demo_state = \<lparr>s_accounts = [replicate 20 9 \<mapsto> \<lparr>a_balance = 100, a_nonce = 0\<rparr>], s_mempool = [], s_processingPayable = False,
     s_cm = demo_mgr\<lparr>cm_contracts := {}\<rparr>, s_rdpos = demo_round\<lparr>r_validators := r_randomList demo_round\<rparr>,
     s_storage = (Storage_empty ())\<lparr>st_chain := [demo_prev]\<rparr>\<rparr>"

definition demo_contracts :: contracts where
  "demo_contracts = \<lparr>k_manager = replicate 20 1, k_rdpos = replicate 20 2, k_ethCall = (\<lambda>_ _ c. (c, None)),
     k_isPayableFunction = (\<lambda>_ _. False), k_ethCallView = (\<lambda>_ _. Inr []), k_value = 0\<rparr>"

lemma demo_round_sha: "length (sha3 demo_round_crypto x) = 32"
  by (auto simp: demo_round_crypto_def min_def)

lemma demo_state_reach: "state_reach demo_round_crypto demo_state"
  by (rule state_reach.start)
     (simp_all add: demo_state_def Storage_empty_def rdpos_inv_def pool_ok_empty minValidators_def demo_round_def)

lemma demo_cost: "cost demo_pay = 11" "fee demo_pay = 6"
  by (simp_all add: cost_def fee_def demo_pay_def)

lemma demo_pay_valid: "validateTransactionInternal demo_round_crypto demo_pay demo_state = Inr NotInvalid"
  using validate_new(1) [of demo_round_crypto demo_pay demo_state]
  by (simp add: demo_state_def valid_now_def demo_cost) (simp add: demo_pay_def)

lemma demo_pay_block_valid: "validateNextBlock demo_round_crypto demo_pay_block demo_state = Inr True"
proof -
  have "sha3 demo_round_crypto (serializeHeader demo_prev) = replicate 32 1"
    by (simp add: demo_round_crypto_def serializeHeader_def demo_prev_def Block_new_def c64.enc_length numeral_eq_Suc)
  moreover have "b_nHeight demo_pay_block = 7" "b_prevBlockHash demo_pay_block = replicate 32 1" "b_timestamp demo_pay_block = 5"
    by (simp_all add: demo_pay_block_def demo_round_block_def Let_def Block_new_def)
  moreover have "accepted demo_round_crypto (r_randomList demo_round) demo_pay_block"
    using demo_round_accepted(1) by (simp add: accepted_def demo_pay_block_def)
  then have "validateBlock demo_round_crypto (s_rdpos demo_state) demo_pay_block = Inr True"
    by (subst validateBlock_eq) (simp_all add: demo_state_def, simp add: demo_round_def)
  moreover have "b_txs demo_pay_block = [demo_pay]" by (simp add: demo_pay_block_def)
  ultimately show ?thesis
    using demo_pay_valid unfolding validateNextBlock_True
    by (simp add: Let_def Block_hash_def) (simp add: demo_state_def Storage_empty_def Block_hash_def demo_prev_def Block_new_def)
qed

theorem state_invariant_witness: "linked demo_round_crypto (st_chain (s_storage (fst (addTx demo_round_crypto demo_pay demo_state))))"
  using state_invariant [OF demo_round_sha state_reach.addTx [OF demo_state_reach, of demo_pay]] by blast


end
