(* ===== verification/StorageDisk.thy ===== *)
theory StorageDisk
  imports Storage
begin

text \<open>
  What the destructor of \<^verbatim>\<open>Storage\<close> writes and its constructor reads back, and the lookup of one transaction in a
  serialized block (\<^verbatim>\<open>core/storage.cpp\<close>).
\<close>

section \<open>What is written\<close>

definition tx_puts :: "crypto \<Rightarrow> block \<Rightarrow> nat \<Rightarrow> tx_block list \<Rightarrow> (bytes \<times> bytes) list" where
  "tx_puts cr b i ts = map (\<lambda>(i, t). (pfx_txToBlocks @ TxBlock_hash cr True t,
     Block_hash cr b @ uint32ToBytes (of_nat i) @ uint64ToBytes (b_nHeight b))) (enumerate i ts)"

definition block_puts :: "crypto \<Rightarrow> block \<Rightarrow> (bytes \<times> bytes) list" where
  "block_puts cr b = (pfx_blocks @ Block_hash cr b, serializeBlock b) #
     (pfx_blockHeightMaps @ uint64ToBytes (b_nHeight b), Block_hash cr b) # tx_puts cr b 0 (b_txs b)"

lemma batch_txs_puts: "batch_txs cr b i ts bt = bt\<lparr>bt_puts := bt_puts bt @ tx_puts cr b i ts\<rparr>"
  by (induction ts arbitrary: i bt) (simp_all add: tx_puts_def Batch_push_back_def)

lemma batch_chain_puts: "batch_chain cr bs bt = bt\<lparr>bt_puts := bt_puts bt @ concat (map (block_puts cr) bs)\<rparr>"
  by (induction bs arbitrary: bt) (simp_all add: batch_txs_puts block_puts_def Batch_push_back_def)

lemma map_of_unique: "(k, v) \<in> set es \<Longrightarrow> (\<And>v'. (k, v') \<in> set es \<Longrightarrow> v' = v) \<Longrightarrow> map_of es k = Some v"
  using weak_map_of_SomeI [of k v es] map_of_SomeD [of es k] by blast

lemma in_block_puts:
  "(pfx_blocks @ k, v) \<in> set (block_puts cr b) \<longleftrightarrow> k = Block_hash cr b \<and> v = serializeBlock b"
  "(pfx_blockHeightMaps @ k, v) \<in> set (block_puts cr b) \<longleftrightarrow> k = uint64ToBytes (b_nHeight b) \<and> v = Block_hash cr b"
  by (auto simp: block_puts_def tx_puts_def pfx_blocks_def pfx_blockHeightMaps_def pfx_txToBlocks_def)

definition saved :: "crypto \<Rightarrow> 'd rocks \<Rightarrow> 'd storage \<Rightarrow> 'd" where
  "saved cr R s = DB_put R key_latest (serializeBlock (last (st_chain s))) pfx_blocks
     (DB_putBatch R (batch_chain cr (st_chain s) Batch_new) (st_db s))"

lemma contents_saved:
  assumes "rocks_ok R"
  shows "contents R (saved cr R s) = (contents R (st_db s) ++ map_of (rev (concat (map (block_puts cr) (st_chain s)))))
    (pfx_blocks @ key_latest \<mapsto> serializeBlock (last (st_chain s)))"
  unfolding saved_def DB_put_def rocks_laws(3) [OF assms] contents_putBatch [OF assms] batch_chain_puts Batch_new_def
  by (simp add: restrict_map_def)

lemma key_latest_length: "length key_latest = 6"
  by (simp add: key_latest_def)

text \<open>Consecutive heights.\<close>

lemma linked_nth: "linked cr bs \<Longrightarrow> i < length bs \<Longrightarrow> b_nHeight (bs ! i) = b_nHeight (hd bs) + of_nat i"
proof (induction bs arbitrary: i)
  case (Cons b bs)
  show ?case
  proof (cases i)
    case (Suc j)
    then have "bs \<noteq> []" "j < length bs" using Cons.prems(2) by auto
    then show ?thesis using Cons.IH [of j] Cons.prems(1) Suc by (simp add: linked_Cons)
  qed simp
qed simp

text \<open>The heights do not wrap around.\<close>

definition heights_fit :: "block list \<Rightarrow> bool" where
  "heights_fit bs \<longleftrightarrow> unat (b_nHeight (hd bs)) + length bs \<le> 2 ^ 64"

lemma linked_heights:
  assumes "linked cr bs" "heights_fit bs" "i < length bs"
  shows "unat (b_nHeight (bs ! i)) = unat (b_nHeight (hd bs)) + i"
proof -
  have "unat (of_nat i :: uint64) = i" using assms(2,3) by (intro unat_of_nat_eq) (simp add: heights_fit_def)
  then show ?thesis
    unfolding linked_nth [OF assms(1,3)] using assms(2,3) by (subst unat_add_lem [THEN iffD1]) (simp_all add: heights_fit_def)
qed

lemma saved_entries:
  assumes R: "rocks_ok R" and sha: "\<And>x. length (sha3 cr x) = 32" and inv: "storage_inv cr s" and fit: "heights_fit (st_chain s)"
    and b: "b \<in> set (st_chain s)"
  shows "contents R (saved cr R s) (pfx_blocks @ Block_hash cr b) = Some (serializeBlock b)"
    "contents R (saved cr R s) (pfx_blockHeightMaps @ uint64ToBytes (b_nHeight b)) = Some (Block_hash cr b)"
proof -
  let ?es = "rev (concat (map (block_puts cr) (st_chain s)))"
  have eqh: "b' = b" if b': "b' \<in> set (st_chain s)" and h: "Block_hash cr b' = Block_hash cr b" for b'
  proof -
    have "st_blockByHash s (Block_hash cr b) = Some b" "st_blockByHash s (Block_hash cr b) = Some b'"
      using storage_invD(5) [OF inv, of "Block_hash cr b"] b b' h by blast+
    then show ?thesis by simp
  qed
  have eqn: "b' = b" if b': "b' \<in> set (st_chain s)" and n: "b_nHeight b' = b_nHeight b" for b'
  proof -
    obtain i j where ij: "i < length (st_chain s)" "st_chain s ! i = b" "j < length (st_chain s)" "st_chain s ! j = b'"
      using b b' unfolding in_set_conv_nth by blast
    have "i = j"
      using linked_heights [OF storage_invD(1) [OF inv] fit ij(1)] linked_heights [OF storage_invD(1) [OF inv] fit ij(3)] ij n
      by simp
    then show ?thesis using ij by simp
  qed
  have es: "e \<in> set ?es \<longleftrightarrow> (\<exists>b'\<in>set (st_chain s). e \<in> set (block_puts cr b'))" for e by auto
  have "map_of ?es (pfx_blocks @ Block_hash cr b) = Some (serializeBlock b)"
  proof (rule map_of_unique)
    show "(pfx_blocks @ Block_hash cr b, serializeBlock b) \<in> set ?es" unfolding es in_block_puts using b by blast
    show "v' = serializeBlock b" if "(pfx_blocks @ Block_hash cr b, v') \<in> set ?es" for v'
      using that eqh unfolding es in_block_puts by metis
  qed
  moreover have "map_of ?es (pfx_blockHeightMaps @ uint64ToBytes (b_nHeight b)) = Some (Block_hash cr b)"
  proof (rule map_of_unique)
    show "(pfx_blockHeightMaps @ uint64ToBytes (b_nHeight b), Block_hash cr b) \<in> set ?es" unfolding es in_block_puts using b by blast
    show "v' = Block_hash cr b" if "(pfx_blockHeightMaps @ uint64ToBytes (b_nHeight b), v') \<in> set ?es" for v'
      using that eqn unfolding es in_block_puts c64.enc_inj by metis
  qed
  moreover have "Block_hash cr b \<noteq> key_latest"
    using sha [of "serializeHeader b"] key_latest_length by (auto simp: Block_hash_def)
  moreover have "pfx_blockHeightMaps \<noteq> pfx_blocks" "length pfx_blockHeightMaps = length pfx_blocks"
    by (simp_all add: pfx_blockHeightMaps_def pfx_blocks_def)
  ultimately show "contents R (saved cr R s) (pfx_blocks @ Block_hash cr b) = Some (serializeBlock b)"
    "contents R (saved cr R s) (pfx_blockHeightMaps @ uint64ToBytes (b_nHeight b)) = Some (Block_hash cr b)"
    by (simp_all add: contents_saved [OF R] map_add_Some_iff)
qed


section \<open>What is read\<close>

text \<open>The entries of the height map that the constructor can read.\<close>

definition heights_sized :: "'d rocks \<Rightarrow> 'd \<Rightarrow> bool" where
  "heights_sized R d \<longleftrightarrow> (\<forall>k v. contents R d (pfx_blockHeightMaps @ k) = Some v \<longrightarrow> length k = 8 \<and> length v = 32)"

lemma load_maps_ok:
  assumes "distinct (map fst es)" "\<forall>(k, v)\<in>set es. length k = 8 \<and> length v = 32"
    "\<forall>k\<in>fst ` set es. \<forall>h. bytesToUint64 k = Inr h \<longrightarrow> st_blockHashByHeight s h = None"
  shows "\<exists>s'. load_maps es s = Inr s' \<and> st_db s' = st_db s \<and> same_index s s' \<and>
    st_blockHashByHeight s' = st_blockHashByHeight s ++ (\<lambda>h. map_of es (uint64ToBytes h))"
  using assms
proof (induction es arbitrary: s)
  case (Cons e es)
  obtain k v where e: "e = (k, v)" by (cases e)
  obtain h where h: "bytesToUint64 k = Inr h" "uint64ToBytes h = k" using c64.dec_total [of k] Cons.prems(2) e by auto
  define s1 where "s1 = s\<lparr>st_blockHashByHeight := (st_blockHashByHeight s)(h \<mapsto> v),
      st_blockHeightByHash := map_insert v h (st_blockHeightByHash s)\<rparr>"
  have s1: "st_blockHashByHeight s1 = (st_blockHashByHeight s)(h \<mapsto> v)" "st_db s1 = st_db s" "same_index s s1"
    by (simp_all add: s1_def same_index_def)
  have none: "st_blockHashByHeight s h = None" using Cons.prems(3) h(1) e by auto
  have "\<forall>k'\<in>fst ` set es. \<forall>h'. bytesToUint64 k' = Inr h' \<longrightarrow> st_blockHashByHeight s1 h' = None"
  proof (intro ballI allI impI)
    fix k' h' assume k': "k' \<in> fst ` set es" "bytesToUint64 k' = Inr h'"
    have "k' \<noteq> k" using k'(1) Cons.prems(1) e by auto
    then have "h' \<noteq> h" using k'(2) h(2) unfolding c64.dec_ok_iff by blast
    moreover have "k' \<in> fst ` set (e # es)" using k'(1) by simp
    then have "st_blockHashByHeight s h' = None" using k'(2) Cons.prems(3) by blast
    ultimately show "st_blockHashByHeight s1 h' = None" by (simp add: s1)
  qed
  moreover have "distinct (map fst es)" "\<forall>(k, v)\<in>set es. length k = 8 \<and> length v = 32" using Cons.prems(1,2) by simp_all
  ultimately obtain s' where s': "load_maps es s1 = Inr s'" "st_db s' = st_db s1" "same_index s1 s'"
    "st_blockHashByHeight s' = st_blockHashByHeight s1 ++ (\<lambda>h. map_of es (uint64ToBytes h))"
    using Cons.IH [of s1] by blast
  have noh: "map_of es (uint64ToBytes h) = None" using Cons.prems(1) e h(2) by (simp add: map_of_eq_None_iff)
  have cons: "map_of (e # es) (uint64ToBytes h') = (if h' = h then Some v else map_of es (uint64ToBytes h'))" for h'
    using h(2) c64.enc_inj [of h' h] by (simp add: e eq_commute)
  have "st_blockHashByHeight s' = st_blockHashByHeight s ++ (\<lambda>h. map_of (e # es) (uint64ToBytes h))"
  proof (rule ext)
    fix h' show "st_blockHashByHeight s' h' = (st_blockHashByHeight s ++ (\<lambda>h. map_of (e # es) (uint64ToBytes h))) h'"
      unfolding s'(4) s1(1) map_add_def cons using noh by (cases "h' = h") (simp_all split: option.split)
  qed
  moreover have "load_maps (e # es) s = Inr s'"
    using s'(1) h(1) none Cons.prems(2) e by (simp add: FixedBytes_of_Bytes_def map_insert_def s1_def)
  ultimately show ?case using s'(2,3) s1(2,3) by (simp add: same_index_def)
qed (simp add: same_index_def)

text \<open>Where the loop of the constructor can run: the blocks of the chain are in the database.\<close>

definition on_disk :: "crypto \<Rightarrow> nat \<Rightarrow> 'd rocks \<Rightarrow> block list \<Rightarrow> 'd storage \<Rightarrow> bool" where
  "on_disk cr thrNum R bs s \<longleftrightarrow> (\<forall>b\<in>set bs. st_blockHashByHeight s (b_nHeight b) = Some (Block_hash cr b) \<and>
     Block_parse cr thrNum (DB_get R (st_db s) (Block_hash cr b) pfx_blocks) = Inr b)"

lemma load_blocks_ok:
  assumes "linked cr bs" "distinct (map (Block_hash cr) bs)" "distinct (tx_hashes cr bs)"
    "\<forall>b\<in>set bs. length (b_txs b) < 2 ^ 32"
    "on_disk cr thrNum R bs s" "storage_reach cr thrNum R s" "st_chain s = drop j bs" "j \<le> length bs" "n \<le> j"
    "n \<noteq> 0 \<longrightarrow> height = b_nHeight (bs ! (j - 1))"
  shows "\<exists>s'. load_blocks cr thrNum R n height s = (s', Inr ()) \<and> st_chain s' = drop (j - n) bs \<and>
    st_db s' = st_db s \<and> st_cachedTxs s' = st_cachedTxs s \<and> storage_reach cr thrNum R s'"
  using assms
proof (induction n arbitrary: j height s)
  case (Suc n)
  then obtain i where j: "j = Suc i" by (cases j) auto
  let ?b = "bs ! i"
  have i: "i < length bs" "?b \<in> set bs" using Suc.prems(8) j by auto
  have height: "height = b_nHeight ?b" using Suc.prems(10) j by simp
  have disk: "st_blockHashByHeight s height = Some (Block_hash cr ?b)"
    "Block_parse cr thrNum (DB_get R (st_db s) (Block_hash cr ?b) pfx_blocks) = Inr ?b"
    using Suc.prems(5) i(2) height by (auto simp: on_disk_def)
  have split: "drop i bs = ?b # drop j bs" using i(1) j by (simp add: Cons_nth_drop_Suc)
  have fresh: "fresh_block cr ?b s"
  proof -
    have "distinct (map (Block_hash cr) (drop i bs))" using Suc.prems(2) by (metis distinct_drop drop_map)
    moreover have "distinct (tx_hashes cr (drop i bs))"
      using Suc.prems(3) tx_hashes_simps(3) [of cr "take i bs" "drop i bs"] by simp
    ultimately show ?thesis using Suc.prems(4,7) i(2) unfolding split by (simp add: fresh_block_def)
  qed
  define s1 where "s1 = index_block cr ?b (s\<lparr>st_chain := ?b # st_chain s\<rparr>)"
  have "linked cr (drop i bs)"
    using Suc.prems(1) linked_append [of cr "take i bs" "drop i bs"] unfolding append_take_drop_id by blast
  then have l: "linked cr (?b # drop j bs)" unfolding split .
  have push: "pushFrontInternal cr ?b s = (s1, Inr ())"
    using Suc.prems(7) l unfolding linked_Cons by (auto simp: pushFrontInternal_def s1_def)
  have "storage_reach cr thrNum R s1" using storage_reach.pushFront [OF Suc.prems(6) fresh] push by simp
  moreover have "st_chain s1 = drop i bs" using split Suc.prems(7) by (simp add: s1_def index_block_def)
  moreover have "on_disk cr thrNum R bs s1"
  proof -
    have "st_db s1 = st_db s" "\<And>h x. st_blockHashByHeight s h = Some x \<Longrightarrow> st_blockHashByHeight s1 h = Some x"
      by (auto simp: s1_def index_block_def map_insert_def)
    then show ?thesis using Suc.prems(5) by (simp add: on_disk_def)
  qed
  moreover have "n \<noteq> 0 \<longrightarrow> height - 1 = b_nHeight (bs ! (i - 1))"
  proof
    assume "n \<noteq> 0"
    then obtain m where "i = Suc m" using Suc.prems(9) j by (cases i) auto
    then show "height - 1 = b_nHeight (bs ! (i - 1))"
      using linked_nth [OF Suc.prems(1), of i] linked_nth [OF Suc.prems(1), of m] i(1) height by simp
  qed
  moreover have "n \<le> i" using Suc.prems(9) j by simp
  ultimately obtain s' where s': "load_blocks cr thrNum R n (height - 1) s1 = (s', Inr ())" "st_chain s' = drop (i - n) bs"
    "st_db s' = st_db s1 \<and> st_cachedTxs s' = st_cachedTxs s1" "storage_reach cr thrNum R s'"
    using Suc.IH [OF Suc.prems(1-4), of s1 i "height - 1"] less_imp_le [OF i(1)] by blast
  have "load_blocks cr thrNum R (Suc n) height s = (s', Inr ())"
    using disk push s'(1) by (simp add: map_index_def Let_def bindS_def liftS_def)
  moreover have "st_db s1 = st_db s" "st_cachedTxs s1 = st_cachedTxs s" by (simp_all add: s1_def index_block_def)
  ultimately show ?case using s'(2-4) j by (intro exI [of _ s']) simp
qed simp


section \<open>One transaction of a serialized block\<close>

lemma skip_to_tx_put:
  assumes "\<forall>x\<in>set xs. length x + 4 < 2 ^ 32" "n \<le> length xs"
  shows "skip_to_tx (pre @ concat (map put_sized xs) @ post) (length pre) n = Inr (length (pre @ concat (map put_sized (take n xs))))"
  using assms
proof (induction n arbitrary: pre xs)
  case (Suc n)
  then obtain x ys where xs: "xs = x # ys" by (cases xs) auto
  let ?bs = "pre @ concat (map put_sized xs) @ post"
  have x: "length x + 4 < 2 ^ 32" using Suc.prems(1) xs by simp
  then have "read_size ?bs (length pre) = Inr (length x)"
    using read_size_put(1) [of x pre "concat (map put_sized ys) @ post"] xs by simp
  moreover have "unat ((of_nat (length x) :: uint32) + 4) = length x + 4"
  proof -
    have "(of_nat (length x) :: uint32) + 4 = of_nat (length x + 4)" by simp
    moreover have "unat (of_nat (length x + 4) :: uint32) = length x + 4" using x by (intro unat_of_nat_eq) simp
    ultimately show ?thesis by simp
  qed
  ultimately have "skip_to_tx ?bs (length pre) (Suc n) = skip_to_tx ?bs (length (pre @ put_sized x)) n"
    by (simp add: length_put_sized)
  also have "\<dots> = skip_to_tx ((pre @ put_sized x) @ concat (map put_sized ys) @ post) (length (pre @ put_sized x)) n"
    by (simp add: xs)
  also have "\<dots> = Inr (length ((pre @ put_sized x) @ concat (map put_sized (take n ys))))"
    using Suc.prems xs by (intro Suc.IH) simp_all
  finally show ?case by (simp add: xs)
qed simp

text \<open>A block that survives its serialization, with room for the 32-bit offsets.\<close>

definition block_wire :: "crypto \<Rightarrow> nat \<Rightarrow> block \<Rightarrow> bool" where
  "block_wire cr thrNum b \<longleftrightarrow> header_sized b \<and> txs_wire cr b \<and> (\<forall>t\<in>set (b_txs b). length (TxBlock_rlpSerialize True t) + 4 < 2 ^ 32) \<and>
     Block_parse cr thrNum (serializeBlock b) = Inr b"

lemma getTxFromBlock_put:
  assumes "block_wire cr thrNum b" "unat i < length (b_txs b)"
  shows "getTxFromBlockWithIndex cr (serializeBlock b) i = Inr (b_txs b ! unat i)"
proof -
  let ?xs = "map (TxBlock_rlpSerialize True) (b_txs b)" and ?n = "unat i" and ?t = "b_txs b ! unat i"
  define pre where "pre = b_validatorSig b @ serializeHeader b @ uint64ToBytes (of_nat (217 + length (txs_bytes b)))"
  have h: "header_sized b" "txs_wire cr b" "\<forall>t\<in>set (b_txs b). length (TxBlock_rlpSerialize True t) + 4 < 2 ^ 32"
    using assms(1) by (auto simp: block_wire_def)
  have pre: "length pre = 217"
    using length_serializeHeader [OF h(1)] h(1) by (simp add: pre_def header_sized_def c64.enc_length)
  have bs: "serializeBlock b = pre @ concat (map put_sized ?xs) @ validators_bytes b"
    using serializeBlock_eq [OF h(1)] by (simp add: pre_def txs_bytes_def comp_def)
  define mid where "mid = pre @ concat (map put_sized (take ?n ?xs))"
  have skip: "skip_to_tx (serializeBlock b) 217 ?n = Inr (length mid)"
    using skip_to_tx_put [of ?xs ?n pre "validators_bytes b"] h(3) assms(2) pre by (simp add: bs mid_def)
  have "?xs = take ?n ?xs @ TxBlock_rlpSerialize True ?t # drop (Suc ?n) ?xs"
    using assms(2) id_take_nth_drop [of ?n ?xs] by simp
  then have "concat (map put_sized ?xs) = concat (map put_sized (take ?n ?xs)) @ put_sized (TxBlock_rlpSerialize True ?t) @
      concat (map put_sized (drop (Suc ?n) ?xs))"
    by (metis concat.simps(2) concat_append list.simps(9) map_append)
  then have bs': "serializeBlock b = mid @ put_sized (TxBlock_rlpSerialize True ?t) @
      (concat (map put_sized (drop (Suc ?n) ?xs)) @ validators_bytes b)"
    by (simp add: bs mid_def)
  have t: "?t \<in> set (b_txs b)" using assms(2) by simp
  then have "length (TxBlock_rlpSerialize True ?t) < 2 ^ 32" "TxBlock_parse cr (TxBlock_rlpSerialize True ?t) = Inr ?t"
    using h(2) unfolding txs_wire_def by blast+
  then show ?thesis
    unfolding getTxFromBlockWithIndex_def skip using read_size_put [of "TxBlock_rlpSerialize True ?t" mid]
    by (simp add: bs')
qed


lemma in_enumerate: "x \<in> f ` set (enumerate 0 ts) \<longleftrightarrow> (\<exists>j<length ts. x = f (j, ts ! j))"
  by (force simp: enumerate_eq_zip set_zip)

lemma saved_tx:
  assumes R: "rocks_ok R" and inv: "storage_inv cr s" and b: "b \<in> set (st_chain s)" and i: "i < length (b_txs b)"
  shows "contents R (saved cr R s) (pfx_txToBlocks @ TxBlock_hash cr True (b_txs b ! i)) =
    Some (Block_hash cr b @ uint32ToBytes (of_nat i) @ uint64ToBytes (b_nHeight b))"
proof -
  let ?es = "rev (concat (map (block_puts cr) (st_chain s)))" and ?h = "TxBlock_hash cr True (b_txs b ! i)"
  have in_puts: "(pfx_txToBlocks @ k, v) \<in> set (block_puts cr b') \<longleftrightarrow> (\<exists>j<length (b_txs b'). k = TxBlock_hash cr True (b_txs b' ! j) \<and>
      v = Block_hash cr b' @ uint32ToBytes (of_nat j) @ uint64ToBytes (b_nHeight b'))" for k v b'
    by (auto simp: block_puts_def tx_puts_def in_enumerate pfx_blocks_def pfx_blockHeightMaps_def pfx_txToBlocks_def)
  have es: "e \<in> set ?es \<longleftrightarrow> (\<exists>b'\<in>set (st_chain s). e \<in> set (block_puts cr b'))" for e by auto
  have at: "st_txByHash s ?h = Some (Block_hash cr b', of_nat j, b_nHeight b')"
    if "b' \<in> set (st_chain s)" "j < length (b_txs b')" "?h = TxBlock_hash cr True (b_txs b' ! j)" for b' j
    using that storage_invD(6) [OF inv, of ?h] unfolding tx_at_def by blast
  have idx: "unat (of_nat j :: uint64) = j" if "b' \<in> set (st_chain s)" "j < length (b_txs b')" for b' j
    using storage_invD(4) [OF inv that(1)] that(2) by (intro unat_of_nat_eq) simp
  have "map_of ?es (pfx_txToBlocks @ ?h) = Some (Block_hash cr b @ uint32ToBytes (of_nat i) @ uint64ToBytes (b_nHeight b))"
  proof (rule map_of_unique)
    show "(pfx_txToBlocks @ ?h, Block_hash cr b @ uint32ToBytes (of_nat i) @ uint64ToBytes (b_nHeight b)) \<in> set ?es"
      unfolding es in_puts using b i by blast
    fix v' assume "(pfx_txToBlocks @ ?h, v') \<in> set ?es"
    then obtain b' j where j: "b' \<in> set (st_chain s)" "j < length (b_txs b')" "?h = TxBlock_hash cr True (b_txs b' ! j)"
      "v' = Block_hash cr b' @ uint32ToBytes (of_nat j) @ uint64ToBytes (b_nHeight b')"
      unfolding es in_puts by blast
    have eq: "Block_hash cr b' = Block_hash cr b" "(of_nat j :: uint64) = of_nat i" "b_nHeight b' = b_nHeight b"
      using at [OF j(1-3)] at [OF b i refl] by simp_all
    have "j = i" using idx [OF b i] idx [OF j(1,2)] unfolding eq(2) by simp
    then show "v' = Block_hash cr b @ uint32ToBytes (of_nat i) @ uint64ToBytes (b_nHeight b)" using j(4) eq by simp
  qed
  moreover have "pfx_txToBlocks @ ?h \<noteq> pfx_blocks @ key_latest" by (simp add: pfx_txToBlocks_def pfx_blocks_def)
  ultimately show ?thesis by (simp add: contents_saved [OF R] map_add_Some_iff)
qed

text \<open>A transaction that is neither on the chain in memory nor cached is found in the database.\<close>

lemma getTx_saved:
  assumes R: "rocks_ok R" and sha: "\<And>x. length (sha3 cr x) = 32" and inv: "storage_inv cr s" and fit: "heights_fit (st_chain s)"
    and b: "b \<in> set (st_chain s)" and i: "i < length (b_txs b)" and wire: "block_wire cr thrNum b"
    and s': "st_db s' = saved cr R s" "st_txByHash s' h = None" "st_cachedTxs s' h = None"
    and h: "h = TxBlock_hash cr True (b_txs b ! i)"
  shows "snd (getTx cr R h s') = Inr (Some (b_txs b ! i), Block_hash cr b, of_nat i, b_nHeight b)"
proof -
  let ?v = "Block_hash cr b @ uint32ToBytes (of_nat i) @ uint64ToBytes (b_nHeight b)"
  note tx = saved_tx [OF R inv b i, folded h]
  have get: "DB_get R (st_db s') h pfx_txToBlocks = ?v" "DB_has R (st_db s') h pfx_txToBlocks"
    "DB_get R (st_db s') (Block_hash cr b) pfx_blocks = serializeBlock b"
    using tx saved_entries(1) [OF R sha inv fit b] by (simp_all add: DB_get_eq [OF R] DB_has_iff [OF R] s'(1))
  have hl: "length (Block_hash cr b) = 32" by (simp add: Block_hash_def sha)
  have "i < 2 ^ 32" using i storage_invD(4) [OF inv b] by simp
  then have i32: "unat (of_nat i :: uint32) = i" "unat (of_nat i :: uint64) = i" by (auto intro!: unat_of_nat_eq)
  have "(of_nat (unat (of_nat i :: uint32)) :: uint64) = ucast (of_nat i :: uint32)" by (rule of_nat_unat)
  then have u: "ucast (of_nat i :: uint32) = (of_nat i :: uint64)" unfolding i32(1) by simp
  have spans: "subspan ?v 0 32 = Inr (Block_hash cr b)" "bindR (subspan ?v 32 4) bytesToUint32 = Inr (of_nat i)"
    "bindR (subspan ?v 36 8) bytesToUint64 = Inr (b_nHeight b)"
    using c32.dec_field [of "Block_hash cr b" 32 "of_nat i"]
      c64.dec_field [of "Block_hash cr b @ uint32ToBytes (of_nat i)" 36 "b_nHeight b" "[]"]
    by (simp_all add: hl c32.enc_length subspan_def)
  have "txExists R h s' = OnDB" using s'(2,3) get(2) by (simp add: txExists_def)
  moreover have "getTxFromBlockWithIndex cr (serializeBlock b) (of_nat i) = Inr (b_txs b ! i)"
    using getTxFromBlock_put [OF wire, of "of_nat i"] i i32 by simp
  ultimately show ?thesis
    using s'(3) by (simp add: getTx_def get spans u bindS_def liftS_def cache_tx_def cachedTx_index_def map_index_def map_insert_def)
qed


section \<open>Restart\<close>

lemma heights_sized_saved:
  assumes R: "rocks_ok R" and sha: "\<And>x. length (sha3 cr x) = 32" and d: "heights_sized R (st_db s)"
  shows "heights_sized R (saved cr R s)"
  unfolding heights_sized_def
proof (intro allI impI)
  fix k v assume v: "contents R (saved cr R s) (pfx_blockHeightMaps @ k) = Some v"
  have "pfx_blockHeightMaps @ k \<noteq> pfx_blocks @ key_latest" by (simp add: pfx_blockHeightMaps_def pfx_blocks_def)
  then consider "contents R (st_db s) (pfx_blockHeightMaps @ k) = Some v" |
    "(pfx_blockHeightMaps @ k, v) \<in> set (concat (map (block_puts cr) (st_chain s)))"
    using v unfolding contents_saved [OF R] by (auto simp: map_add_Some_iff dest: map_of_SomeD)
  then show "length k = 8 \<and> length v = 32"
  proof cases
    case 1
    then show ?thesis using d unfolding heights_sized_def by blast
  next
    case 2
    then show ?thesis by (auto simp: in_block_puts c64.enc_length Block_hash_def sha)
  qed
qed

lemma saved_maps:
  assumes R: "rocks_ok R" and "heights_sized R d"
  obtains s where "load_maps (DB_getBatch R d pfx_blockHeightMaps []) (Storage_empty d) = Inr s" "st_db s = d"
    "same_index (Storage_empty d) s" "\<And>h. st_blockHashByHeight s h = contents R d (pfx_blockHeightMaps @ uint64ToBytes h)"
    "st_cachedTxs s = Map.empty"
proof -
  let ?es = "DB_getBatch R d pfx_blockHeightMaps []"
  note es = getBatch_entries [OF R, of d pfx_blockHeightMaps]
  have "\<forall>(k, v)\<in>set ?es. length k = 8 \<and> length v = 32" using assms(2) unfolding es(1) heights_sized_def by blast
  from load_maps_ok [OF es(2) this, of "Storage_empty d"] obtain s where s: "load_maps ?es (Storage_empty d) = Inr s" "st_db s = d"
    "same_index (Storage_empty d) s" "st_blockHashByHeight s = Map.empty ++ (\<lambda>h. map_of ?es (uint64ToBytes h))"
    by (auto simp: Storage_empty_def)
  have "map_of ?es k = contents R d (pfx_blockHeightMaps @ k)" for k
    using es by (cases "contents R d (pfx_blockHeightMaps @ k)") (auto simp: map_of_eq_None_iff)
  moreover have "load_maps es s0 = Inr s \<Longrightarrow> st_cachedTxs s = st_cachedTxs s0" for es s0
    by (induction es s0 rule: load_maps.induct) (auto simp: res_simps)
  from this [OF s(1)] have "st_cachedTxs s = Map.empty" by (simp add: Storage_empty_def)
  ultimately show thesis using that s by simp
qed

text \<open>A transaction of a block that is not in memory is not in the index, because no hash is there twice.\<close>

lemma unloaded:
  assumes inv: "storage_inv cr s" "storage_inv cr s'" and sub: "set (st_chain s') \<subseteq> set (st_chain s)"
    and b: "b \<in> set (st_chain s)" "b \<notin> set (st_chain s')" and i: "i < length (b_txs b)"
  shows "st_txByHash s' (TxBlock_hash cr True (b_txs b ! i)) = None"
proof (rule ccontr)
  let ?h = "TxBlock_hash cr True (b_txs b ! i)"
  assume "st_txByHash s' ?h \<noteq> None"
  then obtain e b' where e: "b' \<in> set (st_chain s')" "tx_at cr b' ?h e" using storage_invD(6) [OF inv(2), of ?h] by blast
  then have "st_txByHash s ?h = Some e" using storage_invD(6) [OF inv(1), of ?h e] sub by blast
  moreover have "tx_at cr b ?h (Block_hash cr b, of_nat i, b_nHeight b)" using i unfolding tx_at_def by blast
  then have "st_txByHash s ?h = Some (Block_hash cr b, of_nat i, b_nHeight b)" using storage_invD(6) [OF inv(1)] b(1) by blast
  ultimately have "fst e = Block_hash cr b" by auto
  then have "Block_hash cr b' = Block_hash cr b" using e(2) by (auto simp: tx_at_def)
  then have "st_blockByHash s (Block_hash cr b) = Some b" "st_blockByHash s (Block_hash cr b) = Some b'"
    using storage_invD(5) [OF inv(1), of "Block_hash cr b"] b(1) e(1) sub by blast+
  then show False using b(2) e(1) by simp
qed

section \<open>Properties\<close>



section \<open>Witnesses\<close>

text \<open>A chain of one block of height 0, over the log store.\<close>

definition demo_first :: block where
  "demo_first = fst (finalize demo_crypto [] 7 (Block_new (replicate 32 1) 5 0))"

lemma demo_first_ok: "b_nHeight demo_first = 0" "b_txs demo_first = []" "block_wire demo_crypto 1 demo_first"
proof -
  have fin: "finalize demo_crypto [] 7 (Block_new (replicate 32 1) 5 0) = (demo_first, Inr True)" "b_validatorSig demo_first = makeSig 5 1 1"
    by (simp_all add: demo_first_def finalize_def Let_def demo_sign Block_new_def)
  show same: "b_nHeight demo_first = 0" "b_txs demo_first = []"
    by (simp_all add: demo_first_def finalize_def Let_def demo_sign Block_new_def)
  have sha: "length (sha3 demo_crypto x) = 32" for x by (simp add: demo_crypto_def)
  have "Block_parse demo_crypto 1 (serializeBlock demo_first) = Inr demo_first"
    by (rule Block_read_back [OF fin(1) sha _ _ _ fin(2)]) (simp_all add: Block_new_def txs_wire_def txs_bytes_def verifySig_def ecConst_def)
  moreover have "header_sized demo_first"
    using length_getRoot [OF sha] by (simp add: header_sized_def demo_first_def finalize_def Let_def demo_sign Block_new_def makeSig_parts
        tx_root_def validator_root_def parseTxSeedList_def sha)
  moreover have "b_txValidators demo_first = []" by (simp add: demo_first_def finalize_def Let_def demo_sign Block_new_def)
  ultimately show "block_wire demo_crypto 1 demo_first" using same by (simp add: block_wire_def txs_wire_def)
qed

definition demo_first_store :: "(bytes \<times> bytes) list storage" where
  "demo_first_store = fst (pushBackInternal demo_crypto demo_first (Storage_empty []))"


end
