(* ===== verification/StateDisk.thy ===== *)
theory StateDisk
  imports State StorageDisk
begin

text \<open>
  The accounts on disk: what the destructor of \<^verbatim>\<open>State\<close> writes and its constructor reads (\<^verbatim>\<open>core/state.cpp\<close>).
\<close>

section \<open>One account\<close>

lemma size_byte:
  assumes "0 < n" "n < 256"
  obtains b :: byte where "uintToBytes (of_nat n :: uint32) = [b]" "unat b = n"
proof -
  let ?x = "of_nat n :: uint32"
  have un: "unat ?x = n" using assms by (intro unat_of_nat_eq) simp
  have "bytesRequired ?x \<le> 1" using un assms by (intro bytesRequired_le) simp
  moreover have "0 < bytesRequired ?x" using un assms by (intro bytesRequired_pos) simp
  ultimately have "length (uintToBytes ?x) = 1" by simp
  then obtain b where b: "uintToBytes ?x = [b]" by (metis One_nat_def length_0_conv length_Suc_conv)
  moreover have "unat b = n" using be_val_uintToBytes [of ?x] b un by simp
  ultimately show thesis by (rule that)
qed

lemma sized_field:
  fixes x :: "'n::len word"
  assumes "bytesRequired x < 256"
  obtains b :: byte where "(if x = 0 then [0] else uintToBytes (of_nat (bytesRequired x) :: uint32) @ uintToBytes x) = b # uintToBytes x"
    "unat b = bytesRequired x"
proof (cases "x = 0")
  case True
  then show thesis using that [of 0] by simp
next
  case False
  then have "0 < bytesRequired x" by (intro bytesRequired_pos) (simp add: unat_gt_0)
  then obtain b where "uintToBytes (of_nat (bytesRequired x) :: uint32) = [b]" "unat b = bytesRequired x"
    using size_byte [OF _ assms] by blast
  then show thesis using that [of b] False by simp
qed

lemma account_parse_value: "account_parse (account_value acc) = Inr acc"
proof -
  let ?x = "a_balance acc" and ?n = "a_nonce acc"
  have le: "bytesRequired ?x < 256" "bytesRequired ?n < 256" using bytesRequired_256 [of ?x] bytesRequired_64 [of ?n] by simp_all
  obtain b where b: "(if ?x = 0 then [0] else uintToBytes (of_nat (bytesRequired ?x) :: uint32) @ uintToBytes ?x) = b # uintToBytes ?x"
    "unat b = bytesRequired ?x" using sized_field [OF le(1)] by blast
  obtain c where c: "(if ?n = 0 then [0] else uintToBytes (of_nat (bytesRequired ?n) :: uint32) @ uintToBytes ?n) = c # uintToBytes ?n"
    "unat c = bytesRequired ?n" using sized_field [OF le(2)] by blast
  have v: "account_value acc = b # uintToBytes ?x @ c # uintToBytes ?n" unfolding account_value_def b(1) c(1) by simp
  have one: "unat (fromBigEndian [y] :: uint8) = unat y" for y :: byte
    using byte_bound [of y] by (simp add: unat_fromBigEndian)
  have spans: "subspan (account_value acc) 0 1 = Inr [b]" "subspan (account_value acc) 1 (bytesRequired ?x) = Inr (uintToBytes ?x)"
    "subspan (account_value acc) (1 + bytesRequired ?x) 1 = Inr [c]"
    "subspan (account_value acc) (2 + bytesRequired ?x) (bytesRequired ?n) = Inr (uintToBytes ?n)"
    "length (account_value acc) = 2 + bytesRequired ?x + bytesRequired ?n"
    by (simp_all add: v subspan_def)
  have "fromBigEndian_checked (uintToBytes ?x) = Inr ?x" "fromBigEndian (uintToBytes ?n) = ?n"
    using uintToBytes_minimal_roundtrip by blast+
  then show ?thesis by (simp add: account_parse_def spans Let_def one b(2) c(2) del: One_nat_def add_2_eq_Suc add_2_eq_Suc')
qed

section \<open>All accounts\<close>

lemma load_accounts_ok:
  assumes "distinct (map fst es)" "\<forall>(k, v)\<in>set es. length k = 20 \<and> (\<exists>acc. v = account_value acc)" "\<forall>k\<in>fst ` set es. accs k = None"
  shows "load_accounts es accs = Inr (accs ++ (\<lambda>k. map_option (\<lambda>v. case account_parse v of Inr acc \<Rightarrow> acc) (map_of es k)))"
  using assms
proof (induction es arbitrary: accs)
  case (Cons e es)
  obtain k v where e: "e = (k, v)" by (cases e)
  then obtain acc where v: "v = account_value acc" "length k = 20" using Cons.prems(2) by auto
  let ?g = "\<lambda>es k. map_option (\<lambda>v. case account_parse v of Inr acc \<Rightarrow> acc) (map_of es k)"
  have k: "accs k = None" "map_of es k = None" using Cons.prems(1,3) e by (auto simp: map_of_eq_None_iff)
  have "load_accounts (e # es) accs = load_accounts es (accs(k \<mapsto> acc))"
    using v k(1) by (simp add: e account_parse_value map_insert_def)
  also have "\<dots> = Inr (accs(k \<mapsto> acc) ++ ?g es)"
    using Cons.prems e by (intro Cons.IH) auto
  also have "accs(k \<mapsto> acc) ++ ?g es = accs ++ ?g (e # es)"
  proof (rule ext)
    fix k' show "(accs(k \<mapsto> acc) ++ ?g es) k' = (accs ++ ?g (e # es)) k'"
      using k(2) v(1) by (cases "k' = k") (simp_all add: e map_add_def account_parse_value split: option.split)
  qed
  finally show ?case .
qed (simp add: map_add_def)

lemma State_save_puts:
  "foldl (\<lambda>bt a. Batch_push_back a (f a) pfx bt) bt order = bt\<lparr>bt_puts := bt_puts bt @ map (\<lambda>a. (pfx @ a, f a)) order\<rparr>"
  by (induction order arbitrary: bt) (simp_all add: Batch_push_back_def)

lemma contents_save:
  assumes R: "rocks_ok R"
  shows "contents R (State_save R order accs d) (pfx_nativeAccounts @ a) =
    (if a \<in> set order then Some (account_value (the (accs a))) else contents R d (pfx_nativeAccounts @ a))"
proof -
  have m: "map_of (rev (map (\<lambda>a. (pfx_nativeAccounts @ a, account_value (the (accs a)))) order)) (pfx_nativeAccounts @ a) =
      (if a \<in> set order then Some (account_value (the (accs a))) else None)"
  proof (cases "a \<in> set order")
    case True
    then show ?thesis by (simp, intro map_of_unique) auto
  next
    case False
    then show ?thesis by (auto simp: map_of_eq_None_iff)
  qed
  show ?thesis
    unfolding State_save_def State_save_puts contents_putBatch [OF R] by (simp add: Batch_new_def map_add_def m restrict_map_def)
qed

section \<open>Properties\<close>

text \<open>
  C39. The accounts survive a restart: what the destructor saves of a non-empty map of accounts is what the constructor
  loads, whatever the order in which the map is iterated and whatever older values of the same accounts are on disk.
\<close>

theorem State_accounts_restart:
  assumes R: "rocks_ok R" and order: "set order = dom accs" "order \<noteq> []" "\<forall>a\<in>dom accs. length a = 20"
    and old: "\<And>a. contents R d (pfx_nativeAccounts @ a) \<noteq> None \<Longrightarrow> a \<in> dom accs"
  shows "State_accounts R (State_save R order accs d) = Inr (State_save R order accs d, accs)"
proof -
  let ?d = "State_save R order accs d"
  let ?es = "DB_getBatch R ?d pfx_nativeAccounts []"
  note es = getBatch_entries [OF R, of ?d pfx_nativeAccounts]
  have entries: "(a, v) \<in> set ?es \<longleftrightarrow> (\<exists>acc. accs a = Some acc \<and> v = account_value acc)" for a v
  proof (cases "a \<in> set order")
    case True
    then show ?thesis using order(1) unfolding es(1) by (auto simp: contents_save [OF R])
  next
    case False
    moreover from this have "contents R d (pfx_nativeAccounts @ a) = None" using old [of a] order(1) by blast
    ultimately show ?thesis using order(1) unfolding es(1) by (auto simp: contents_save [OF R])
  qed
  have "?es \<noteq> []"
  proof -
    obtain a where "a \<in> set order" using order(2) by (cases order) auto
    then obtain acc where "accs a = Some acc" using order(1) by blast
    then have "(a, account_value acc) \<in> set ?es" using entries by blast
    then show ?thesis by auto
  qed
  moreover have "\<forall>(k, v)\<in>set ?es. length k = 20 \<and> (\<exists>acc. v = account_value acc)" using entries order(3) by blast
  then have "load_accounts ?es Map.empty = Inr (Map.empty ++ (\<lambda>k. map_option (\<lambda>v. case account_parse v of Inr acc \<Rightarrow> acc) (map_of ?es k)))"
    by (intro load_accounts_ok [OF es(2)]) auto
  moreover have "map_option (\<lambda>v. case account_parse v of Inr acc \<Rightarrow> acc) (map_of ?es a) = accs a" for a
  proof (cases "accs a")
    case None
    then have "map_of ?es a = None" using entries [of a] by (force simp: map_of_eq_None_iff)
    then show ?thesis using None by simp
  next
    case (Some acc)
    then have "map_of ?es a = Some (account_value acc)" using entries [of a "account_value acc"] es(2) by simp
    then show ?thesis using Some by (simp add: account_parse_value)
  qed
  ultimately show ?thesis by (simp add: State_accounts_def)
qed

section \<open>Witnesses\<close>

theorem State_accounts_restart_witness:
  "State_accounts sl_rocks (State_save sl_rocks [replicate 20 9] (s_accounts demo_state) []) =
     Inr (State_save sl_rocks [replicate 20 9] (s_accounts demo_state) [], s_accounts demo_state)"
proof -
  have "contents sl_rocks [] k = None" for k by (simp add: contents_def sl_rocks_def sl_sort_def)
  then show ?thesis by (intro State_accounts_restart [OF sl_rocks_ok]) (simp_all add: demo_state_def)
qed

end
