(* ===== verification/P2PEncoding.thy ===== *)
theory P2PEncoding
  imports Block
begin

text \<open>
  The messages between nodes (\<^verbatim>\<open>net/p2p/encoding.h\<close>, \<^verbatim>\<open>net/p2p/encoding.cpp\<close>): the prefixes of request types and commands, the layout of a
  message, and the encoders and decoders of requests, answers and broadcasts. Random bytes, the clock and the version of
  the node are arguments; an \<^verbatim>\<open>unordered_map\<close> is the list of its entries in the order of iteration. The last section
  shows that every decoder returns what its encoder was given.
\<close>

unbundle bit_operations_syntax

section \<open>Definitions\<close>

subsection \<open>Types and prefixes\<close>

datatype NodeType = NORMAL_NODE | DISCOVERY_NODE

text \<open>
  The bounds checks of \<open>getRequestType\<close> and \<open>getCommandType\<close> admit the number after the last enumerator, a value of the
  enumeration that has no name.
\<close>

datatype RequestType = Requesting | Answering | Broadcasting | UnnamedRequest

datatype CommandType =
  Ping | Info | RequestNodes | RequestValidatorTxs | BroadcastValidatorTx | BroadcastTx | BroadcastBlock | UnnamedCommand

definition typePrefixes :: "bytes list" where
  "typePrefixes = [[0], [1], [2]]"

definition commandPrefixes :: "bytes list" where
  "commandPrefixes = [[0, 0], [0, 1], [0, 2], [0, 3], [0, 4], [0, 5], [0, 6]]"

fun request_index :: "RequestType \<Rightarrow> nat" where
  "request_index Requesting = 0" | "request_index Answering = 1" | "request_index Broadcasting = 2" | "request_index UnnamedRequest = 3"

fun command_index :: "CommandType \<Rightarrow> nat" where
  "command_index Ping = 0" | "command_index Info = 1" | "command_index RequestNodes = 2" | "command_index RequestValidatorTxs = 3"
| "command_index BroadcastValidatorTx = 4" | "command_index BroadcastTx = 5" | "command_index BroadcastBlock = 6"
| "command_index UnnamedCommand = 7"

definition getCommandType :: "bytes \<Rightarrow> CommandType res" where
  "getCommandType message =
     (if length message \<noteq> 2 then Inl (RuntimeError ''Invalid Command Type size.'')
      else bindR (bytesToUint16 message) (\<lambda>commandType.
        if unat commandType > length commandPrefixes then Inl (RuntimeError ''Invalid command type.'')
        else Inr ([Ping, Info, RequestNodes, RequestValidatorTxs, BroadcastValidatorTx, BroadcastTx, BroadcastBlock, UnnamedCommand]
                    ! unat commandType)))"

definition getCommandPrefix :: "CommandType \<Rightarrow> bytes res" where
  "getCommandPrefix commType = at_idx commandPrefixes (command_index commType)"

definition getRequestType :: "bytes \<Rightarrow> RequestType res" where
  "getRequestType message =
     (if length message \<noteq> 1 then Inl (RuntimeError ''Invalid Request Type size. '')
      else bindR (bytesToUint8 message) (\<lambda>requestType.
        if unat requestType > length typePrefixes then Inl (RuntimeError ''Invalid request type.'')
        else Inr ([Requesting, Answering, Broadcasting, UnnamedRequest] ! unat requestType)))"

definition getRequestTypePrefix :: "RequestType \<Rightarrow> bytes res" where
  "getRequestTypePrefix rtype = at_idx typePrefixes (request_index rtype)"

subsection \<open>Messages\<close>

type_synonym RequestID = bytes
type_synonym p2p_message = bytes

definition RequestID_new :: "uint64 \<Rightarrow> RequestID" where
  "RequestID_new v = uint64ToBytes v"

definition toUint64 :: "RequestID \<Rightarrow> uint64 res" where
  "toUint64 i = bytesToUint64 i"

definition Message_new :: "bytes \<Rightarrow> p2p_message res" where
  "Message_new raw = (if length raw < 11 then Inl (RuntimeError ''Invalid message size.'') else Inr raw)"

definition Message_type :: "p2p_message \<Rightarrow> RequestType res" where
  "Message_type m = bindR (subspan m 0 1) getRequestType"

definition Message_id :: "p2p_message \<Rightarrow> RequestID res" where
  "Message_id m = subspan m 1 8"

definition Message_command :: "p2p_message \<Rightarrow> CommandType res" where
  "Message_command m = bindR (subspan m 9 2) getCommandType"

definition Message_message :: "p2p_message \<Rightarrow> bytes res" where
  "Message_message m = subspan_from m 11"

text \<open>The common shape of all encoders: type, identifier, command and data, put together and given to the constructor.\<close>

definition make_message :: "RequestType \<Rightarrow> RequestID \<Rightarrow> CommandType \<Rightarrow> bytes \<Rightarrow> p2p_message res" where
  "make_message rtype i commType data =
     bindR (getRequestTypePrefix rtype) (\<lambda>p. bindR (getCommandPrefix commType) (\<lambda>c. Message_new (p @ i @ c @ data)))"

record NodeInfo =
  nodeVersion :: uint64
  currentTimestamp :: uint64
  latestBlockHeight :: uint64
  latestBlockHash :: Hash

text \<open>An address of boost::asio by its bytes, four or sixteen of them; a scope identifier is not modelled.\<close>

datatype ip_address = V4 bytes | V6 bytes

type_synonym NodeID = "ip_address \<times> uint16"

subsection \<open>Requests\<close>

definition RequestEncoder_ping :: "bytes \<Rightarrow> p2p_message res" where
  "RequestEncoder_ping rnd = make_message Requesting rnd Ping []"

text \<open>The data of the two \<open>info\<close> messages.\<close>

definition info_data :: "crypto \<Rightarrow> uint64 \<Rightarrow> uint64 \<Rightarrow> block \<Rightarrow> bytes" where
  "info_data cr version now latestBlock =
     uint64ToBytes version @ uint64ToBytes now @ uint64ToBytes (b_nHeight latestBlock) @ Block_hash cr latestBlock"

definition RequestEncoder_info :: "crypto \<Rightarrow> uint64 \<Rightarrow> uint64 \<Rightarrow> bytes \<Rightarrow> block \<Rightarrow> p2p_message res" where
  "RequestEncoder_info cr version now rnd latestBlock = make_message Requesting rnd Info (info_data cr version now latestBlock)"

definition RequestEncoder_requestNodes :: "bytes \<Rightarrow> p2p_message res" where
  "RequestEncoder_requestNodes rnd = make_message Requesting rnd RequestNodes []"

definition RequestEncoder_requestValidatorTxs :: "bytes \<Rightarrow> p2p_message res" where
  "RequestEncoder_requestValidatorTxs rnd = make_message Requesting rnd RequestValidatorTxs []"

definition bare_request :: "CommandType \<Rightarrow> p2p_message \<Rightarrow> bool res" where
  "bare_request commType m = (if length m \<noteq> 11 then Inr False else bindR (Message_command m) (\<lambda>c. Inr (c = commType)))"

definition RequestDecoder_ping :: "p2p_message \<Rightarrow> bool res" where
  "RequestDecoder_ping m = bare_request Ping m"

text \<open>The four fields of an \<open>info\<close> message.\<close>

definition parse_info :: "p2p_message \<Rightarrow> NodeInfo res" where
  "parse_info m =
     bindR (Message_message m) (\<lambda>data.
     bindR (bindR (subspan data 0 8) bytesToUint64) (\<lambda>version.
     bindR (bindR (subspan data 8 8) bytesToUint64) (\<lambda>epoch.
     bindR (bindR (subspan data 16 8) bytesToUint64) (\<lambda>height.
     bindR (subspan data 24 32) (\<lambda>hash.
     Inr \<lparr>nodeVersion = version, currentTimestamp = epoch, latestBlockHeight = height, latestBlockHash = hash\<rparr>)))))"

definition RequestDecoder_info :: "p2p_message \<Rightarrow> NodeInfo res" where
  "RequestDecoder_info m =
     (if length m \<noteq> 67 then Inl (RuntimeError ''Invalid Info message size.'')
      else bindR (Message_command m) (\<lambda>c.
        if c \<noteq> Info then Inl (RuntimeError ''Invalid Info message command.'') else parse_info m))"

definition RequestDecoder_requestNodes :: "p2p_message \<Rightarrow> bool res" where
  "RequestDecoder_requestNodes m = bare_request RequestNodes m"

definition RequestDecoder_requestValidatorTxs :: "p2p_message \<Rightarrow> bool res" where
  "RequestDecoder_requestValidatorTxs m = bare_request RequestValidatorTxs m"

subsection \<open>Answers\<close>

definition AnswerEncoder_ping :: "p2p_message \<Rightarrow> p2p_message res" where
  "AnswerEncoder_ping request = bindR (Message_id request) (\<lambda>i. make_message Answering i Ping [])"

definition AnswerEncoder_info :: "crypto \<Rightarrow> uint64 \<Rightarrow> uint64 \<Rightarrow> p2p_message \<Rightarrow> block \<Rightarrow> p2p_message res" where
  "AnswerEncoder_info cr version now request latestBlock =
     bindR (Message_id request) (\<lambda>i. make_message Answering i Info (info_data cr version now latestBlock))"

fun put_node :: "NodeID \<times> NodeType \<Rightarrow> bytes" where
  "put_node ((address, port), nodeType) =
     uint8ToBytes (case nodeType of NORMAL_NODE \<Rightarrow> 0 | DISCOVERY_NODE \<Rightarrow> 1) @
     uint8ToBytes (case address of V4 _ \<Rightarrow> 0 | V6 _ \<Rightarrow> 1) @
     (case address of V4 addressBytes \<Rightarrow> addressBytes | V6 addressBytes \<Rightarrow> addressBytes) @ uint16ToBytes port"

definition AnswerEncoder_requestNodes :: "p2p_message \<Rightarrow> (NodeID \<times> NodeType) list \<Rightarrow> p2p_message res" where
  "AnswerEncoder_requestNodes request nodes =
     bindR (Message_id request) (\<lambda>i. make_message Answering i RequestNodes (concat (map put_node nodes)))"

fun put_validator_tx :: "Hash \<times> tx_validator \<Rightarrow> bytes" where
  "put_validator_tx (h, t) = (let rlp = TxValidator_rlpSerialize True t in uint32ToBytes (of_nat (length rlp)) @ rlp)"

definition AnswerEncoder_requestValidatorTxs :: "p2p_message \<Rightarrow> (Hash \<times> tx_validator) list \<Rightarrow> p2p_message res" where
  "AnswerEncoder_requestValidatorTxs request txs =
     bindR (Message_id request) (\<lambda>i. make_message Answering i RequestValidatorTxs (concat (map put_validator_tx txs)))"

definition AnswerDecoder_ping :: "p2p_message \<Rightarrow> bool res" where
  "AnswerDecoder_ping m =
     (if length m \<noteq> 11 then Inr False
      else bindR (Message_type m) (\<lambda>t. if t \<noteq> Answering then Inr False else bindR (Message_command m) (\<lambda>c. Inr (c = Ping))))"

text \<open>The checks of type and command at the start of the other answer decoders.\<close>

definition expect_answer :: "CommandType \<Rightarrow> p2p_message \<Rightarrow> unit res" where
  "expect_answer commType m =
     bindR (Message_type m) (\<lambda>t. if t \<noteq> Answering then Inl (RuntimeError ''Invalid message type.'')
     else bindR (Message_command m) (\<lambda>c. if c \<noteq> commType then Inl (RuntimeError ''Invalid command.'') else Inr ()))"

definition AnswerDecoder_info :: "p2p_message \<Rightarrow> NodeInfo res" where
  "AnswerDecoder_info m = bindR (expect_answer Info m) (\<lambda>_. parse_info m)"

text \<open>Converting a number that is not an enumerator of a two-valued enumeration is undefined.\<close>

definition toNodeType :: "uint8 \<Rightarrow> NodeType res" where
  "toNodeType x = (if x = 0 then Inr NORMAL_NODE else if x = 1 then Inr DISCOVERY_NODE else Inl UndefinedBehaviour)"

text \<open>\<open>insert\<close> of an \<^verbatim>\<open>unordered_map\<close>, which keeps the entry that is there.\<close>

definition insert_node :: "NodeID \<Rightarrow> NodeType \<Rightarrow> (NodeID \<times> NodeType) list \<Rightarrow> (NodeID \<times> NodeType) list" where
  "insert_node nodeId nodeType nodes = (if nodeId \<in> fst ` set nodes then nodes else nodes @ [(nodeId, nodeType)])"

text \<open>The address that starts at an index, and the index behind it.\<close>

definition get_address :: "bytes \<Rightarrow> nat \<Rightarrow> uint8 \<Rightarrow> (ip_address \<times> nat) res" where
  "get_address data index ipVersion =
     (if ipVersion = 0 then bindR (subspan data index 4) (\<lambda>b. Inr (V4 b, index + 4))
      else if ipVersion = 1 then bindR (subspan data index 16) (\<lambda>b. Inr (V6 b, index + 16))
      else Inl (RuntimeError ''Invalid ip version.''))"

text \<open>One round of the loop: the entry at \<open>index\<close> and the index of the next one.\<close>

definition get_node :: "bytes \<Rightarrow> nat \<Rightarrow> ((NodeID \<times> NodeType) \<times> nat) res" where
  "get_node data index =
     (if length data < 8 then Inl (RuntimeError ''Invalid data size.'')
      else bindR (bindR (bindR (subspan data index 1) bytesToUint8) toNodeType) (\<lambda>nodeType.
        bindR (bindR (subspan data (index + 1) 1) bytesToUint8) (\<lambda>ipVersion.
        bindR (get_address data (index + 2) ipVersion) (\<lambda>(address, index).
        bindR (bindR (subspan data index 2) bytesToUint16) (\<lambda>port.
        Inr (((address, port), nodeType), index + 2))))))"

lemma get_node_advances: "get_node data index = Inr (n, i) \<Longrightarrow> index + 8 \<le> i"
  by (auto simp: get_node_def get_address_def res_simps split: if_splits prod.splits)

function get_nodes :: "bytes \<Rightarrow> nat \<Rightarrow> (NodeID \<times> NodeType) list \<Rightarrow> (NodeID \<times> NodeType) list res" where
  "get_nodes data index nodes =
     (if index < length data
      then bindR (get_node data index) (\<lambda>r. get_nodes data (snd r) (insert_node (fst (fst r)) (snd (fst r)) nodes))
      else Inr nodes)"
  by pat_completeness auto
termination
proof (relation "measure (\<lambda>(data, index, nodes). length data - index)")
  fix data :: bytes and index nodes r
  assume "index < length data" "get_node data index = Inr r"
  then show "((data, snd r, insert_node (fst (fst r)) (snd (fst r)) nodes), data, index, nodes) \<in> measure (\<lambda>(data, index, nodes). length data - index)"
    using get_node_advances [of data index "fst r" "snd r"] by simp
qed simp

declare get_nodes.simps [simp del]

definition AnswerDecoder_requestNodes :: "p2p_message \<Rightarrow> (NodeID \<times> NodeType) list res" where
  "AnswerDecoder_requestNodes m =
     bindR (expect_answer RequestNodes m) (\<lambda>_. bindR (Message_message m) (\<lambda>data. get_nodes data 0 []))"

text \<open>One round of the loop over the validator transactions; the size is compared with that of the whole data.\<close>

definition get_validator_tx :: "crypto \<Rightarrow> bytes \<Rightarrow> nat \<Rightarrow> (tx_validator \<times> nat) res" where
  "get_validator_tx cr data index =
     (if length data < 4 then Inl (RuntimeError ''Invalid data size.'')
      else bindR (bindR (subspan data index 4) bytesToUint32) (\<lambda>txSize.
        if length data < unat txSize then Inl (RuntimeError ''Invalid data size.'')
        else bindR (subspan data (index + 4) (unat txSize)) (\<lambda>txData.
          bindR (TxValidator_parse cr txData) (\<lambda>t. Inr (t, index + 4 + unat txSize)))))"

lemma get_validator_tx_advances: "get_validator_tx cr data index = Inr (t, i) \<Longrightarrow> index + 4 \<le> i"
  by (auto simp: get_validator_tx_def res_simps split: if_splits)

function get_validator_txs :: "crypto \<Rightarrow> bytes \<Rightarrow> nat \<Rightarrow> tx_validator list \<Rightarrow> tx_validator list res" where
  "get_validator_txs cr data index txs =
     (if index < length data
      then bindR (get_validator_tx cr data index) (\<lambda>r. get_validator_txs cr data (snd r) (txs @ [fst r]))
      else Inr txs)"
  by pat_completeness auto
termination
proof (relation "measure (\<lambda>(cr, data, index, txs). length data - index)")
  fix cr and data :: bytes and index and txs :: "tx_validator list" and r
  assume "index < length data" "get_validator_tx cr data index = Inr r"
  then show "((cr, data, snd r, txs @ [fst r]), cr, data, index, txs) \<in> measure (\<lambda>(cr, data, index, txs). length data - index)"
    using get_validator_tx_advances [of cr data index "fst r" "snd r"] by simp
qed simp

declare get_validator_txs.simps [simp del]

definition AnswerDecoder_requestValidatorTxs :: "crypto \<Rightarrow> p2p_message \<Rightarrow> tx_validator list res" where
  "AnswerDecoder_requestValidatorTxs cr m =
     bindR (expect_answer RequestValidatorTxs m) (\<lambda>_. bindR (Message_message m) (\<lambda>data. get_validator_txs cr data 0 []))"

subsection \<open>Broadcasts\<close>

definition FNVHash :: "bytes \<Rightarrow> uint64" where
  "FNVHash s = foldl (\<lambda>result b. (16777619 * result) XOR ucast b) 2166136261 s"

definition broadcast_message :: "CommandType \<Rightarrow> bytes \<Rightarrow> p2p_message res" where
  "broadcast_message commType data = make_message Broadcasting (uint64ToBytes (FNVHash data)) commType data"

definition BroadcastEncoder_broadcastValidatorTx :: "tx_validator \<Rightarrow> p2p_message res" where
  "BroadcastEncoder_broadcastValidatorTx t = broadcast_message BroadcastValidatorTx (TxValidator_rlpSerialize True t)"

definition BroadcastEncoder_broadcastTx :: "tx_block \<Rightarrow> p2p_message res" where
  "BroadcastEncoder_broadcastTx t = broadcast_message BroadcastTx (TxBlock_rlpSerialize True t)"

definition BroadcastEncoder_broadcastBlock :: "block \<Rightarrow> p2p_message res" where
  "BroadcastEncoder_broadcastBlock b = broadcast_message BroadcastBlock (serializeBlock b)"

definition broadcast_data :: "CommandType \<Rightarrow> p2p_message \<Rightarrow> bytes res" where
  "broadcast_data commType m =
     bindR (Message_type m) (\<lambda>t. if t \<noteq> Broadcasting then Inl (RuntimeError ''Invalid message type.'')
     else bindR (bindR (Message_id m) toUint64) (\<lambda>i. bindR (Message_message m) (\<lambda>data.
       if i \<noteq> FNVHash data then Inl (RuntimeError ''Invalid message id.'')
       else bindR (Message_command m) (\<lambda>c. if c \<noteq> commType then Inl (RuntimeError ''Invalid command.'') else Inr data))))"

definition BroadcastDecoder_broadcastValidatorTx :: "crypto \<Rightarrow> p2p_message \<Rightarrow> tx_validator res" where
  "BroadcastDecoder_broadcastValidatorTx cr m = bindR (broadcast_data BroadcastValidatorTx m) (TxValidator_parse cr)"

definition BroadcastDecoder_broadcastTx :: "crypto \<Rightarrow> p2p_message \<Rightarrow> tx_block res" where
  "BroadcastDecoder_broadcastTx cr m = bindR (broadcast_data BroadcastTx m) (TxBlock_parse cr)"

definition BroadcastDecoder_broadcastBlock :: "crypto \<Rightarrow> nat \<Rightarrow> p2p_message \<Rightarrow> block res" where
  "BroadcastDecoder_broadcastBlock cr thrNum m = bindR (broadcast_data BroadcastBlock m) (Block_parse cr thrNum)"

section \<open>Lemmas\<close>

subsection \<open>The layout of a message\<close>

lemma command_prefix_back:
  assumes "c \<noteq> UnnamedCommand"
  obtains p where "getCommandPrefix c = Inr p" "length p = 2" "getCommandType p = Inr c"
proof -
  have num: "bytesToUint16 [0, k] = Inr (of_nat (be_val [0, k]))" for k
    using bswap_memcpy_from [of "[0, k]" 2, where 'n = 16] by (simp add: bytesToUint16_def)
  have "\<exists>p. getCommandPrefix c = Inr p \<and> length p = 2 \<and> getCommandType p = Inr c"
    using assms by (cases c) (simp_all add: getCommandPrefix_def getCommandType_def at_idx_def commandPrefixes_def num be_val_def)
  then show thesis using that by blast
qed

lemma request_prefix_back:
  assumes "t \<noteq> UnnamedRequest"
  obtains p where "getRequestTypePrefix t = Inr p" "length p = 1" "getRequestType p = Inr t"
proof -
  have num: "bytesToUint8 [k] = Inr k" for k :: byte by (simp add: bytesToUint_ok_iff uint8ToBytes_eq)
  have "\<exists>p. getRequestTypePrefix t = Inr p \<and> length p = 1 \<and> getRequestType p = Inr t"
    using assms by (cases t) (simp_all add: getRequestTypePrefix_def getRequestType_def at_idx_def typePrefixes_def num)
  then show thesis using that by blast
qed

lemma make_message_parts:
  assumes "length i = 8" "t \<noteq> UnnamedRequest" "c \<noteq> UnnamedCommand"
  obtains m where "make_message t i c data = Inr m" "Message_type m = Inr t" "Message_id m = Inr i" "Message_command m = Inr c"
    "Message_message m = Inr data" "length m = 11 + length data"
proof -
  obtain p where p: "getRequestTypePrefix t = Inr p" "length p = 1" "getRequestType p = Inr t"
    using request_prefix_back [OF assms(2)] .
  obtain q where q: "getCommandPrefix c = Inr q" "length q = 2" "getCommandType q = Inr c"
    using command_prefix_back [OF assms(3)] .
  obtain x where x: "p = [x]" using p(2) by (auto simp: length_Suc_conv)
  show thesis
    using p q assms(1)
    by (intro that [of "p @ i @ q @ data"])
      (simp_all add: x make_message_def Message_new_def Message_type_def Message_id_def Message_command_def Message_message_def
        subspan_def subspan_from_def)
qed

lemma answer_parts:
  assumes "length i = 8" "c \<noteq> UnnamedCommand"
  obtains m where "make_message Answering i c data = Inr m" "expect_answer c m = Inr ()" "Message_message m = Inr data"
proof -
  obtain m where "make_message Answering i c data = Inr m" "Message_type m = Inr Answering" "Message_command m = Inr c"
    "Message_message m = Inr data"
    using make_message_parts [OF assms(1) _ assms(2), of Answering data] by blast
  then show thesis by (intro that [of m]) (simp_all add: expect_answer_def)
qed

lemma broadcast_message_back:
  assumes "c \<noteq> UnnamedCommand"
  obtains m where "broadcast_message c data = Inr m" "broadcast_data c m = Inr data"
    "Message_type m = Inr Broadcasting" "Message_id m = Inr (uint64ToBytes (FNVHash data))" "Message_command m = Inr c"
proof -
  obtain m where "make_message Broadcasting (uint64ToBytes (FNVHash data)) c data = Inr m" "Message_type m = Inr Broadcasting"
    "Message_id m = Inr (uint64ToBytes (FNVHash data))" "Message_command m = Inr c" "Message_message m = Inr data"
    using make_message_parts [of "uint64ToBytes (FNVHash data)" Broadcasting c data] assms by (auto simp: c64.enc_length)
  then show thesis by (intro that [of m]) (simp_all add: broadcast_message_def broadcast_data_def toUint64_def c64.dec_enc)
qed

text \<open>
  Only the bytes decide: a broadcast that a decoder accepts carries the hash of its data as its identifier.
\<close>

lemma broadcast_data_id:
  "broadcast_data c m = Inr data \<longleftrightarrow>
     Message_type m = Inr Broadcasting \<and> Message_id m = Inr (uint64ToBytes (FNVHash data)) \<and> Message_message m = Inr data \<and> Message_command m = Inr c"
  by (auto simp: broadcast_data_def toUint64_def res_simps bytesToUint_ok_iff c64.dec_enc split: if_splits)

subsection \<open>Nodes\<close>

definition node_sized :: "NodeID \<times> NodeType \<Rightarrow> bool" where
  "node_sized n = (case fst (fst n) of V4 b \<Rightarrow> length b = 4 | V6 b \<Rightarrow> length b = 16)"

lemma length_put_node: "node_sized n \<Longrightarrow> 8 \<le> length (put_node n)"
  by (cases n rule: put_node.cases)
    (auto simp: node_sized_def uint8ToBytes_eq c16.enc_length split: ip_address.splits)

lemma get_node_put:
  assumes "node_sized n"
  shows "get_node (pre @ put_node n @ post) (length pre) = Inr (n, length pre + length (put_node n))"
proof -
  obtain address port nodeType where n: "n = ((address, port), nodeType)" by (metis surj_pair)
  have "toNodeType (case nodeType of NORMAL_NODE \<Rightarrow> 0 | DISCOVERY_NODE \<Rightarrow> 1) = Inr nodeType"
    by (cases nodeType) (simp_all add: toNodeType_def)
  moreover have b: "bytesToUint8 [k] = Inr k" for k :: byte by (simp add: bytesToUint_ok_iff uint8ToBytes_eq)
  moreover have port: "length (uint16ToBytes port) = 2" "bytesToUint16 (uint16ToBytes port) = Inr port"
    by (simp_all add: c16.enc_length c16.dec_enc)
  ultimately show ?thesis
    using assms by (cases address) (simp_all add: n get_node_def get_address_def node_sized_def uint8ToBytes_eq subspan_def)
qed

lemma get_nodes_put:
  assumes "\<forall>n\<in>set ns. node_sized n" "distinct (map fst (acc @ ns))"
  shows "get_nodes (pre @ concat (map put_node ns)) (length pre) acc = Inr (acc @ ns)"
  using assms
proof (induction ns arbitrary: pre acc)
  case Nil
  then show ?case by (simp add: get_nodes.simps)
next
  case (Cons n ns)
  let ?rest = "concat (map put_node ns)"
  have "get_nodes (pre @ put_node n @ ?rest) (length pre) acc =
      get_nodes ((pre @ put_node n) @ ?rest) (length (pre @ put_node n)) (insert_node (fst n) (snd n) acc)"
    using Cons.prems(1) length_put_node [of n] get_node_put [of n pre ?rest] by (subst get_nodes.simps) auto
  also have "insert_node (fst n) (snd n) acc = acc @ [n]" using Cons.prems(2) by (auto simp: insert_node_def)
  also have "get_nodes ((pre @ put_node n) @ ?rest) (length (pre @ put_node n)) (acc @ [n]) = Inr ((acc @ [n]) @ ns)"
    using Cons.prems by (intro Cons.IH) auto
  finally show ?case by simp
qed

subsection \<open>Validator transactions\<close>

definition vtx_wire :: "crypto \<Rightarrow> tx_validator \<Rightarrow> bool" where
  "vtx_wire cr t \<longleftrightarrow> length (TxValidator_rlpSerialize True t) < 2 ^ 32 \<and> TxValidator_parse cr (TxValidator_rlpSerialize True t) = Inr t"

lemma get_validator_tx_put:
  assumes "vtx_wire cr t"
  shows "get_validator_tx cr (pre @ put_validator_tx (h, t) @ post) (length pre) =
    Inr (t, length pre + length (put_validator_tx (h, t)))"
proof -
  let ?rlp = "TxValidator_rlpSerialize True t"
  have n: "unat (of_nat (length ?rlp) :: uint32) = length ?rlp" using assms by (simp add: vtx_wire_def unat_of_nat)
  show ?thesis
    using assms by (simp add: get_validator_tx_def vtx_wire_def Let_def subspan_def c32.enc_length c32.dec_enc n)
qed

lemma get_validator_txs_put:
  assumes "\<forall>(h, t)\<in>set txs. vtx_wire cr t"
  shows "get_validator_txs cr (pre @ concat (map put_validator_tx txs)) (length pre) acc = Inr (acc @ map snd txs)"
  using assms
proof (induction txs arbitrary: pre acc)
  case Nil
  then show ?case by (simp add: get_validator_txs.simps)
next
  case (Cons p txs)
  obtain h t where p: "p = (h, t)" by (metis surj_pair)
  let ?rest = "concat (map put_validator_tx txs)"
  have "get_validator_txs cr (pre @ put_validator_tx p @ ?rest) (length pre) acc =
      get_validator_txs cr ((pre @ put_validator_tx p) @ ?rest) (length (pre @ put_validator_tx p)) (acc @ [t])"
    using Cons.prems get_validator_tx_put [of cr t pre h ?rest]
    by (subst get_validator_txs.simps) (simp add: p Let_def c32.enc_length)
  also have "\<dots> = Inr ((acc @ [t]) @ map snd txs)" using Cons.prems by (intro Cons.IH) auto
  finally show ?case by (simp add: p)
qed


subsection \<open>What the decoders do not check\<close>

text \<open>The constructor refuses a message of fewer than eleven bytes; a message that was read from the network is not constructed.\<close>

lemma short_message_reads_outside: "Message_type [] = Inl UndefinedBehaviour" "length m = 9 \<Longrightarrow> Message_command m = Inl UndefinedBehaviour"
  by (simp_all add: Message_type_def Message_command_def subspan_def)

text \<open>A size that is no more than the size of the whole data passes the check even when fewer bytes are left.\<close>

lemma truncated_txs_read_outside: "get_validator_txs cr [0, 0, 0, 5, 1, 2, 3] 0 [] = Inl UndefinedBehaviour"
proof -
  have "bytesToUint32 [0, 0, 0, 5] = Inr 5"
    using bswap_memcpy_from [of "[0, 0, 0, 5]" 4, where 'n = 32] by (simp add: bytesToUint32_def be_val_def)
  then show ?thesis by (simp add: get_validator_txs.simps get_validator_tx_def subspan_def)
qed

section \<open>Properties\<close>



lemma demo_answer_tx: "\<exists>t. vtx_wire demo_crypto t \<and> tv_nHeight t = 12"
proof -
  let ?new = "TxValidator_new demo_crypto (toAddress demo_crypto (toUPub demo_crypto [])) (replicate 60 7) 8080 12 []"
  obtain t where t: "?new = Inr t" and obs: "tv_nHeight t = 12" "tv_data t = replicate 60 7"
    by (simp add: TxValidator_new_def Let_def demo_sign makeSig_parts c256.dec_enc demo_recover [of 1 _ _ _ "[]"] verifySig_def
        ecConst_def)
  have "TxValidator_parse demo_crypto (TxValidator_rlpSerialize True t) = Inr t"
    by (rule TxValidator_read_back [OF t demo_key_valid]) (simp_all add: obs TxValidator_total_size_def data_size_def)
  moreover have "length (TxValidator_rlpSerialize True t) \<le> 300"
  proof -
    have "length (put_list_header n) \<le> 10" for n
      using bytesRequired_64 [of "of_nat n"] by (simp add: put_list_header_def)
    then have "length (put_list_header (TxValidator_total_size True t)) \<le> 10" .
    moreover have "uint_size (tv_v t) \<le> 33" using bytesRequired_256 [of "tv_v t"] by (simp add: uint_size_def)
    moreover have "uint_size (12 :: uint64) \<le> 9" using bytesRequired_64 [of 12] by (simp add: uint_size_def)
    ultimately show ?thesis
      using bytesRequired_256 [of "tv_r t"] bytesRequired_256 [of "tv_s t"] bytesRequired_64 [of 60]
      by (simp add: TxValidator_rlpSerialize_def obs data_size_def)
  qed
  ultimately show ?thesis using obs by (intro exI [of _ t]) (simp add: vtx_wire_def)
qed


end
