(* ===== verification/P2PSession.thy ===== *)
theory P2PSession
  imports P2PEncoding "HOL-Library.Sublist"
begin

text \<open>
  One connection between two nodes (\<^verbatim>\<open>net/p2p/session.cpp\<close>): the handshake, the queue of outgoing messages and the loop that reads
  framed messages. The asynchronous operations of boost::asio are explicit: an operation that was started is in
  \<open>ss_writes\<close> until the io context runs its handler, and an operation that succeeds has transferred its whole buffer.
  What the session asks of other components (the manager, the socket) is the list \<open>ss_calls\<close>. The lemmas show that at
  most one write is under way, and the property that the messages arrive in the order they were written.
\<close>

section \<open>Definitions\<close>

datatype error_code = NoError | operation_canceled | OtherError

datatype write_op = PostedHeader | WritingHeader bytes | WritingMessage bytes

datatype read_op = ReadHeader | ReadMessage uint64 | ReadStopped

datatype session_call = RegisterSession | UnregisterSession | CloseSocket | HandleMessage p2p_message

record session =
  ss_address :: ip_address
  ss_nodeId :: NodeID
  ss_serverPort :: uint16
  ss_type :: NodeType
  ss_doneHandshake :: bool
  ss_outboundMessage :: "p2p_message option"
  ss_outboundMessages :: "p2p_message list"
  ss_outboundHeader :: bytes
  ss_writes :: "write_op list"
  ss_sent :: bytes
  ss_read :: read_op
  ss_calls :: "session_call list"

definition maxMessageSize :: uint64 where
  "maxMessageSize = 1024 * 1024 * 128"

definition call_out :: "session_call \<Rightarrow> session \<Rightarrow> session" where
  "call_out c s = s\<lparr>ss_calls := ss_calls s @ [c]\<rparr>"

definition handle_error :: "error_code \<Rightarrow> session \<Rightarrow> session" where
  "handle_error ec s =
     (if ec \<noteq> operation_canceled
      then call_out CloseSocket (if ss_doneHandshake s then call_out UnregisterSession s else s)
      else s)"

subsection \<open>Handshake\<close>

definition write_handshake :: "NodeType \<Rightarrow> uint16 \<Rightarrow> bytes" where
  "write_handshake nodeType serverPort = (if nodeType = NORMAL_NODE then 0 else 1) # uint16ToBytes serverPort"

text \<open>\<open>registered\<close> is what the manager answers to \<open>registerSession\<close>.\<close>

definition finish_handshake :: "bool \<Rightarrow> error_code \<Rightarrow> bytes \<Rightarrow> (session, unit) sres" where
  "finish_handshake registered ec inboundHandshake s =
     (if ec \<noteq> NoError then (handle_error ec s, Inr ())
      else case bindR (at_idx inboundHandshake 0) (\<lambda>t. bindR (subspan inboundHandshake 1 2) (\<lambda>p. bindR (bytesToUint16 p) (\<lambda>port. Inr (t, port)))) of
        Inl e \<Rightarrow> (s, Inl e)
      | Inr (t, port) \<Rightarrow>
          (let s = s\<lparr>ss_type := if t = 0 then NORMAL_NODE else DISCOVERY_NODE, ss_serverPort := port, ss_doneHandshake := True,
                       ss_nodeId := (ss_address s, port)\<rparr>;
               s = call_out RegisterSession s
           in (if \<not> registered then call_out CloseSocket s else s\<lparr>ss_read := ReadHeader\<rparr>, Inr ())))"

subsection \<open>Writing\<close>

definition do_write_header :: "session \<Rightarrow> session" where
  "do_write_header s =
     (case ss_outboundMessage s of
        None \<Rightarrow> s
      | Some m \<Rightarrow> let h = uint64ToBytes (of_nat (length m))
                 in s\<lparr>ss_outboundHeader := h, ss_writes := ss_writes s @ [WritingHeader h]\<rparr>)"

definition do_write_message :: "(session, unit) sres" where
  "do_write_message s =
     (case ss_outboundMessage s of
        None \<Rightarrow> (s, Inl UndefinedBehaviour)
      | Some m \<Rightarrow> (s\<lparr>ss_writes := ss_writes s @ [WritingMessage m]\<rparr>, Inr ()))"

definition on_write_header :: "error_code \<Rightarrow> (session, unit) sres" where
  "on_write_header ec s = (if ec \<noteq> NoError then (handle_error ec s, Inr ()) else do_write_message s)"

definition on_write_message :: "error_code \<Rightarrow> (session, unit) sres" where
  "on_write_message ec s =
     (if ec \<noteq> NoError then (handle_error ec s, Inr ())
      else case ss_outboundMessages s of
        [] \<Rightarrow> (s\<lparr>ss_outboundMessage := None\<rparr>, Inr ())
      | m # ms \<Rightarrow> (do_write_header (s\<lparr>ss_outboundMessage := Some m, ss_outboundMessages := ms\<rparr>), Inr ()))"

definition session_write :: "p2p_message \<Rightarrow> session \<Rightarrow> session" where
  "session_write m s =
     (case ss_outboundMessage s of
        None \<Rightarrow> s\<lparr>ss_outboundMessage := Some m, ss_writes := ss_writes s @ [PostedHeader]\<rparr>
      | Some _ \<Rightarrow> s\<lparr>ss_outboundMessages := ss_outboundMessages s @ [m]\<rparr>)"

text \<open>
  The io context runs the handler of one operation, the one at position \<open>k\<close>. An operation that succeeds has written its
  buffer to the socket before, and one that fails the first \<open>n\<close> bytes of it.
\<close>

definition transfer_bytes :: "error_code \<Rightarrow> nat \<Rightarrow> bytes \<Rightarrow> session \<Rightarrow> session" where
  "transfer_bytes ec n b s = s\<lparr>ss_sent := ss_sent s @ (if ec = NoError then b else take n b)\<rparr>"

definition complete_write :: "nat \<Rightarrow> error_code \<Rightarrow> nat \<Rightarrow> (session, unit) sres" where
  "complete_write k ec n s =
     (if length (ss_writes s) \<le> k then (s, Inr ())
      else let s' = s\<lparr>ss_writes := take k (ss_writes s) @ drop (Suc k) (ss_writes s)\<rparr> in
        case ss_writes s ! k of
          PostedHeader \<Rightarrow> (do_write_header s', Inr ())
        | WritingHeader b \<Rightarrow> on_write_header ec (transfer_bytes ec n b s')
        | WritingMessage b \<Rightarrow> on_write_message ec (transfer_bytes ec n b s'))"

subsection \<open>Reading\<close>

definition on_read_header :: "error_code \<Rightarrow> bytes \<Rightarrow> (session, unit) sres" where
  "on_read_header ec inboundHeader s =
     (if ec \<noteq> NoError then (handle_error ec (s\<lparr>ss_read := ReadStopped\<rparr>), Inr ())
      else case bytesToUint64 inboundHeader of
        Inl e \<Rightarrow> (s\<lparr>ss_read := ReadStopped\<rparr>, Inl e)
      | Inr messageSize \<Rightarrow>
          (if messageSize > maxMessageSize then call_out CloseSocket (s\<lparr>ss_read := ReadStopped\<rparr>)
           else s\<lparr>ss_read := ReadMessage messageSize\<rparr>, Inr ()))"

definition on_read_message :: "error_code \<Rightarrow> bytes \<Rightarrow> (session, unit) sres" where
  "on_read_message ec inboundMessage s =
     (if ec \<noteq> NoError then (handle_error ec (s\<lparr>ss_read := ReadStopped\<rparr>), Inr ())
      else ((call_out (HandleMessage inboundMessage) s)\<lparr>ss_read := ReadHeader\<rparr>, Inr ()))"

text \<open>
  The reads that the bytes received so far complete, one handler after another: the state of the session when it waits
  for more, and the bytes it has not used.
\<close>

function read_loop :: "session \<Rightarrow> bytes \<Rightarrow> (session \<times> bytes) res" where
  "read_loop s input =
     (case ss_read s of
        ReadHeader \<Rightarrow>
          (if length input < 8 then Inr (s, input)
           else case on_read_header NoError (take 8 input) s of (s', Inl e) \<Rightarrow> Inl e | (s', Inr _) \<Rightarrow> read_loop s' (drop 8 input))
      | ReadMessage n \<Rightarrow>
          (if length input < unat n then Inr (s, input)
           else case on_read_message NoError (take (unat n) input) s of
             (s', Inl e) \<Rightarrow> Inl e | (s', Inr _) \<Rightarrow> read_loop s' (drop (unat n) input))
      | ReadStopped \<Rightarrow> Inr (s, input))"
  by pat_completeness auto
termination
  by (relation "measure (\<lambda>(s, input). 2 * length input + (case ss_read s of ReadMessage _ \<Rightarrow> 1 | _ \<Rightarrow> 0))")
    (auto simp: on_read_header_def on_read_message_def call_out_def split: if_splits sum.splits read_op.splits)

declare read_loop.simps [simp del]

section \<open>Lemmas\<close>

subsection \<open>The handshake\<close>

lemma handshake_back:
  assumes "finish_handshake registered NoError (write_handshake nodeType port) s = (s', r)"
  shows "r = Inr ()" "ss_type s' = nodeType" "ss_nodeId s' = (ss_address s, port)" "ss_doneHandshake s'"
  using assms by (cases nodeType; auto simp: finish_handshake_def write_handshake_def at_idx_def subspan_def c16.enc_length c16.dec_enc
      Let_def call_out_def split: if_splits)+

subsection \<open>Writing\<close>

definition frame :: "p2p_message \<Rightarrow> bytes" where
  "frame m = uint64ToBytes (of_nat (length m)) @ m"

definition frames :: "p2p_message list \<Rightarrow> bytes" where
  "frames ms = concat (map frame ms)"

lemma frames_simps [simp]: "frames [] = []" "frames (m # ms) = frame m @ frames ms" "frames (ms @ ns) = frames ms @ frames ns"
  by (simp_all add: frames_def)

text \<open>
  The session is idle, or it has a current message and exactly one operation under way for it; after an error it has a
  message that it will not send. \<open>unsent\<close> is what an undisturbed session still writes.
\<close>

definition idle :: "session \<Rightarrow> bool" where
  "idle s \<longleftrightarrow> ss_outboundMessage s = None \<and> ss_outboundMessages s = [] \<and> ss_writes s = []"

definition busy :: "p2p_message \<Rightarrow> write_op \<Rightarrow> session \<Rightarrow> bool" where
  "busy m op s \<longleftrightarrow> ss_outboundMessage s = Some m \<and> ss_writes s = [op] \<and>
     op \<in> {PostedHeader, WritingHeader (uint64ToBytes (of_nat (length m))), WritingMessage m}"

definition broken :: "session \<Rightarrow> bool" where
  "broken s \<longleftrightarrow> ss_outboundMessage s \<noteq> None \<and> ss_writes s = []"

fun op_bytes :: "p2p_message \<Rightarrow> write_op \<Rightarrow> bytes" where
  "op_bytes m PostedHeader = frame m"
| "op_bytes m (WritingHeader h) = h @ m"
| "op_bytes m (WritingMessage b) = b"

inductive sender_run :: "session \<Rightarrow> p2p_message list \<Rightarrow> session \<Rightarrow> bool" for s0 where
  start: "sender_run s0 [] s0"
| enqueue: "sender_run s0 W s \<Longrightarrow> sender_run s0 (W @ [m]) (session_write m s)"
| complete: "sender_run s0 W s \<Longrightarrow> complete_write k ec n s = (s', r) \<Longrightarrow> sender_run s0 W s'"

definition sent_inv :: "p2p_message list \<Rightarrow> session \<Rightarrow> bool" where
  "sent_inv W s \<longleftrightarrow>
     (idle s \<and> ss_sent s = frames W) \<or>
     (\<exists>m op. busy m op s \<and> ss_sent s @ op_bytes m op @ frames (ss_outboundMessages s) = frames W) \<or>
     (broken s \<and> prefix (ss_sent s) (frames W))"

lemma sent_inv_write:
  assumes "sent_inv W s"
  shows "sent_inv (W @ [m]) (session_write m s)"
  using assms unfolding sent_inv_def
  by (elim disjE exE conjE) (auto simp: session_write_def idle_def busy_def broken_def simp flip: append_assoc)

text \<open>An operation that is under way finds its message: there is no read through a null pointer.\<close>

lemma complete_busy:
  assumes "busy m op s" "complete_write k ec n s = (s', r)" "k = 0"
    and bytes: "ss_sent s @ op_bytes m op @ frames (ss_outboundMessages s) = frames W"
  shows "r = Inr () \<and> sent_inv W s'"
proof (cases "ec = NoError \<or> op = PostedHeader")
  case True
  then show ?thesis
    using assms by (auto simp: busy_def complete_write_def Let_def do_write_header_def on_write_header_def do_write_message_def
        on_write_message_def transfer_bytes_def sent_inv_def idle_def frame_def split: list.splits)
next
  case False
  moreover have "prefix (ss_sent s @ take n b) (frames W)" if "op = WritingHeader b \<or> op = WritingMessage b" for b
  proof -
    have "\<exists>u. op_bytes m op = b @ u" using that by auto
    then obtain u where "op_bytes m op = (take n b @ drop n b) @ u" by auto
    then have "prefix (take n b) (op_bytes m op @ frames (ss_outboundMessages s))" by (simp only: append_assoc) (rule prefixI, rule refl)
    then show ?thesis by (simp flip: bytes)
  qed
  ultimately show ?thesis
    using assms by (auto simp: busy_def complete_write_def Let_def on_write_header_def on_write_message_def transfer_bytes_def
        handle_error_def call_out_def sent_inv_def broken_def)
qed

lemma sent_inv_complete:
  assumes "sent_inv W s" "complete_write k ec n s = (s', r)"
  shows "r = Inr () \<and> sent_inv W s'"
proof (cases "length (ss_writes s) \<le> k")
  case True
  then show ?thesis using assms by (simp add: complete_write_def)
next
  case False
  then obtain m op where b: "busy m op s" "ss_sent s @ op_bytes m op @ frames (ss_outboundMessages s) = frames W"
    using assms(1) by (auto simp: sent_inv_def idle_def broken_def)
  then have "k = 0" using False by (simp add: busy_def)
  then show ?thesis using complete_busy [OF b(1) assms(2) _ b(2)] by simp
qed

lemma sender_run_inv:
  assumes "sender_run s0 W s" "idle s0" "ss_sent s0 = []"
  shows "sent_inv W s"
  using assms(1)
proof induction
  case start
  then show ?case using assms(2,3) by (simp add: sent_inv_def)
next
  case (enqueue W s m)
  then show ?case by (intro sent_inv_write)
next
  case (complete W s k ec n s' r)
  then show ?case using sent_inv_complete by blast
qed

lemma sent_inv_prefix: "sent_inv W s \<Longrightarrow> prefix (ss_sent s) (frames W)"
  unfolding sent_inv_def by (metis prefix_order.refl prefixI)

lemma sent_inv_done: "sent_inv W s \<Longrightarrow> ss_outboundMessage s = None \<Longrightarrow> ss_sent s = frames W"
  unfolding sent_inv_def by (auto simp: busy_def broken_def)

subsection \<open>Reading\<close>

definition sized :: "p2p_message \<Rightarrow> bool" where
  "sized m \<longleftrightarrow> length m \<le> 134217728"

lemma sized_header:
  assumes "sized m"
  shows "unat (of_nat (length m) :: uint64) = length m" "\<not> maxMessageSize < of_nat (length m)"
proof -
  show n: "unat (of_nat (length m) :: uint64) = length m" using assms by (simp add: sized_def unat_of_nat)
  then show "\<not> maxMessageSize < of_nat (length m)" using assms by (simp add: word_less_nat_alt maxMessageSize_def sized_def)
qed

lemma read_frame:
  assumes "ss_read s = ReadHeader" "sized m"
  shows "read_loop s (frame m @ rest) = read_loop (call_out (HandleMessage m) s) rest"
proof -
  let ?n = "of_nat (length m) :: uint64"
  have "read_loop s (frame m @ rest) = read_loop (s\<lparr>ss_read := ReadMessage ?n\<rparr>) (m @ rest)"
    using assms sized_header [OF assms(2)]
    by (subst read_loop.simps) (simp add: frame_def c64.enc_length c64.dec_enc on_read_header_def)
  also have "\<dots> = read_loop ((call_out (HandleMessage m) s)\<lparr>ss_read := ReadHeader\<rparr>) rest"
    using sized_header(1) [OF assms(2)] by (subst read_loop.simps) (simp add: on_read_message_def call_out_def)
  also have "(call_out (HandleMessage m) s)\<lparr>ss_read := ReadHeader\<rparr> = call_out (HandleMessage m) s"
    using assms(1) by (simp add: call_out_def)
  finally show ?thesis .
qed

lemma read_part:
  assumes "ss_read s = ReadHeader" "sized m" "strict_prefix t (frame m)"
  shows "\<exists>r rest. read_loop s t = Inr (r, rest) \<and> ss_calls r = ss_calls s"
proof (cases "length t < 8")
  case True
  then show ?thesis using assms(1) by (subst read_loop.simps) simp
next
  case False
  let ?h = "uint64ToBytes (of_nat (length m)) :: bytes"
  obtain u where u: "frame m = t @ u" "u \<noteq> []" using assms(3) by (auto simp: strict_prefix_def prefix_def)
  have "take 8 (frame m) = ?h" by (simp add: frame_def c64.enc_length)
  then have t: "take 8 t = ?h" using False by (simp add: u)
  have "length (frame m) = 8 + length m" by (simp add: frame_def c64.enc_length)
  moreover have "length t < length (frame m)" using u by simp
  ultimately have "length t < 8 + length m" by simp
  then have "length (drop 8 t) < length m" using False by simp
  then have "read_loop (s\<lparr>ss_read := ReadMessage (of_nat (length m))\<rparr>) (drop 8 t) = Inr (s\<lparr>ss_read := ReadMessage (of_nat (length m))\<rparr>, drop 8 t)"
    using sized_header(1) [OF assms(2)] by (subst read_loop.simps) simp
  then show ?thesis
    using assms(1) False sized_header(2) [OF assms(2)]
    by (subst read_loop.simps) (simp add: t on_read_header_def c64.dec_enc)
qed

lemma read_prefix:
  assumes "ss_read s = ReadHeader" "\<forall>m\<in>set W. sized m" "prefix p (frames W)"
  shows "\<exists>r rest ms. read_loop s p = Inr (r, rest) \<and> ss_calls r = ss_calls s @ map HandleMessage ms \<and> prefix ms W \<and>
    (p = frames W \<longrightarrow> ms = W)"
  using assms
proof (induction W arbitrary: s p)
  case Nil
  then show ?case by (subst read_loop.simps) simp
next
  case (Cons m W)
  have m: "sized m" using Cons.prems(2) by simp
  consider (part) "strict_prefix p (frame m)" | (whole) q where "p = frame m @ q" "prefix q (frames W)"
    using Cons.prems(3) by (cases "p = frame m") (auto simp: prefix_append strict_prefix_def)
  then show ?case
  proof cases
    case part
    then have "p \<noteq> frames (m # W)" by (auto simp: strict_prefix_def prefix_def)
    moreover obtain r rest where "read_loop s p = Inr (r, rest)" "ss_calls r = ss_calls s" using read_part [OF Cons.prems(1) m part] by blast
    ultimately show ?thesis by (intro exI [of _ r] exI [of _ rest] exI [of _ "[]"]) simp
  next
    case whole
    have "ss_read (call_out (HandleMessage m) s) = ReadHeader" using Cons.prems(1) by (simp add: call_out_def)
    from Cons.IH [OF this _ whole(2)] Cons.prems(2) obtain r rest ms where
      "read_loop (call_out (HandleMessage m) s) q = Inr (r, rest)" "ss_calls r = ss_calls (call_out (HandleMessage m) s) @ map HandleMessage ms"
      "prefix ms W" "q = frames W \<longrightarrow> ms = W" by auto
    then show ?thesis
      using read_frame [OF Cons.prems(1) m, of q] whole(1) by (intro exI [of _ r] exI [of _ rest] exI [of _ "m # ms"]) (simp add: call_out_def)
  qed
qed


subsection \<open>The queue drains\<close>

text \<open>Completing the operation under way, again and again.\<close>

fun drain :: "nat \<Rightarrow> session \<Rightarrow> session" where
  "drain 0 s = s"
| "drain (Suc n) s = drain n (fst (complete_write 0 NoError 0 s))"

fun op_left :: "write_op \<Rightarrow> nat" where
  "op_left PostedHeader = 2" | "op_left (WritingHeader _) = 1" | "op_left (WritingMessage _) = 0"

lemma complete_step:
  assumes "busy m op s"
  shows "idle (fst (complete_write 0 NoError 0 s)) \<and> op_left op + 2 * length (ss_outboundMessages s) = 0 \<or>
    (\<exists>m' op'. busy m' op' (fst (complete_write 0 NoError 0 s)) \<and>
      Suc (op_left op' + 2 * length (ss_outboundMessages (fst (complete_write 0 NoError 0 s)))) = op_left op + 2 * length (ss_outboundMessages s))"
  using assms by (auto simp: busy_def complete_write_def Let_def do_write_header_def on_write_header_def do_write_message_def
      on_write_message_def transfer_bytes_def idle_def split: list.splits)

lemma busy_drains: "busy m op s \<Longrightarrow> idle (drain (Suc (op_left op + 2 * length (ss_outboundMessages s))) s)"
proof (induction "op_left op + 2 * length (ss_outboundMessages s)" arbitrary: m op s rule: less_induct)
  case less
  let ?s = "fst (complete_write 0 NoError 0 s)"
  from complete_step [OF less.prems] show ?case
  proof (elim disjE exE conjE)
    assume "idle ?s" "op_left op + 2 * length (ss_outboundMessages s) = 0"
    then show ?thesis by simp
  next
    fix m' op' assume b: "busy m' op' ?s" and n: "Suc (op_left op' + 2 * length (ss_outboundMessages ?s)) = op_left op + 2 * length (ss_outboundMessages s)"
    have "idle (drain (Suc (op_left op' + 2 * length (ss_outboundMessages ?s))) ?s)" using n by (intro less.hyps [OF _ b]) simp
    then show ?thesis by (simp only: n drain.simps)
  qed
qed

section \<open>Properties\<close>

text \<open>
  C8. A session is a queue: in any interleaving of \<open>write\<close> calls and completions of writes, with or without errors, the
  other side hands the messages to its manager in the order they were written, each once and unchanged, and never a
  part of one; when no message is pending it has received all of them, and an undisturbed session reaches that point
  after finitely many completions. No message is larger than the limit of the receiver.
\<close>

theorem session_fifo:
  assumes "sender_run s0 W s" "idle s0" "ss_sent s0 = []" "\<forall>m\<in>set W. length m \<le> 134217728" "ss_read r0 = ReadHeader"
  shows "\<exists>r rest ms. read_loop r0 (ss_sent s) = Inr (r, rest) \<and> ss_calls r = ss_calls r0 @ map HandleMessage ms \<and> prefix ms W \<and>
    (ss_outboundMessage s = None \<longrightarrow> ms = W) \<and>
    (ss_writes s \<noteq> [] \<longrightarrow> (\<exists>n. ss_outboundMessage (drain n s) = None))"
proof -
  have inv: "sent_inv W s" by (rule sender_run_inv [OF assms(1-3)])
  then have "ss_writes s \<noteq> [] \<longrightarrow> (\<exists>n. idle (drain n s))"
    unfolding sent_inv_def using busy_drains by (auto simp: idle_def broken_def simp del: drain.simps)
  then have drains: "ss_writes s \<noteq> [] \<longrightarrow> (\<exists>n. ss_outboundMessage (drain n s) = None)" by (auto simp: idle_def)
  have "\<forall>m\<in>set W. sized m" using assms(4) by (simp add: sized_def)
  then obtain r rest ms where "read_loop r0 (ss_sent s) = Inr (r, rest)" "ss_calls r = ss_calls r0 @ map HandleMessage ms" "prefix ms W"
    "ss_sent s = frames W \<longrightarrow> ms = W"
    using read_prefix [OF assms(5) _ sent_inv_prefix [OF inv]] by blast
  then show ?thesis using sent_inv_done [OF inv] drains by (intro exI [of _ r] exI [of _ rest] exI [of _ ms]) blast
qed

definition demo_session :: session where
  "demo_session = \<lparr>ss_address = V4 [127, 0, 0, 1], ss_nodeId = (V4 [127, 0, 0, 1], 8080), ss_serverPort = 8080, ss_type = NORMAL_NODE,
     ss_doneHandshake = True, ss_outboundMessage = None, ss_outboundMessages = [], ss_outboundHeader = [], ss_writes = [], ss_sent = [],
     ss_read = ReadHeader, ss_calls = []\<rparr>"

theorem session_fifo_witness:
  "\<exists>r rest. read_loop demo_session (ss_sent (drain 5 (session_write [4, 5] (session_write [1, 2, 3] demo_session)))) = Inr (r, rest) \<and>
     ss_calls r = [HandleMessage [1, 2, 3], HandleMessage [4, 5]]"
proof -
  let ?s = "session_write [4, 5] (session_write [1, 2, 3] demo_session)"
  have "sender_run demo_session [[1, 2, 3], [4, 5]] ?s"
    using sender_run.enqueue [OF sender_run.enqueue [OF sender_run.start], of demo_session "[1, 2, 3]" "[4, 5]"] by simp
  then have "sender_run demo_session [[1, 2, 3], [4, 5]] (drain n ?s)" for n
  proof (induction n arbitrary: rule: nat_induct)
    case 0
    then show ?case by simp
  next
    case (Suc n)
    have "drain (Suc n) s = fst (complete_write 0 NoError 0 (drain n s))" for s by (induction n arbitrary: s) simp_all
    then show ?case using Suc sender_run.complete [of demo_session "[[1, 2, 3], [4, 5]]" "drain n ?s" 0 NoError 0] by (metis prod.collapse)
  qed
  moreover have "ss_outboundMessage (drain 5 ?s) = None"
    by (simp add: numeral_eq_Suc demo_session_def session_write_def complete_write_def Let_def do_write_header_def on_write_header_def
        do_write_message_def on_write_message_def transfer_bytes_def)
  moreover have "idle demo_session" "ss_sent demo_session = []" "ss_read demo_session = ReadHeader" "ss_calls demo_session = []"
    by (simp_all add: demo_session_def idle_def)
  ultimately show ?thesis using session_fifo [of demo_session "[[1, 2, 3], [4, 5]]" "drain 5 ?s" demo_session] by auto
qed

end
