(* ===== verification/Syncer.thy ===== *)
theory Syncer
  imports State
begin

text \<open>
  The block production of a validator (\<^verbatim>\<open>Syncer::doValidatorBlock\<close> in \<^verbatim>\<open>core/blockchain.cpp\<close>): collecting the validator transactions
  in the order of the round, building, signing, validating and processing the block. A loop that never ends is the
  value \<open>None\<close>, and so is a wait whose condition does not hold: the model is a run in which \<^verbatim>\<open>stopSyncer\<close> is not set and no
  other thread changes the pools. The broadcast of the block is not part of the model.
\<close>

section \<open>Definitions\<close>

text \<open>The inner loop: the first transaction of the pool that is from \<^verbatim>\<open>randomList[i]\<close> and has the functor.\<close>

fun pick_tx :: "Address list \<Rightarrow> bytes \<Rightarrow> nat \<Rightarrow> (Hash \<times> tx_validator) list \<Rightarrow> tx_validator option res" where
  "pick_tx randomList f i [] = Inr None"
| "pick_tx randomList f i ((h, t) # mempool) =
     bindR (at_idx randomList i) (\<lambda>v.
     if tv_from t = v then
       bindR (TxValidator_getFunctor t) (\<lambda>functor. if functor = f then Inr (Some t) else pick_tx randomList f i mempool)
     else pick_tx randomList f i mempool)"

text \<open>The outer loop, which starts over when the inner one finds nothing.\<close>

partial_function (option) collect_txs ::
  "Address list \<Rightarrow> bytes \<Rightarrow> (Hash \<times> tx_validator) list \<Rightarrow> nat \<Rightarrow> tx_validator list \<Rightarrow> tx_validator list res option" where
  "collect_txs randomList f mempool i txs =
     (if length txs = minValidators then Some (Inr txs)
      else case pick_tx randomList f i mempool of
        Inl e \<Rightarrow> Some (Inl e)
      | Inr found \<Rightarrow> (case found of
          None \<Rightarrow> collect_txs randomList f mempool i txs
        | Some t \<Rightarrow> collect_txs randomList f mempool (i + 1) (txs @ [t])))"

definition build_block :: "crypto \<Rightarrow> PrivKey \<Rightarrow> uint64 \<Rightarrow> tx_validator list \<Rightarrow> tx_validator list \<Rightarrow> 'd state \<Rightarrow> block res" where
  "build_block cr key now randomHashTxs randomnessTxs s =
     bindR (latest (s_storage s)) (\<lambda>latestBlock.
     let b = Block_new (Block_hash cr latestBlock) (b_timestamp latestBlock) (b_nHeight latestBlock + 1);
         b = foldl (\<lambda>b t. fst (appendTxValidator t b)) b randomHashTxs;
         b = foldl (\<lambda>b t. fst (appendTxValidator t b)) b randomnessTxs;
         b = fillBlockWithTransactions b s
     in case signBlock cr key now b of (_, Inl e) \<Rightarrow> Inl e | (b, Inr _) \<Rightarrow> Inr b)"

definition append_block :: "crypto \<Rightarrow> contracts \<Rightarrow> block \<Rightarrow> ('d state, unit) sres" where
  "append_block cr K b =
     bindS (readS (validateNextBlock cr b)) (\<lambda>r.
     bindS (liftS r) (\<lambda>valid.
     if \<not> valid then throwS (RuntimeError ''Block is not valid!'')
     else let latestBlockHash = Block_hash cr b in
       bindS (processNextBlock cr K b) (\<lambda>_.
       bindS (readS (\<lambda>s. latest (s_storage s))) (\<lambda>r.
       bindS (liftS r) (\<lambda>l.
       if Block_hash cr l \<noteq> latestBlockHash then throwS (RuntimeError ''Block is not valid!'') else retS ())))))"

definition doValidatorBlock :: "crypto \<Rightarrow> contracts \<Rightarrow> PrivKey \<Rightarrow> uint64 \<Rightarrow> 'd state \<Rightarrow> ('d state \<times> unit res) option" where
  "doValidatorBlock cr K key now s =
     (let mempool = r_validatorMempool (s_rdpos s); randomList = r_randomList (s_rdpos s) in
      if length mempool < minValidators * 2 \<or> length (s_mempool s) < 1 then None
      else case (Hex_toBytes ''0xcfffe746'', Hex_toBytes ''0x6fc5a2d6'') of
        (Inr f1, Inr f2) \<Rightarrow>
          (case collect_txs randomList f1 mempool 1 [] of
             None \<Rightarrow> None
           | Some (Inl e) \<Rightarrow> Some (s, Inl e)
           | Some (Inr randomHashTxs) \<Rightarrow>
               (case collect_txs randomList f2 mempool 1 [] of
                  None \<Rightarrow> None
                | Some (Inl e) \<Rightarrow> Some (s, Inl e)
                | Some (Inr randomnessTxs) \<Rightarrow>
                    (case build_block cr key now randomHashTxs randomnessTxs s of
                       Inl e \<Rightarrow> Some (s, Inl e)
                     | Inr b \<Rightarrow> Some (append_block cr K b s))))
      | (Inl e, _) \<Rightarrow> Some (s, Inl e)
      | (_, Inl e) \<Rightarrow> Some (s, Inl e))"

section \<open>Lemmas\<close>

subsection \<open>Collecting\<close>

text \<open>The outer loop never ends when a transaction is missing.\<close>

lemma collect_txs_diverges:
  assumes "length txs \<noteq> minValidators" "pick_tx rl f i m = Inr None"
  shows "collect_txs rl f m i txs = None"
proof (rule ccontr)
  assume "collect_txs rl f m i txs \<noteq> None"
  then obtain y where y: "collect_txs rl f m i txs = Some y" by blast
  define P where "P = (\<lambda>rl f m i (txs :: tx_validator list) (y :: tx_validator list res).
    \<not> (length txs \<noteq> minValidators \<and> pick_tx rl f i m = Inr None))"
  have "P rl f m i txs y"
  proof (rule collect_txs.raw_induct [where P = P, OF _ y])
    fix g rl f m i txs y
    assume IH: "\<And>rl f m i txs y. g rl f m i txs = Some y \<Longrightarrow> P rl f m i txs y"
      and run: "(if length txs = minValidators then Some (Inr txs) else case pick_tx rl f i m of Inl e \<Rightarrow> Some (Inl e)
        | Inr found \<Rightarrow> (case found of None \<Rightarrow> g rl f m i txs | Some t \<Rightarrow> g rl f m (i + 1) (txs @ [t]))) = Some y"
    show "P rl f m i txs y"
    proof (cases "length txs \<noteq> minValidators \<and> pick_tx rl f i m = Inr None")
      case True
      then have "g rl f m i txs = Some y" using run by simp
      then show ?thesis by (rule IH)
    qed (simp add: P_def)
  qed
  then show False using assms by (simp add: P_def)
qed

lemma pick_tx_mem: "pick_tx rl f i m = Inr (Some t) \<Longrightarrow> t \<in> snd ` set m"
  by (induction rl f i m rule: pick_tx.induct) (auto simp: res_simps split: if_splits)

text \<open>What was collected is from the pool.\<close>

lemma collect_txs_mem:
  assumes "collect_txs rl f m i txs = Some (Inr ts)"
  shows "set ts \<subseteq> set txs \<union> snd ` set m"
proof -
  define P where "P = (\<lambda>(rl :: Address list) (f :: bytes) (m :: (Hash \<times> tx_validator) list) (i :: nat) txs (y :: tx_validator list res).
    \<forall>ts. y = Inr ts \<longrightarrow> set ts \<subseteq> set txs \<union> snd ` set m)"
  have "P rl f m i txs (Inr ts)"
  proof (rule collect_txs.raw_induct [where P = P, OF _ assms])
    fix g rl f m i txs y
    assume IH: "\<And>rl f m i txs y. g rl f m i txs = Some y \<Longrightarrow> P rl f m i txs y"
      and run: "(if length txs = minValidators then Some (Inr txs) else case pick_tx rl f i m of Inl e \<Rightarrow> Some (Inl e)
        | Inr found \<Rightarrow> (case found of None \<Rightarrow> g rl f m i txs | Some t \<Rightarrow> g rl f m (i + 1) (txs @ [t]))) = Some y"
    show "P rl f m i txs y"
    proof (cases "length txs = minValidators")
      case True
      then have "y = Inr txs" using run by simp
      then show ?thesis by (simp add: P_def)
    next
      case False
      show ?thesis
      proof (cases "pick_tx rl f i m")
        case (Inl e)
        then have "y = Inl e" using run False by simp
        then show ?thesis by (simp add: P_def)
      next
        case (Inr found)
        show ?thesis
        proof (cases found)
          case None
          then have "g rl f m i txs = Some y" using run False Inr by simp
          then show ?thesis by (rule IH)
        next
          case (Some t)
          then have "g rl f m (i + 1) (txs @ [t]) = Some y" using run False Inr by simp
          then have "P rl f m (i + 1) (txs @ [t]) y" by (rule IH)
          moreover have "t \<in> snd ` set m" using Inr Some by (intro pick_tx_mem) simp
          ultimately show ?thesis by (auto simp: P_def)
        qed
      qed
    qed
  qed
  then show ?thesis by (simp add: P_def)
qed

lemma pick_tx_found:
  assumes "i < length rl" "(h, t) \<in> set m" "tv_from t = rl ! i" "TxValidator_getFunctor t = Inr f"
    and only: "\<forall>(h', t')\<in>set m. tv_from t' = rl ! i \<and> (h', t') \<noteq> (h, t) \<longrightarrow> (\<exists>f'. TxValidator_getFunctor t' = Inr f' \<and> f' \<noteq> f)"
  shows "pick_tx rl f i m = Inr (Some t)"
  using assms(2) only
proof (induction m)
  case (Cons e m)
  obtain h' t' where e: "e = (h', t')" by (cases e)
  have at: "at_idx rl i = Inr (rl ! i)" using assms(1) by (simp add: at_idx_def)
  show ?case
  proof (cases "(h', t') = (h, t)")
    case True
    then show ?thesis using assms(3,4) by (simp add: e at)
  next
    case False
    then have IH: "pick_tx rl f i m = Inr (Some t)" using Cons e by auto
    show ?thesis
    proof (cases "tv_from t' = rl ! i")
      case True
      then obtain f' where "TxValidator_getFunctor t' = Inr f'" "f' \<noteq> f" using Cons.prems(2) e False by auto
      then show ?thesis using IH True by (simp add: e at)
    qed (simp add: e at IH)
  qed
qed simp

lemma collect_txs_all:
  assumes "\<forall>i<minValidators. pick_tx rl f (i + 1) m = Inr (Some (g i))" "k \<le> minValidators"
  shows "collect_txs rl f m (k + 1) (map g [0..<k]) = Some (Inr (map g [0..<minValidators]))"
  using assms(2)
proof (induction "minValidators - k" arbitrary: k)
  case 0
  then show ?case by (subst collect_txs.simps) simp
next
  case (Suc d)
  then have k: "k < minValidators" "d = minValidators - (k + 1)" by simp_all
  have "collect_txs rl f m (k + 1) (map g [0..<k]) = collect_txs rl f m (k + 1 + 1) (map g [0..<k + 1])"
    using assms(1) k(1) by (subst collect_txs.simps) simp
  also have "\<dots> = Some (Inr (map g [0..<minValidators]))" using k by (intro Suc.hyps(1)) simp_all
  finally show ?case .
qed


subsection \<open>The round\<close>

text \<open>Every participant of the round has a commitment and its seed in the pool.\<close>

definition honest_round :: "crypto \<Rightarrow> rdpos \<Rightarrow> bool" where
  "honest_round cr r \<longleftrightarrow> (\<forall>i<minValidators. \<exists>p\<in>set (r_validatorMempool r). \<exists>q\<in>set (r_validatorMempool r).
     tv_from (snd p) = r_randomList r ! (i + 1) \<and> committed cr (snd p) (snd q))"

lemma committed_functors:
  assumes "committed cr h s"
  shows "TxValidator_getFunctor h = Inr [0xcf, 0xff, 0xe7, 0x46]" "TxValidator_getFunctor s = Inr [0x6f, 0xc5, 0xa2, 0xd6]"
    "tv_from s = tv_from h"
  using assms by (auto simp: committed_def TxValidator_getFunctor_def subspan_def)

text \<open>The pool holds no third transaction of a participant.\<close>

lemma pool_two:
  assumes pool: "pool_ok cr h r" and in_pool: "p \<in> set (r_validatorMempool r)" "q \<in> set (r_validatorMempool r)" "e \<in> set (r_validatorMempool r)"
    and sender: "tv_from (snd p) = v" "tv_from (snd q) = v" "tv_from (snd e) = v" and ne: "p \<noteq> q"
  shows "e = p \<or> e = q"
proof (rule ccontr)
  let ?m = "r_validatorMempool r" and ?P = "\<lambda>e. tv_from (snd e) = v"
  assume "\<not> (e = p \<or> e = q)"
  then have "card {p, q, e} = 3" using ne by auto
  moreover have "{p, q, e} \<subseteq> set (filter ?P ?m)" using in_pool sender by simp
  then have "card {p, q, e} \<le> card (set (filter ?P ?m))" by (intro card_mono) simp_all
  moreover have "card (set (filter ?P ?m)) \<le> length (filter ?P ?m)" by (rule card_length)
  moreover have "length (filter (\<lambda>t. tv_from t = v) (map snd ?m)) \<le> 2" using pool unfolding pool_ok_def by blast
  then have "length (filter ?P ?m) \<le> 2" by (simp add: filter_map comp_def)
  ultimately show False by simp
qed

lemma pick_pair:
  assumes pool: "pool_ok cr h r" and p: "p \<in> set (r_validatorMempool r)" "q \<in> set (r_validatorMempool r)"
    and i: "i < length (r_randomList r)" "tv_from (snd p) = r_randomList r ! i" and com: "committed cr (snd p) (snd q)"
  shows "pick_tx (r_randomList r) [0xcf, 0xff, 0xe7, 0x46] i (r_validatorMempool r) = Inr (Some (snd p))"
    "pick_tx (r_randomList r) [0x6f, 0xc5, 0xa2, 0xd6] i (r_validatorMempool r) = Inr (Some (snd q))"
proof -
  let ?v = "r_randomList r ! i" and ?m = "r_validatorMempool r"
  note f = committed_functors [OF com]
  have q: "tv_from (snd q) = ?v" using f(3) i(2) by simp
  have ne: "p \<noteq> q" using f(1,2) by auto
  have two: "e = p \<or> e = q" if "e \<in> set ?m" "tv_from (snd e) = ?v" for e
    using pool_two [OF pool p that(1) i(2) q that(2) ne] .
  have "\<forall>(h', t')\<in>set ?m. tv_from t' = ?v \<and> (h', t') \<noteq> (fst p, snd p) \<longrightarrow> (\<exists>f'. TxValidator_getFunctor t' = Inr f' \<and> f' \<noteq> [0xcf, 0xff, 0xe7, 0x46])"
    using two f(2) by fastforce
  then show "pick_tx (r_randomList r) [0xcf, 0xff, 0xe7, 0x46] i ?m = Inr (Some (snd p))"
    using p(1) i f(1) by (intro pick_tx_found [of i _ "fst p"]) simp_all
  have "\<forall>(h', t')\<in>set ?m. tv_from t' = ?v \<and> (h', t') \<noteq> (fst q, snd q) \<longrightarrow> (\<exists>f'. TxValidator_getFunctor t' = Inr f' \<and> f' \<noteq> [0x6f, 0xc5, 0xa2, 0xd6])"
    using two f(1) by fastforce
  then show "pick_tx (r_randomList r) [0x6f, 0xc5, 0xa2, 0xd6] i ?m = Inr (Some (snd q))"
    using p(2) i q f(2) by (intro pick_tx_found [of i _ "fst q"]) simp_all
qed

text \<open>An honest round is collected: the commitments and the seeds, each in the order of the round.\<close>

lemma collect_round:
  assumes inv: "rdpos_inv cr h r" and honest: "honest_round cr r" and dist: "distinct (r_validators r)"
  obtains hs ss where
    "collect_txs (r_randomList r) [0xcf, 0xff, 0xe7, 0x46] (r_validatorMempool r) 1 [] = Some (Inr hs)"
    "collect_txs (r_randomList r) [0x6f, 0xc5, 0xa2, 0xd6] (r_validatorMempool r) 1 [] = Some (Inr ss)"
    "length hs = 4" "length ss = 4" "\<forall>t\<in>set (hs @ ss). tv_nHeight t = h + 1"
    "\<forall>i<4. tv_from (hs ! i) = r_randomList r ! (i + 1) \<and> committed cr (hs ! i) (ss ! i)"
    "distinct (map (TxValidator_hash cr True) hs)"
proof -
  let ?m = "r_validatorMempool r" and ?rl = "r_randomList r"
  have pool: "pool_ok cr h r" and len: "4 < length ?rl" using inv rdpos_inv_length by (auto simp: rdpos_inv_def)
  have drl: "distinct ?rl" using inv dist mset_eq_imp_distinct_iff unfolding rdpos_inv_def by blast
  have "\<forall>i. \<exists>pq. i < minValidators \<longrightarrow> fst pq \<in> set ?m \<and> snd pq \<in> set ?m \<and> tv_from (snd (fst pq)) = ?rl ! (i + 1) \<and>
      committed cr (snd (fst pq)) (snd (snd pq))"
    using honest unfolding honest_round_def by (metis fst_conv snd_conv)
  then obtain g where g: "\<And>i. i < minValidators \<Longrightarrow> fst (g i) \<in> set ?m \<and> snd (g i) \<in> set ?m \<and> tv_from (snd (fst (g i))) = ?rl ! (i + 1) \<and>
      committed cr (snd (fst (g i))) (snd (snd (g i)))"
    by metis
  define hs where "hs = map (\<lambda>i. snd (fst (g i))) [0..<minValidators]"
  define ss where "ss = map (\<lambda>i. snd (snd (g i))) [0..<minValidators]"
  have pick: "pick_tx ?rl [0xcf, 0xff, 0xe7, 0x46] (i + 1) ?m = Inr (Some (snd (fst (g i))))"
    "pick_tx ?rl [0x6f, 0xc5, 0xa2, 0xd6] (i + 1) ?m = Inr (Some (snd (snd (g i))))" if "i < minValidators" for i
    using pick_pair [OF pool, of "fst (g i)" "snd (g i)" "i + 1"] g [OF that] that len by (auto simp: minValidators_def)
  have "collect_txs ?rl [0xcf, 0xff, 0xe7, 0x46] ?m 1 [] = Some (Inr hs)"
    using collect_txs_all [of ?rl _ ?m "\<lambda>i. snd (fst (g i))" 0] pick(1) by (simp add: hs_def)
  moreover have "collect_txs ?rl [0x6f, 0xc5, 0xa2, 0xd6] ?m 1 [] = Some (Inr ss)"
    using collect_txs_all [of ?rl _ ?m "\<lambda>i. snd (snd (g i))" 0] pick(2) by (simp add: ss_def)
  moreover have "length hs = 4" "length ss = 4" by (simp_all add: hs_def ss_def minValidators_def)
  moreover have "\<forall>t\<in>set (hs @ ss). tv_nHeight t = h + 1"
    using g pool unfolding pool_ok_def hs_def ss_def by auto
  moreover have nth: "hs ! i = snd (fst (g i))" "ss ! i = snd (snd (g i))" if "i < 4" for i
    using that by (simp_all add: hs_def ss_def minValidators_def)
  then have "\<forall>i<4. tv_from (hs ! i) = ?rl ! (i + 1) \<and> committed cr (hs ! i) (ss ! i)"
    using g by (simp add: minValidators_def)
  moreover have "distinct (map (TxValidator_hash cr True) hs)"
  proof -
    have hash: "TxValidator_hash cr True (snd (fst (g i))) = fst (fst (g i))" if "i < minValidators" for i
      using g [OF that] pool unfolding pool_ok_def by simp
    have "fst (fst (g i)) \<noteq> fst (fst (g j))" if "i < minValidators" "j < minValidators" "i \<noteq> j" for i j
    proof
      assume eq: "fst (fst (g i)) = fst (fst (g j))"
      have "distinct (map fst ?m)" using pool unfolding pool_ok_def by blast
      then have "fst (g i) = fst (g j)" using g [OF that(1)] g [OF that(2)] eq by (auto simp: distinct_map inj_on_def)
      then have "?rl ! (i + 1) = ?rl ! (j + 1)" using g [OF that(1)] g [OF that(2)] by simp
      then show False using nth_eq_iff_index_eq [OF drl, of "i + 1" "j + 1"] that len by (simp add: minValidators_def)
    qed
    then have "\<forall>i\<in>{0..<minValidators}. \<forall>j\<in>{0..<minValidators}. fst (fst (g i)) = fst (fst (g j)) \<longrightarrow> i = j"
      by (metis atLeastLessThan_iff)
    then show ?thesis using hash by (simp add: hs_def distinct_map inj_on_def)
  qed
  ultimately show thesis using that by blast
qed


subsection \<open>The block\<close>

lemma append_validators: "\<not> b_finalized b \<Longrightarrow>
    foldl (\<lambda>b t. fst (appendTxValidator t b)) b ts = b\<lparr>b_txValidators := b_txValidators b @ ts\<rparr>"
  by (induction ts arbitrary: b) (simp_all add: appendTxValidator_def)

lemma fill_block: "\<not> b_finalized b \<Longrightarrow> fillBlockWithTransactions b s = b\<lparr>b_txs := b_txs b @ map snd (s_mempool s)\<rparr>"
proof -
  have "foldl (\<lambda>b (h, t). fst (appendTx t b)) b m = b\<lparr>b_txs := b_txs b @ map snd m\<rparr>" if "\<not> b_finalized b" for m :: "(Hash \<times> tx_block) list"
    using that by (induction m arbitrary: b) (auto simp: appendTx_def)
  then show "\<not> b_finalized b \<Longrightarrow> ?thesis" by (simp add: fillBlockWithTransactions_def)
qed

text \<open>A key that signs: every hash gets a signature from which the key is recovered.\<close>

definition signing_key :: "crypto \<Rightarrow> PrivKey \<Rightarrow> bool" where
  "signing_key cr key \<longleftrightarrow> (\<forall>h. \<exists>sig. sign cr h key = Inr sig \<and> recover cr sig h = toUPub cr key)"

lemma build_block_ok:
  assumes ch: "st_chain (s_storage s) \<noteq> []" and key: "signing_key cr key" and now: "b_timestamp (last (st_chain (s_storage s))) \<le> now"
  obtains b where "build_block cr key now hs ss s = Inr b" "b_finalized b" "b_timestamp b = now" "b_validatorPubKey b = toUPub cr key"
    "b_prevBlockHash b = Block_hash cr (last (st_chain (s_storage s)))" "b_nHeight b = b_nHeight (last (st_chain (s_storage s))) + 1"
    "b_txValidators b = hs @ ss" "b_txs b = map snd (s_mempool s)"
proof -
  let ?l = "last (st_chain (s_storage s))"
  define b0 where "b0 = (Block_new (Block_hash cr ?l) (b_timestamp ?l) (b_nHeight ?l + 1))\<lparr>b_txValidators := hs @ ss, b_txs := map snd (s_mempool s)\<rparr>"
  have steps: "fillBlockWithTransactions (foldl (\<lambda>b t. fst (appendTxValidator t b)) (foldl (\<lambda>b t. fst (appendTxValidator t b))
      (Block_new (Block_hash cr ?l) (b_timestamp ?l) (b_nHeight ?l + 1)) hs) ss) s = b0"
    by (simp add: append_validators fill_block Block_new_def b0_def)
  have nf: "\<not> b_finalized b0" "\<not> b_timestamp b0 > now" using now by (simp_all add: b0_def Block_new_def)
  define b1 where "b1 = b0\<lparr>b_timestamp := now, b_txMerkleRoot := tx_root cr (b_txs b0),
    b_validatorMerkleRoot := validator_root cr (b_txValidators b0), b_blockRandomness := parseTxSeedList cr (b_txValidators b0)\<rparr>"
  obtain sig where sig: "sign cr (Block_hash cr b1) key = Inr sig" "recover cr sig (Block_hash cr b1) = toUPub cr key"
    using key unfolding signing_key_def by blast
  define b where "b = b1\<lparr>b_validatorSig := sig, b_validatorPubKey := recover cr sig (Block_hash cr b1), b_finalized := True\<rparr>"
  have "signBlock cr key now b0 = (b, Inr True)"
    using nf sig(1) by (simp add: signBlock_def finalize_def Let_def b1_def [symmetric] b_def)
  then have "build_block cr key now hs ss s = Inr b" using ch steps by (simp add: build_block_def latest_def)
  then show thesis using that sig(2) by (simp add: b_def b1_def b0_def Block_new_def)
qed

text \<open>
  \<open>addValidatorTx\<close> takes a transaction with any functor, so a participant can fill its place in the pool without a seed: the
  block creator then never leaves the second loop.
\<close>

lemma missing_seed_hangs:
  assumes "collect_txs (r_randomList (s_rdpos s)) [0xcf, 0xff, 0xe7, 0x46] (r_validatorMempool (s_rdpos s)) 1 [] = Some (Inr hs)"
    "pick_tx (r_randomList (s_rdpos s)) [0x6f, 0xc5, 0xa2, 0xd6] 1 (r_validatorMempool (s_rdpos s)) = Inr None"
  shows "doValidatorBlock cr K key now s = None"
  using assms collect_txs_diverges [OF _ assms(2), of "[]"] by (simp add: doValidatorBlock_def functor_literals Let_def minValidators_def)

lemma validator_progress:
  assumes sha: "\<And>x. length (sha3 cr x) = 32" and reach: "state_reach cr s"
    and round: "honest_round cr (s_rdpos s)" "distinct (r_validators (s_rdpos s))" "8 \<le> length (r_validatorMempool (s_rdpos s))"
    and creator: "toAddress cr (toUPub cr key) = r_randomList (s_rdpos s) ! 0" "signing_key cr key"
    and now: "b_timestamp (last (st_chain (s_storage s))) \<le> now"
    and txs: "s_mempool s \<noteq> []" "distinct (map (t_from \<circ> snd) (s_mempool s))" "\<forall>t\<in>snd ` set (s_mempool s). plain K (s_cm s) t"
    and bounded: "finite (dom (s_accounts s))" "supply_native (s_accounts s) < 2 ^ 256"
  shows "\<exists>s' b. doValidatorBlock cr K key now s = Some (s', Inr ()) \<and> st_chain (s_storage s') = st_chain (s_storage s) @ [b] \<and>
    b_txs b = map snd (s_mempool s) \<and> settled_by (b_txs b) (s_accounts s) (s_accounts s') \<and> s_mempool s' = []"
proof -
  let ?ch = "st_chain (s_storage s)" and ?rl = "r_randomList (s_rdpos s)"
  have inv: "state_inv cr s" using state_reach_inv [OF sha reach] .
  then have ch: "?ch \<noteq> []" and rinv: "rdpos_inv cr (b_nHeight (last ?ch)) (s_rdpos s)" and minv: "mempool_inv cr s"
    by (simp_all add: state_inv_def)
  obtain hs ss where c: "collect_txs ?rl [0xcf, 0xff, 0xe7, 0x46] (r_validatorMempool (s_rdpos s)) 1 [] = Some (Inr hs)"
    "collect_txs ?rl [0x6f, 0xc5, 0xa2, 0xd6] (r_validatorMempool (s_rdpos s)) 1 [] = Some (Inr ss)"
    and four: "length hs = 4" "length ss = 4" "\<forall>t\<in>set (hs @ ss). tv_nHeight t = b_nHeight (last ?ch) + 1"
    "\<forall>i<4. tv_from (hs ! i) = ?rl ! (i + 1) \<and> committed cr (hs ! i) (ss ! i)" "distinct (map (TxValidator_hash cr True) hs)"
    using collect_round [OF rinv round(1,2)] by blast
  obtain b where b: "build_block cr key now hs ss s = Inr b" "b_finalized b" "b_timestamp b = now" "b_validatorPubKey b = toUPub cr key"
    "b_prevBlockHash b = Block_hash cr (last ?ch)" "b_nHeight b = b_nHeight (last ?ch) + 1" "b_txValidators b = hs @ ss"
    "b_txs b = map snd (s_mempool s)"
    using build_block_ok [OF ch creator(2) now] by blast
  have "accepted cr ?rl b"
    unfolding accepted_def b(6,7) using b(2,4) creator(1) four by (simp add: nth_append)
  then have "validateBlock cr (s_rdpos s) b = Inr True" using validateBlock_eq rdpos_inv_length [OF rinv] by (simp add: Suc_le_eq)
  moreover have keys: "TxBlock_hash cr True t \<in> fst ` set (s_mempool s)" if "t \<in> set (b_txs b)" for t
    using that minv unfolding b(8) mempool_inv_def by force
  ultimately have valid: "validateNextBlock cr b s = Inr True"
    using ch b(3,5,6) now unfolding validateNextBlock_True Let_def by (simp add: validateTransactionInternal_def)
  have "valid_now (s_accounts s) t" if "t \<in> set (b_txs b)" for t
    using that minv unfolding b(8) mempool_inv_def by force
  then have "\<forall>t\<in>set (b_txs b). plain K (s_cm s) t \<and> funded (s_accounts s) t"
    using txs(3) valid_now_funded unfolding b(8) set_map by blast
  moreover have "distinct (map t_from (b_txs b))" using txs(2) by (simp add: b(8))
  ultimately obtain accs' where run: "process_txs K (b_txs b) s = (s\<lparr>s_accounts := accs'\<rparr>, Inr ())"
    and set: "settled_by (b_txs b) (s_accounts s) accs'"
    using process_txs_settled [OF bounded] by blast
  have none: "filter (kept cr b accs') (s_mempool s) = []"
    using minv unfolding filter_empty_conv kept_def mempool_inv_def b(8) by force
  define s' where "s' = s\<lparr>s_accounts := accs', s_rdpos := fst (processBlock cr b (s_rdpos s)), s_mempool := [],
    s_storage := index_block cr b ((s_storage s)\<lparr>st_chain := ?ch @ [b]\<rparr>)\<rparr>"
  have proc: "processNextBlock cr K b s = (s', Inr ())" using processNextBlock_eq [OF sha inv valid run] none by (simp add: s'_def)
  then have "append_block cr K b s = (s', Inr ())"
    using valid by (simp add: append_block_def bindS_def readS_def liftS_def retS_def Let_def latest_def s'_def)
  then have "doValidatorBlock cr K key now s = Some (s', Inr ())"
    using round(3) txs(1) c b(1) by (simp add: doValidatorBlock_def functor_literals Let_def minValidators_def Suc_le_eq not_less)
  then show ?thesis using set b(8) by (intro exI [of _ s'] exI [of _ b]) (simp add: s'_def)
qed

section \<open>Properties\<close>



section \<open>Witnesses\<close>

text \<open>A round of five validators with all four commitments and seeds in the pool, and one transfer.\<close>

definition demo_live_crypto :: crypto where
  "demo_live_crypto = demo_round_crypto\<lparr>ext_recover := \<lambda>sig v msg. Some (4 # replicate 64
     (if take 32 sig = uint256ToBytes 5 then 7 else if take 32 sig = uint256ToBytes (2 ^ 250) then 9 else last msg))\<rparr>"

definition demo_live_tx :: "bytes \<Rightarrow> byte \<Rightarrow> tx_validator" where
  "demo_live_tx f i = (demo_round_tx f i)\<lparr>tv_r := 2 ^ 248, tv_s := 2 ^ 248\<rparr>"

definition demo_live_pay :: tx_block where
  "demo_live_pay = demo_pay\<lparr>t_r := 2 ^ 250, t_s := 2 ^ 248\<rparr>"

definition demo_live_pool :: "(Hash \<times> tx_validator) list" where
  "demo_live_pool = map (\<lambda>i. (0x46 # replicate 31 i, demo_live_tx [0xcf, 0xff, 0xe7, 0x46] i)) [1, 2, 3, 4] @
     map (\<lambda>i. (0xd6 # replicate 31 i, demo_live_tx [0x6f, 0xc5, 0xa2, 0xd6] i)) [1, 2, 3, 4]"

definition demo_live_rdpos :: rdpos where
  "demo_live_rdpos = \<lparr>r_validators = map (replicate 20) [7, 1, 2, 3, 4], r_randomList = map (replicate 20) [7, 1, 2, 3, 4],
     r_validatorMempool = demo_live_pool, r_randomGen = [], r_bestRandomSeed = []\<rparr>"

definition demo_live_state :: "unit state" where
  "demo_live_state = fst (addTx demo_live_crypto demo_live_pay (demo_state\<lparr>s_rdpos := demo_live_rdpos\<rparr>))"

lemma demo_live_sha: "length (sha3 demo_live_crypto x) = 32"
  by (auto simp: demo_live_crypto_def demo_round_crypto_def min_def)

lemma demo_live_cost: "cost demo_live_pay = 11"
  by (simp add: cost_def fee_def demo_live_pay_def demo_pay_def)

lemma demo_live_size: "TxValidator_total_size True (demo_live_tx [a, b, c, d] i) = 105"
  by (simp add: TxValidator_total_size_def demo_live_tx_def demo_round_tx_def data_size_def uint_size_def bytesRequired_step)

lemma demo_live_hash: "TxValidator_hash demo_live_crypto True (demo_live_tx [a, b, c, d] i) = d # replicate 31 i"
proof -
  have "bytesRequired (105 :: uint64) = 1" by (simp add: bytesRequired_step)
  then obtain x where "uintToBytes (105 :: uint64) = [x]" using length_uintToBytes [of "105 :: uint64"] by (metis One_nat_def length_0_conv length_Suc_conv)
  moreover have "tv_data (demo_live_tx [a, b, c, d] i) = [a, b, c, d] @ replicate 32 i" by (simp add: demo_live_tx_def demo_round_tx_def)
  ultimately show ?thesis
    by (simp add: TxValidator_hash_def demo_live_crypto_def demo_round_crypto_def TxValidator_rlpSerialize_def put_list_header_def put_data_def
        demo_live_size)
qed

lemma demo_live_rdpos_inv: "rdpos_inv demo_live_crypto 6 demo_live_rdpos"
proof -
  have pool: "r_validatorMempool demo_live_rdpos = demo_live_pool" "r_randomList demo_live_rdpos = map (replicate 20) [7, 1, 2, 3, 4]"
    by (simp_all add: demo_live_rdpos_def)
  have fields: "tv_from (demo_live_tx f i) = replicate 20 i" "tv_nHeight (demo_live_tx f i) = 7" for f i
    by (simp_all add: demo_live_tx_def demo_round_tx_def)
  have functors: "TxValidator_getFunctor (demo_live_tx [a, b, c, d] i) = Inr [a, b, c, d]" for a b c d i
    by (simp add: TxValidator_getFunctor_def subspan_def demo_live_tx_def demo_round_tx_def)
  have "distinct (map fst demo_live_pool)" by (simp add: demo_live_pool_def replicate_eq_replicate)
  moreover have "\<forall>p\<in>set demo_live_pool. fst p = TxValidator_hash demo_live_crypto True (snd p) \<and> tv_nHeight (snd p) = 6 + 1 \<and>
      tv_from (snd p) \<in> set (take 4 (drop 1 (map (replicate 20) [7, 1, 2, 3, 4])))"
    by (simp add: demo_live_pool_def demo_live_hash fields)
  moreover have "length (filter (\<lambda>t. tv_from t = a) (map snd demo_live_pool)) \<le> 2" for a
  proof -
    have one: "length (filter (\<lambda>i. replicate 20 i = a) is) \<le> 1" if "distinct is" for "is" :: "byte list"
      using that
    proof (induction "is")
      case (Cons i "is")
      then have "replicate 20 i = a \<Longrightarrow> filter (\<lambda>i. replicate 20 i = a) is = []" by (auto simp: filter_empty_conv replicate_eq_replicate)
      then show ?case using Cons by auto
    qed simp
    have "filter (\<lambda>t. tv_from t = a) (map snd demo_live_pool) = map (demo_live_tx [0xcf, 0xff, 0xe7, 0x46]) (filter (\<lambda>i. replicate 20 i = a) [1, 2, 3, 4]) @
        map (demo_live_tx [0x6f, 0xc5, 0xa2, 0xd6]) (filter (\<lambda>i. replicate 20 i = a) [1, 2, 3, 4])"
      unfolding demo_live_pool_def map_append map_map filter_append filter_map comp_def fields snd_conv ..
    then show ?thesis using one [of "[1, 2, 3, 4]"] by simp
  qed
  moreover have "\<forall>p\<in>set demo_live_pool. \<forall>q\<in>set demo_live_pool. tv_from (snd p) = tv_from (snd q) \<and> p \<noteq> q \<longrightarrow>
      TxValidator_getFunctor (snd p) \<noteq> TxValidator_getFunctor (snd q)"
    by (simp add: demo_live_pool_def fields functors replicate_eq_replicate)
  ultimately have "pool_ok demo_live_crypto 6 demo_live_rdpos" unfolding pool_ok_def pool by blast
  then show ?thesis by (simp add: rdpos_inv_def minValidators_def) (simp add: demo_live_rdpos_def)
qed


lemma demo_live_reach: "state_reach demo_live_crypto demo_live_state"
proof -
  have "state_reach demo_live_crypto (demo_state\<lparr>s_rdpos := demo_live_rdpos\<rparr>)"
  proof (rule state_reach.start)
    have "b_nHeight (last (st_chain (s_storage (demo_state\<lparr>s_rdpos := demo_live_rdpos\<rparr>)))) = 6"
      by (simp add: demo_state_def Storage_empty_def demo_prev_def Block_new_def)
    then show "rdpos_inv demo_live_crypto (b_nHeight (last (st_chain (s_storage (demo_state\<lparr>s_rdpos := demo_live_rdpos\<rparr>)))))
        (s_rdpos (demo_state\<lparr>s_rdpos := demo_live_rdpos\<rparr>))" using demo_live_rdpos_inv by simp
  qed (simp_all add: demo_state_def Storage_empty_def)
  then show ?thesis unfolding demo_live_state_def by (rule state_reach.addTx)
qed

lemma demo_live_fields:
  "s_mempool demo_live_state = [(TxBlock_hash demo_live_crypto True demo_live_pay, demo_live_pay)]" "s_rdpos demo_live_state = demo_live_rdpos"
  "s_accounts demo_live_state = s_accounts demo_state" "s_storage demo_live_state = s_storage demo_state" "s_cm demo_live_state = s_cm demo_state"
proof -
  have "validateTransactionInternal demo_live_crypto demo_live_pay (demo_state\<lparr>s_rdpos := demo_live_rdpos\<rparr>) = Inr NotInvalid"
    using validate_new(1) [of demo_live_crypto demo_live_pay "demo_state\<lparr>s_rdpos := demo_live_rdpos\<rparr>"]
    by (simp add: demo_state_def valid_now_def demo_live_cost) (simp add: demo_live_pay_def demo_pay_def)
  then show "s_mempool demo_live_state = [(TxBlock_hash demo_live_crypto True demo_live_pay, demo_live_pay)]" "s_rdpos demo_live_state = demo_live_rdpos"
    "s_accounts demo_live_state = s_accounts demo_state" "s_storage demo_live_state = s_storage demo_state" "s_cm demo_live_state = s_cm demo_state"
    by (simp_all add: demo_live_state_def addTx_def mempool_insert_def) (simp_all add: demo_state_def)
qed

lemma demo_live_recover:
  assumes "v \<le> 3"
  shows "recover demo_live_crypto (makeSig r s v) msg = 4 # replicate 64 (if r = 5 then 7 else if r = 2 ^ 250 then 9 else last msg)"
proof -
  have "\<not> v > 3" using assms by simp
  then show ?thesis
    by (simp add: recover_def makeSig_parts(3)) (simp add: demo_live_crypto_def makeSig_eq c256.enc_length c256.enc_inj)
qed

lemma demo_live_key: "signing_key demo_live_crypto key" "toAddress demo_live_crypto (toUPub demo_live_crypto key) = replicate 20 7"
proof -
  have "sign demo_live_crypto h key = Inr (makeSig 5 1 1)" for h
    by (simp add: sign_def demo_live_crypto_def demo_round_crypto_def demo_crypto_def subspan_def c256.enc_length c256.dec_enc ecConst_def checked_sub_def)
  moreover have "recover demo_live_crypto (makeSig 5 1 1) h = toUPub demo_live_crypto key" for h
    using demo_live_recover [of 1 5 1 h] by (simp add: toUPub_def) (simp add: demo_live_crypto_def demo_round_crypto_def demo_crypto_def)
  ultimately show "signing_key demo_live_crypto key" by (simp add: signing_key_def)
  show "toAddress demo_live_crypto (toUPub demo_live_crypto key) = replicate 20 7"
    by (simp add: toAddress_def toUPub_def demo_live_crypto_def demo_round_crypto_def demo_crypto_def)
qed

lemma demo_live_honest: "honest_round demo_live_crypto demo_live_rdpos"
proof -
  have com: "committed demo_live_crypto (demo_live_tx [0xcf, 0xff, 0xe7, 0x46] i) (demo_live_tx [0x6f, 0xc5, 0xa2, 0xd6] i)" for i
    by (auto simp: committed_def demo_live_tx_def demo_round_tx_def demo_live_crypto_def demo_round_crypto_def)
  have "\<exists>p\<in>set demo_live_pool. \<exists>q\<in>set demo_live_pool. tv_from (snd p) = replicate 20 i \<and> committed demo_live_crypto (snd p) (snd q)"
    if "i \<in> {1, 2, 3, 4}" for i :: byte
  proof (intro bexI conjI)
    show "tv_from (snd (0x46 # replicate 31 i, demo_live_tx [0xcf, 0xff, 0xe7, 0x46] i)) = replicate 20 i" by (simp add: demo_live_tx_def demo_round_tx_def)
    show "committed demo_live_crypto (snd (0x46 # replicate 31 i, demo_live_tx [0xcf, 0xff, 0xe7, 0x46] i))
        (snd (0xd6 # replicate 31 i, demo_live_tx [0x6f, 0xc5, 0xa2, 0xd6] i))" using com by simp
  qed (use that in \<open>auto simp: demo_live_pool_def\<close>)
  moreover have "(\<forall>i<minValidators. P i) \<longleftrightarrow> P 0 \<and> P 1 \<and> P 2 \<and> P 3" for P :: "nat \<Rightarrow> bool"
    by (auto simp: minValidators_def less_Suc_eq numeral_eq_Suc)
  ultimately show ?thesis by (simp add: honest_round_def demo_live_rdpos_def)
qed

lemma demo_live_ready:
  "honest_round demo_live_crypto (s_rdpos demo_live_state)" "distinct (r_validators (s_rdpos demo_live_state))"
  "8 \<le> length (r_validatorMempool (s_rdpos demo_live_state))"
  "toAddress demo_live_crypto (toUPub demo_live_crypto []) = r_randomList (s_rdpos demo_live_state) ! 0" "signing_key demo_live_crypto []"
  "b_timestamp (last (st_chain (s_storage demo_live_state))) \<le> 9"
  "s_mempool demo_live_state \<noteq> []" "distinct (map (t_from \<circ> snd) (s_mempool demo_live_state))"
  "\<forall>t\<in>snd ` set (s_mempool demo_live_state). plain demo_contracts (s_cm demo_live_state) t"
  "finite (dom (s_accounts demo_live_state))" "supply_native (s_accounts demo_live_state) < 2 ^ 256"
  "st_chain (s_storage demo_live_state) = [demo_prev]"
proof -
  have "plain demo_contracts (s_cm demo_state) demo_live_pay"
    by (simp add: plain_def isContractCall_def demo_contracts_def demo_state_def demo_live_pay_def demo_pay_def)
  then show "\<forall>t\<in>snd ` set (s_mempool demo_live_state). plain demo_contracts (s_cm demo_live_state) t" by (simp add: demo_live_fields)
  show "finite (dom (s_accounts demo_live_state))" "supply_native (s_accounts demo_live_state) < 2 ^ 256"
    by (simp_all add: demo_live_fields demo_state_def supply_native_def nativeOf_def)
  show "st_chain (s_storage demo_live_state) = [demo_prev]" by (simp add: demo_live_fields demo_state_def Storage_empty_def)
  then show "b_timestamp (last (st_chain (s_storage demo_live_state))) \<le> 9" by (simp add: demo_prev_def Block_new_def)
  show "distinct (r_validators (s_rdpos demo_live_state))" "8 \<le> length (r_validatorMempool (s_rdpos demo_live_state))"
    by (simp_all add: demo_live_fields demo_live_rdpos_def demo_live_pool_def replicate_eq_replicate)
  show "toAddress demo_live_crypto (toUPub demo_live_crypto []) = r_randomList (s_rdpos demo_live_state) ! 0"
    using demo_live_key(2) [of "[]"] by (simp add: demo_live_fields demo_live_rdpos_def)
qed (simp_all add: demo_live_fields demo_live_honest demo_live_key)


end
