(* ===== verification/P2PManager.thy ===== *)
theory P2PManager
  imports P2PSession Syncer
begin

text \<open>
  The managers of the connections (\<^verbatim>\<open>net/p2p/managerbase.cpp\<close>, \<^verbatim>\<open>net/p2p/managernormal.cpp\<close>, \<^verbatim>\<open>net/p2p/managerdiscovery.cpp\<close>): the table of sessions, requests and
  their answers, and the handlers of all messages, over the state of the chain. A session is named by its node; what is
  asked of it (a message to write, closing) is the list \<open>mg_calls\<close>. The argument \<open>session\<close> of a handler is the node of
  the session when \<^verbatim>\<open>session.lock()\<close> succeeds. The locks make every handler atomic. A handler that returns an exception
  lets it escape to the thread pool.
\<close>

section \<open>Definitions\<close>

datatype manager_call = WriteTo NodeID p2p_message | CloseSession NodeID | ConnectTo NodeID

record request =
  rq_command :: CommandType
  rq_id :: RequestID
  rq_nodeId :: NodeID
  rq_message :: p2p_message
  rq_answer :: "p2p_message option"

record manager_base =
  mg_closed :: bool
  mg_sessions :: "(NodeID \<times> NodeType) list"
  mg_requests :: "RequestID \<rightharpoonup> request"
  mg_calls :: "manager_call list"

record 'd manager = manager_base +
  mg_broadcasted :: "uint64 \<rightharpoonup> uint32"
  mg_state :: "'d state"

subsection \<open>ManagerBase\<close>

definition has_session :: "NodeID \<Rightarrow> 'm manager_base_scheme \<Rightarrow> bool" where
  "has_session nodeId mg \<longleftrightarrow> nodeId \<in> fst ` set (mg_sessions mg)"

definition mg_call :: "manager_call \<Rightarrow> 'm manager_base_scheme \<Rightarrow> 'm manager_base_scheme" where
  "mg_call c mg = mg\<lparr>mg_calls := mg_calls mg @ [c]\<rparr>"

definition erase_session :: "NodeID \<Rightarrow> 'm manager_base_scheme \<Rightarrow> 'm manager_base_scheme" where
  "erase_session nodeId mg = mg\<lparr>mg_sessions := filter (\<lambda>p. fst p \<noteq> nodeId) (mg_sessions mg)\<rparr>"

definition registerSession :: "NodeID \<Rightarrow> NodeType \<Rightarrow> 'm manager_base_scheme \<Rightarrow> 'm manager_base_scheme \<times> bool" where
  "registerSession nodeId nodeType mg =
     (if mg_closed mg then (mg, False)
      else if has_session nodeId mg then (mg, False)
      else (mg\<lparr>mg_sessions := mg_sessions mg @ [(nodeId, nodeType)]\<rparr>, True))"

definition unregisterSession :: "NodeID \<Rightarrow> 'm manager_base_scheme \<Rightarrow> 'm manager_base_scheme \<times> bool" where
  "unregisterSession nodeId mg =
     (if mg_closed mg then (mg, False)
      else if \<not> has_session nodeId mg then (mg, False)
      else (erase_session nodeId mg, True))"

definition disconnectSession :: "NodeID \<Rightarrow> 'm manager_base_scheme \<Rightarrow> 'm manager_base_scheme \<times> bool" where
  "disconnectSession nodeId mg =
     (if \<not> has_session nodeId mg then (mg, False)
      else (erase_session nodeId (mg_call (CloseSession nodeId) mg), True))"

definition sendRequestTo :: "NodeID \<Rightarrow> p2p_message \<Rightarrow> ('m manager_base_scheme, request option) sres" where
  "sendRequestTo nodeId m mg =
     (if mg_closed mg then (mg, Inr None)
      else case map_of (mg_sessions mg) nodeId of
        None \<Rightarrow> (mg, Inr None)
      | Some hostType \<Rightarrow>
          bindS (liftS (Message_command m)) (\<lambda>c.
          if hostType = DISCOVERY_NODE \<and> (c = Info \<or> c = RequestValidatorTxs) then retS None
          else bindS (liftS (Message_id m)) (\<lambda>i mg.
            let rq = \<lparr>rq_command = c, rq_id = i, rq_nodeId = nodeId, rq_message = m, rq_answer = None\<rparr>
            in (mg_call (WriteTo nodeId m) (mg\<lparr>mg_requests := (mg_requests mg)(i \<mapsto> rq)\<rparr>), Inr (Some rq)))) mg)"

definition answerSession :: "NodeID option \<Rightarrow> p2p_message \<Rightarrow> ('m manager_base_scheme, unit) sres" where
  "answerSession session m mg =
     (if mg_closed mg then (mg, Inr ())
      else case session of None \<Rightarrow> (mg, Inr ()) | Some nodeId \<Rightarrow> (mg_call (WriteTo nodeId m) mg, Inr ()))"

definition manager_start :: "'m manager_base_scheme \<Rightarrow> 'm manager_base_scheme" where
  "manager_start mg = mg\<lparr>mg_closed := False\<rparr>"

definition manager_stop :: "'m manager_base_scheme \<Rightarrow> 'm manager_base_scheme" where
  "manager_stop mg = mg\<lparr>mg_closed := True, mg_calls := mg_calls mg @ map (CloseSession \<circ> fst) (mg_sessions mg), mg_sessions := []\<rparr>"

definition getSessionsIDs :: "'m manager_base_scheme \<Rightarrow> NodeID list" where
  "getSessionsIDs mg = map fst (mg_sessions mg)"

text \<open>\<open>self\<close> is the local address and the port of the server of this node.\<close>

definition connectToServer :: "NodeID \<Rightarrow> NodeID \<Rightarrow> 'm manager_base_scheme \<Rightarrow> 'm manager_base_scheme" where
  "connectToServer self nodeId mg =
     (if mg_closed mg then mg
      else if nodeId = self then mg
      else if has_session nodeId mg then mg
      else mg_call (ConnectTo nodeId) mg)"

text \<open>
  The result of a request after waiting for the answer: \<open>answer\<close> is \<open>None\<close> when the request was not sent or timed out, and
  an exception of the decoder is caught.
\<close>

definition decoded_answer :: "(p2p_message \<Rightarrow> 'a res) \<Rightarrow> 'a \<Rightarrow> p2p_message option \<Rightarrow> 'a res" where
  "decoded_answer dec none answer =
     (case answer of
        None \<Rightarrow> Inr none
      | Some m \<Rightarrow> (case dec m of Inl e \<Rightarrow> if e = UndefinedBehaviour then Inl e else Inr none | Inr a \<Rightarrow> Inr a))"

definition requestNodes_send :: "bytes \<Rightarrow> NodeID \<Rightarrow> ('m manager_base_scheme, request option) sres" where
  "requestNodes_send rnd nodeId = bindS (liftS (RequestEncoder_requestNodes rnd)) (sendRequestTo nodeId)"

definition requestNodes_result :: "p2p_message option \<Rightarrow> (NodeID \<times> NodeType) list res" where
  "requestNodes_result = decoded_answer AnswerDecoder_requestNodes []"

definition ping_send :: "bytes \<Rightarrow> NodeID \<Rightarrow> ('m manager_base_scheme, unit) sres" where
  "ping_send rnd nodeId =
     bindS (liftS (RequestEncoder_ping rnd)) (\<lambda>m. bindS (sendRequestTo nodeId m) (\<lambda>rq.
     case rq of None \<Rightarrow> throwS (RuntimeError ''Failed to send ping to '') | Some _ \<Rightarrow> retS ()))"

text \<open>The sender of a message that is not accepted is disconnected.\<close>

definition drop_session :: "NodeID option \<Rightarrow> ('m manager_base_scheme, unit) sres" where
  "drop_session session mg = (case session of None \<Rightarrow> mg | Some nodeId \<Rightarrow> fst (disconnectSession nodeId mg), Inr ())"

text \<open>\<open>setAnswer\<close> on the promise of a request, which throws when it was set before.\<close>

definition setAnswer :: "p2p_message \<Rightarrow> request \<Rightarrow> request res" where
  "setAnswer m rq = (if rq_answer rq \<noteq> None then Inl (RuntimeError ''Promise already satisfied'') else Inr (rq\<lparr>rq_answer := Some m\<rparr>))"

text \<open>The four answer handlers of \<open>ManagerNormal\<close> and the two of \<open>ManagerDiscovery\<close> have this body, and likewise the request handlers.\<close>

definition handle_answer :: "NodeID option \<Rightarrow> p2p_message \<Rightarrow> ('m manager_base_scheme, unit) sres" where
  "handle_answer session m =
     bindS (liftS (Message_id m)) (\<lambda>i mg.
     case mg_requests mg i of
       None \<Rightarrow> drop_session session mg
     | Some rq \<Rightarrow> bindS (liftS (setAnswer m rq)) (\<lambda>rq mg. (mg\<lparr>mg_requests := (mg_requests mg)(i \<mapsto> rq)\<rparr>, Inr ())) mg)"

text \<open>Requests without data: the sender gets an answer, or is dropped when the request is not of the right form.\<close>

definition answer_bare ::
  "(p2p_message \<Rightarrow> bool res) \<Rightarrow> ('m manager_base_scheme \<Rightarrow> p2p_message res) \<Rightarrow> NodeID option \<Rightarrow> p2p_message \<Rightarrow> ('m manager_base_scheme, unit) sres" where
  "answer_bare dec enc session m =
     bindS (liftS (dec m)) (\<lambda>ok.
     if \<not> ok then drop_session session
     else bindS (readS enc) (\<lambda>r. bindS (liftS r) (answerSession session)))"

definition handlePingAnswer :: "NodeID option \<Rightarrow> p2p_message \<Rightarrow> ('m manager_base_scheme, unit) sres" where
  "handlePingAnswer session m = handle_answer session m"

definition handleInfoAnswer :: "NodeID option \<Rightarrow> p2p_message \<Rightarrow> ('m manager_base_scheme, unit) sres" where
  "handleInfoAnswer session m = handle_answer session m"

definition handleRequestNodesAnswer :: "NodeID option \<Rightarrow> p2p_message \<Rightarrow> ('m manager_base_scheme, unit) sres" where
  "handleRequestNodesAnswer session m = handle_answer session m"

definition handleTxValidatorAnswer :: "NodeID option \<Rightarrow> p2p_message \<Rightarrow> ('m manager_base_scheme, unit) sres" where
  "handleTxValidatorAnswer session m = handle_answer session m"

definition handlePingRequest :: "NodeID option \<Rightarrow> p2p_message \<Rightarrow> ('m manager_base_scheme, unit) sres" where
  "handlePingRequest session m = answer_bare RequestDecoder_ping (\<lambda>_. AnswerEncoder_ping m) session m"

definition handleRequestNodesRequest :: "NodeID option \<Rightarrow> p2p_message \<Rightarrow> ('m manager_base_scheme, unit) sres" where
  "handleRequestNodesRequest session m =
     answer_bare RequestDecoder_requestNodes (\<lambda>mg. AnswerEncoder_requestNodes m (mg_sessions mg)) session m"

subsection \<open>ManagerDiscovery\<close>

definition discovery_handlePingRequest :: "NodeID option \<Rightarrow> p2p_message \<Rightarrow> ('m manager_base_scheme, unit) sres" where
  "discovery_handlePingRequest session m = answer_bare RequestDecoder_ping (\<lambda>_. AnswerEncoder_ping m) session m"

definition discovery_handleRequestNodesRequest :: "NodeID option \<Rightarrow> p2p_message \<Rightarrow> ('m manager_base_scheme, unit) sres" where
  "discovery_handleRequestNodesRequest session m =
     answer_bare RequestDecoder_requestNodes (\<lambda>mg. AnswerEncoder_requestNodes m (mg_sessions mg)) session m"

definition discovery_handlePingAnswer :: "NodeID option \<Rightarrow> p2p_message \<Rightarrow> ('m manager_base_scheme, unit) sres" where
  "discovery_handlePingAnswer session m = handle_answer session m"

definition discovery_handleRequestNodesAnswer :: "NodeID option \<Rightarrow> p2p_message \<Rightarrow> ('m manager_base_scheme, unit) sres" where
  "discovery_handleRequestNodesAnswer session m = handle_answer session m"

definition discovery_handleRequest :: "NodeID option \<Rightarrow> p2p_message \<Rightarrow> ('m manager_base_scheme, unit) sres" where
  "discovery_handleRequest session m =
     bindS (liftS (Message_command m)) (\<lambda>c. case c of
       Ping \<Rightarrow> discovery_handlePingRequest session m
     | RequestNodes \<Rightarrow> discovery_handleRequestNodesRequest session m
     | _ \<Rightarrow> drop_session session)"

definition discovery_handleAnswer :: "NodeID option \<Rightarrow> p2p_message \<Rightarrow> ('m manager_base_scheme, unit) sres" where
  "discovery_handleAnswer session m =
     bindS (liftS (Message_command m)) (\<lambda>c. case c of
       Ping \<Rightarrow> discovery_handlePingAnswer session m
     | Info \<Rightarrow> retS ()
     | RequestNodes \<Rightarrow> discovery_handleRequestNodesAnswer session m
     | _ \<Rightarrow> drop_session session)"

definition discovery_handleMessage :: "NodeID option \<Rightarrow> p2p_message \<Rightarrow> ('m manager_base_scheme, unit) sres" where
  "discovery_handleMessage session m mg =
     (if mg_closed mg then (mg, Inr ())
      else bindS (liftS (Message_type m)) (\<lambda>t. case t of
        Requesting \<Rightarrow> discovery_handleRequest session m
      | Answering \<Rightarrow> discovery_handleAnswer session m
      | _ \<Rightarrow> drop_session session) mg)"

subsection \<open>ManagerNormal: broadcasts\<close>

definition broadcastMessage :: "p2p_message \<Rightarrow> ('d manager, unit) sres" where
  "broadcastMessage m mg =
     (if mg_closed mg then (mg, Inr ())
      else bindS (liftS (bindR (Message_id m) toUint64)) (\<lambda>i mg.
        let n = (case mg_broadcasted mg i of None \<Rightarrow> 0 | Some n \<Rightarrow> n) in
        if n > 0 then (mg, Inr ())
        else (mg\<lparr>mg_broadcasted := (mg_broadcasted mg)(i \<mapsto> n + 1),
                 mg_calls := mg_calls mg @ map (\<lambda>p. WriteTo (fst p) m) (filter (\<lambda>p. snd p = NORMAL_NODE) (mg_sessions mg))\<rparr>, Inr ())) mg)"

definition on_state :: "('d state, 'a) sres \<Rightarrow> ('d manager, 'a) sres" where
  "on_state f mg = (case f (mg_state mg) of (s, x) \<Rightarrow> (mg\<lparr>mg_state := s\<rparr>, x))"

definition handleTxValidatorBroadcast :: "crypto \<Rightarrow> NodeID option \<Rightarrow> p2p_message \<Rightarrow> ('d manager, unit) sres" where
  "handleTxValidatorBroadcast cr session m =
     tryS (bindS (liftS (BroadcastDecoder_broadcastValidatorTx cr m)) (\<lambda>t.
           bindS (on_state (State_addValidatorTx cr t)) (\<lambda>ok. if ok then broadcastMessage m else retS ())))
       (drop_session session)"

definition handleTxBroadcast :: "crypto \<Rightarrow> NodeID option \<Rightarrow> p2p_message \<Rightarrow> ('d manager, unit) sres" where
  "handleTxBroadcast cr session m =
     tryS (bindS (liftS (BroadcastDecoder_broadcastTx cr m)) (\<lambda>t.
           bindS (on_state (addTx cr t)) (\<lambda>invalid. if invalid = NotInvalid then broadcastMessage m else retS ())))
       (drop_session session)"

text \<open>
  The body of the \<^verbatim>\<open>try\<close> of \<open>handleBlockBroadcast\<close>: whether the function goes on to rebroadcast. The early return leaves
  the whole function, so the flag it sets before has no effect.
\<close>

definition take_block :: "'d rocks \<Rightarrow> crypto \<Rightarrow> contracts \<Rightarrow> nat \<Rightarrow> p2p_message \<Rightarrow> ('d manager, bool) sres" where
  "take_block R cr K thrNum m =
     bindS (liftS (BroadcastDecoder_broadcastBlock cr thrNum m)) (\<lambda>b mg.
     if blockExists R (Block_hash cr b) (s_storage (mg_state mg)) \<noteq> NotFound
     then (case latest (s_storage (mg_state mg)) of Inl e \<Rightarrow> (mg, Inl e) | Inr _ \<Rightarrow> (mg, Inr False))
     else bindS (liftS (validateNextBlock cr b (mg_state mg))) (\<lambda>valid.
       if valid then bindS (on_state (processNextBlock cr K b)) (\<lambda>_. retS True) else retS False) mg)"

definition handleBlockBroadcast :: "'d rocks \<Rightarrow> crypto \<Rightarrow> contracts \<Rightarrow> nat \<Rightarrow> NodeID option \<Rightarrow> p2p_message \<Rightarrow> ('d manager, unit) sres" where
  "handleBlockBroadcast R cr K thrNum session m mg =
     (case take_block R cr K thrNum m mg of
        (mg', Inl e) \<Rightarrow> if e = UndefinedBehaviour then (mg', Inl e) else drop_session session mg'
      | (mg', Inr rebroadcast) \<Rightarrow> if rebroadcast then broadcastMessage m mg' else (mg', Inr ()))"

definition handleBroadcast :: "'d rocks \<Rightarrow> crypto \<Rightarrow> contracts \<Rightarrow> nat \<Rightarrow> NodeID option \<Rightarrow> p2p_message \<Rightarrow> ('d manager, unit) sres" where
  "handleBroadcast R cr K thrNum session m mg =
     (if mg_closed mg then (mg, Inr ())
      else bindS (liftS (bindR (Message_id m) toUint64)) (\<lambda>i mg.
        if (case mg_broadcasted mg i of None \<Rightarrow> False | Some n \<Rightarrow> n > 0) then (mg, Inr ())
        else bindS (liftS (Message_command m)) (\<lambda>c. case c of
            BroadcastValidatorTx \<Rightarrow> handleTxValidatorBroadcast cr session m
          | BroadcastTx \<Rightarrow> handleTxBroadcast cr session m
          | BroadcastBlock \<Rightarrow> handleBlockBroadcast R cr K thrNum session m
          | _ \<Rightarrow> drop_session session) mg) mg)"

subsection \<open>ManagerNormal: requests, answers and dispatch\<close>

definition handleInfoRequest :: "crypto \<Rightarrow> uint64 \<Rightarrow> uint64 \<Rightarrow> NodeID option \<Rightarrow> p2p_message \<Rightarrow> ('d manager, unit) sres" where
  "handleInfoRequest cr version now session m =
     bindS (liftS (RequestDecoder_info m)) (\<lambda>_.
     bindS (readS (\<lambda>mg. bindR (latest (s_storage (mg_state mg))) (AnswerEncoder_info cr version now m))) (\<lambda>r.
     bindS (liftS r) (answerSession session)))"

definition handleTxValidatorRequest :: "NodeID option \<Rightarrow> p2p_message \<Rightarrow> ('d manager, unit) sres" where
  "handleTxValidatorRequest session m =
     answer_bare RequestDecoder_requestValidatorTxs
       (\<lambda>mg. AnswerEncoder_requestValidatorTxs m (r_validatorMempool (s_rdpos (mg_state mg)))) session m"

definition handleRequest :: "crypto \<Rightarrow> uint64 \<Rightarrow> uint64 \<Rightarrow> NodeID option \<Rightarrow> p2p_message \<Rightarrow> ('d manager, unit) sres" where
  "handleRequest cr version now session m =
     bindS (liftS (Message_command m)) (\<lambda>c. case c of
       Ping \<Rightarrow> handlePingRequest session m
     | Info \<Rightarrow> handleInfoRequest cr version now session m
     | RequestNodes \<Rightarrow> handleRequestNodesRequest session m
     | RequestValidatorTxs \<Rightarrow> handleTxValidatorRequest session m
     | _ \<Rightarrow> drop_session session)"

definition handleAnswer :: "NodeID option \<Rightarrow> p2p_message \<Rightarrow> ('d manager, unit) sres" where
  "handleAnswer session m =
     bindS (liftS (Message_command m)) (\<lambda>c. case c of
       Ping \<Rightarrow> handlePingAnswer session m
     | Info \<Rightarrow> handleInfoAnswer session m
     | RequestNodes \<Rightarrow> handleRequestNodesAnswer session m
     | RequestValidatorTxs \<Rightarrow> handleTxValidatorAnswer session m
     | _ \<Rightarrow> drop_session session)"

lemmas answer_handlers = handlePingAnswer_def handleInfoAnswer_def handleRequestNodesAnswer_def handleTxValidatorAnswer_def

definition handleMessage ::
  "'d rocks \<Rightarrow> crypto \<Rightarrow> contracts \<Rightarrow> nat \<Rightarrow> uint64 \<Rightarrow> uint64 \<Rightarrow> NodeID option \<Rightarrow> p2p_message \<Rightarrow> ('d manager, unit) sres" where
  "handleMessage R cr K thrNum version now session m mg =
     (if mg_closed mg then (mg, Inr ())
      else bindS (liftS (Message_type m)) (\<lambda>t. case t of
        Requesting \<Rightarrow> handleRequest cr version now session m
      | Answering \<Rightarrow> handleAnswer session m
      | Broadcasting \<Rightarrow> handleBroadcast R cr K thrNum session m
      | _ \<Rightarrow> drop_session session) mg)"

definition requestValidatorTxs_send :: "bytes \<Rightarrow> NodeID \<Rightarrow> ('d manager, request option) sres" where
  "requestValidatorTxs_send rnd nodeId = bindS (liftS (RequestEncoder_requestValidatorTxs rnd)) (sendRequestTo nodeId)"

definition requestValidatorTxs_result :: "crypto \<Rightarrow> p2p_message option \<Rightarrow> tx_validator list res" where
  "requestValidatorTxs_result cr = decoded_answer (AnswerDecoder_requestValidatorTxs cr) []"

definition requestNodeInfo_send :: "crypto \<Rightarrow> uint64 \<Rightarrow> uint64 \<Rightarrow> bytes \<Rightarrow> NodeID \<Rightarrow> ('d manager, request option) sres" where
  "requestNodeInfo_send cr version now rnd nodeId =
     bindS (readS (\<lambda>mg. bindR (latest (s_storage (mg_state mg))) (RequestEncoder_info cr version now rnd))) (\<lambda>r.
     bindS (liftS r) (sendRequestTo nodeId))"

definition requestNodeInfo_result :: "p2p_message option \<Rightarrow> NodeInfo res" where
  "requestNodeInfo_result = decoded_answer AnswerDecoder_info
     \<lparr>nodeVersion = 0, currentTimestamp = 0, latestBlockHeight = 0, latestBlockHash = replicate 32 0\<rparr>"

definition broadcastTxValidator :: "tx_validator \<Rightarrow> ('d manager, unit) sres" where
  "broadcastTxValidator t = bindS (liftS (BroadcastEncoder_broadcastValidatorTx t)) broadcastMessage"

definition broadcastTxBlock :: "tx_block \<Rightarrow> ('d manager, unit) sres" where
  "broadcastTxBlock t = bindS (liftS (BroadcastEncoder_broadcastTx t)) broadcastMessage"

definition manager_broadcastBlock :: "block \<Rightarrow> ('d manager, unit) sres" where
  "manager_broadcastBlock b = bindS (liftS (BroadcastEncoder_broadcastBlock b)) broadcastMessage"

section \<open>Lemmas\<close>

subsection \<open>What a handler may write\<close>

lemma make_message_type: "make_message t i c data = Inr m \<Longrightarrow> Message_type m = Inr t"
  by (cases t) (auto simp: make_message_def getRequestTypePrefix_def at_idx_def typePrefixes_def Message_new_def Message_type_def subspan_def
      getRequestType_def bytesToUint_ok_iff uint8ToBytes_eq bytesToUint8_def res_simps split: if_splits)

definition is_broadcast :: "manager_call \<Rightarrow> bool" where
  "is_broadcast c = (case c of WriteTo _ m \<Rightarrow> Message_type m = Inr Broadcasting | _ \<Rightarrow> False)"

text \<open>The operation wrote no broadcast, and at most removed sessions.\<close>

definition quiet :: "'d manager \<Rightarrow> 'd manager \<Rightarrow> bool" where
  "quiet mg mg' \<longleftrightarrow> mg_broadcasted mg' = mg_broadcasted mg \<and> (\<exists>P. mg_sessions mg' = filter P (mg_sessions mg)) \<and>
     (\<exists>cs. mg_calls mg' = mg_calls mg @ cs \<and> (\<forall>c\<in>set cs. \<not> is_broadcast c))"

named_theorems quiet

lemma quiet_refl [quiet]: "quiet mg mg"
  by (auto simp: quiet_def intro: exI [of _ "\<lambda>_. True"])

lemma quiet_trans: "quiet a b \<Longrightarrow> quiet b c \<Longrightarrow> quiet a c"
  unfolding quiet_def by (auto simp: filter_filter)

lemma quiet_bindS:
  assumes "bindS m f mg = (mg', r)" "\<And>mg1 x. m mg = (mg1, x) \<Longrightarrow> quiet mg mg1"
    "\<And>mg1 x. m mg = (mg1, Inr x) \<Longrightarrow> f x mg1 = (mg', r) \<Longrightarrow> quiet mg1 mg'"
  shows "quiet mg mg'"
proof (cases "m mg")
  case (Pair mg1 x)
  then show ?thesis using assms by (cases x) (auto simp: bindS_def intro: quiet_trans)
qed

lemma quiet_liftS:
  assumes "bindS (liftS x) f mg = (mg', r)" "\<And>a. x = Inr a \<Longrightarrow> f a mg = (mg', r) \<Longrightarrow> quiet mg mg'"
  shows "quiet mg mg'"
  using assms by (cases x) (auto simp: bindS_def liftS_def quiet_refl)

lemma quiet_drop_session [quiet]: "drop_session session mg = (mg', r) \<Longrightarrow> quiet mg mg'"
  by (auto simp: drop_session_def disconnectSession_def erase_session_def mg_call_def quiet_def is_broadcast_def split: option.splits if_splits
      intro: exI [of _ "\<lambda>_. True"])

lemma quiet_answerSession:
  assumes "answerSession session m mg = (mg', r)" "Message_type m \<noteq> Inr Broadcasting"
  shows "quiet mg mg'"
  using assms by (auto simp: answerSession_def mg_call_def quiet_def is_broadcast_def split: option.splits if_splits intro: exI [of _ "\<lambda>_. True"])

lemma quiet_handle_answer [quiet]: "handle_answer session m mg = (mg', r) \<Longrightarrow> quiet mg mg'"
  unfolding handle_answer_def
  by (elim quiet_liftS) (auto simp: liftS_def bindS_def quiet_drop_session split: option.splits sum.splits, auto simp: quiet_def intro: exI [of _ "\<lambda>_. True"])

lemma quiet_answer_bare:
  assumes "answer_bare dec enc session m mg = (mg', r)" "\<And>a. enc mg = Inr a \<Longrightarrow> Message_type a \<noteq> Inr Broadcasting"
  shows "quiet mg mg'"
  using assms(1) unfolding answer_bare_def
proof (elim quiet_liftS)
  fix ok assume "(if \<not> ok then drop_session session else bindS (readS enc) (\<lambda>r. bindS (liftS r) (answerSession session))) mg = (mg', r)"
  then show "quiet mg mg'"
    using assms(2) quiet_drop_session [of session mg mg' r]
    by (cases "enc mg") (auto simp: bindS_def readS_def liftS_def quiet_refl split: if_splits intro: quiet_answerSession)
qed

lemma answers_not_broadcast:
  "AnswerEncoder_ping m = Inr a \<Longrightarrow> Message_type a \<noteq> Inr Broadcasting"
  "AnswerEncoder_requestNodes m ns = Inr a \<Longrightarrow> Message_type a \<noteq> Inr Broadcasting"
  "AnswerEncoder_requestValidatorTxs m txs = Inr a \<Longrightarrow> Message_type a \<noteq> Inr Broadcasting"
  "AnswerEncoder_info cr version now m b = Inr a \<Longrightarrow> Message_type a \<noteq> Inr Broadcasting"
  by (auto simp: AnswerEncoder_ping_def AnswerEncoder_requestNodes_def AnswerEncoder_requestValidatorTxs_def AnswerEncoder_info_def res_simps
      dest!: make_message_type)

lemma requests_not_broadcast:
  "RequestEncoder_ping rnd = Inr a \<Longrightarrow> Message_type a \<noteq> Inr Broadcasting"
  "RequestEncoder_requestNodes rnd = Inr a \<Longrightarrow> Message_type a \<noteq> Inr Broadcasting"
  "RequestEncoder_requestValidatorTxs rnd = Inr a \<Longrightarrow> Message_type a \<noteq> Inr Broadcasting"
  "RequestEncoder_info cr version now rnd b = Inr a \<Longrightarrow> Message_type a \<noteq> Inr Broadcasting"
  by (auto simp: RequestEncoder_ping_def RequestEncoder_requestNodes_def RequestEncoder_requestValidatorTxs_def RequestEncoder_info_def
      dest!: make_message_type)

lemma quiet_handleRequest: "handleRequest cr version now session m mg = (mg', r) \<Longrightarrow> quiet mg mg'"
  unfolding handleRequest_def
proof (elim quiet_liftS)
  fix c assume *: "(case c of Ping \<Rightarrow> handlePingRequest session m | Info \<Rightarrow> handleInfoRequest cr version now session m
     | RequestNodes \<Rightarrow> handleRequestNodesRequest session m | RequestValidatorTxs \<Rightarrow> handleTxValidatorRequest session m
     | _ \<Rightarrow> drop_session session) mg = (mg', r)"
  have "handleInfoRequest cr version now session m mg = (mg', r) \<Longrightarrow> quiet mg mg'"
    unfolding handleInfoRequest_def
    by (elim quiet_liftS)
      (cases "bindR (latest (s_storage (mg_state mg))) (AnswerEncoder_info cr version now m)",
        auto simp: bindS_def readS_def liftS_def quiet_refl res_simps intro!: quiet_answerSession dest: answers_not_broadcast)
  then show "quiet mg mg'"
    using * by (cases c) (auto simp: handlePingRequest_def handleRequestNodesRequest_def handleTxValidatorRequest_def
        intro: quiet_drop_session quiet_answer_bare dest: answers_not_broadcast)
qed

lemma quiet_handleAnswer: "handleAnswer session m mg = (mg', r) \<Longrightarrow> quiet mg mg'"
  unfolding handleAnswer_def by (elim quiet_liftS) (auto simp: answer_handlers split: CommandType.splits intro: quiet)

lemma quiet_sendRequestTo:
  assumes "sendRequestTo nodeId m mg = (mg', r)" "Message_type m \<noteq> Inr Broadcasting"
  shows "quiet mg mg'"
  using assms
  by (auto simp: sendRequestTo_def bindS_def liftS_def retS_def Let_def mg_call_def quiet_refl split: if_splits option.splits sum.splits)
    (auto simp: quiet_def is_broadcast_def intro: exI [of _ "\<lambda>_. True"])

lemma quiet_on_state: "on_state f mg = (mg', r) \<Longrightarrow> quiet mg mg'"
  by (auto simp: on_state_def quiet_def split: prod.splits intro: exI [of _ "\<lambda>_. True"])


subsection \<open>Broadcasts are relayed once\<close>

definition broadcast_id :: "p2p_message \<Rightarrow> uint64 res" where
  "broadcast_id m = bindR (Message_id m) toUint64"

definition bc_to :: "NodeID \<Rightarrow> uint64 \<Rightarrow> manager_call \<Rightarrow> bool" where
  "bc_to nodeId i c = (case c of WriteTo n m \<Rightarrow> n = nodeId \<and> Message_type m = Inr Broadcasting \<and> broadcast_id m = Inr i | _ \<Rightarrow> False)"

definition seen :: "uint64 \<Rightarrow> 'd manager \<Rightarrow> bool" where
  "seen i mg = (case mg_broadcasted mg i of None \<Rightarrow> False | Some n \<Rightarrow> n > 0)"

definition bc_inv :: "'d manager \<Rightarrow> bool" where
  "bc_inv mg \<longleftrightarrow> distinct (map fst (mg_sessions mg)) \<and>
     (\<forall>nodeId i. length (filter (bc_to nodeId i) (mg_calls mg)) \<le> (if seen i mg then 1 else 0))"

lemma bc_to_broadcast: "bc_to nodeId i c \<Longrightarrow> is_broadcast c"
  by (simp add: bc_to_def is_broadcast_def split: manager_call.splits)

lemma bc_to_WriteTo: "bc_to nodeId i (WriteTo n m) \<longleftrightarrow> n = nodeId \<and> Message_type m = Inr Broadcasting \<and> broadcast_id m = Inr i"
  by (simp add: bc_to_def)

lemma bc_inv_quiet:
  assumes "bc_inv mg" "quiet mg mg'"
  shows "bc_inv mg'"
proof -
  obtain cs P where cs: "mg_calls mg' = mg_calls mg @ cs" "\<forall>c\<in>set cs. \<not> is_broadcast c"
    and P: "mg_sessions mg' = filter P (mg_sessions mg)" and b: "mg_broadcasted mg' = mg_broadcasted mg"
    using assms(2) by (auto simp: quiet_def)
  have "filter (bc_to nodeId i) cs = []" for nodeId i using cs(2) bc_to_broadcast by (fastforce simp: filter_empty_conv)
  then show ?thesis using assms(1) by (simp add: bc_inv_def cs(1) P b seen_def distinct_map_filter)
qed

lemma filter_bc_relay:
  assumes "distinct (map fst ns)" "broadcast_id m = Inr i"
  shows "length (filter (bc_to nodeId j) (map (\<lambda>p. WriteTo (fst p) m) ns)) \<le> (if j = i then 1 else 0)"
  using assms
proof (induction ns)
  case (Cons p ns)
  have "filter (bc_to nodeId j) (map (\<lambda>p. WriteTo (fst p) m) ns) = []" if "fst p = nodeId"
  proof -
    have "\<not> bc_to nodeId j (WriteTo (fst q) m)" if "q \<in> set ns" for q
    proof -
      have "fst p \<notin> fst ` set ns" using Cons.prems(1) by simp
      then have "fst q \<noteq> nodeId" using imageI [OF that, of fst] \<open>fst p = nodeId\<close> by metis
      then show ?thesis by (simp add: bc_to_def)
    qed
    then show ?thesis by (auto simp: filter_empty_conv)
  qed
  then show ?case using Cons by (cases "fst p = nodeId") (auto simp: bc_to_WriteTo simp del: length_map length_filter_map filter_map)
qed simp

lemma bc_inv_broadcastMessage:
  assumes "bc_inv mg" "broadcastMessage m mg = (mg', r)"
  shows "bc_inv mg'"
proof (cases "\<exists>i. broadcast_id m = Inr i \<and> \<not> seen i mg \<and> \<not> mg_closed mg")
  case False
  then have "mg' = mg"
    using assms(2) by (cases "broadcast_id m") (auto simp: broadcastMessage_def broadcast_id_def bindS_def liftS_def seen_def Let_def split: if_splits option.splits)
  then show ?thesis using assms(1) by simp
next
  case True
  then obtain i where i: "broadcast_id m = Inr i" "\<not> seen i mg" "\<not> mg_closed mg" by blast
  define ns where "ns = filter (\<lambda>p. snd p = NORMAL_NODE) (mg_sessions mg)"
  have mg': "mg' = mg\<lparr>mg_broadcasted := (mg_broadcasted mg)(i \<mapsto> 1), mg_calls := mg_calls mg @ map (\<lambda>p. WriteTo (fst p) m) ns\<rparr>"
    using assms(2) i
    by (auto simp: broadcastMessage_def broadcast_id_def bindS_def liftS_def seen_def Let_def ns_def word_gt_0 split: option.splits)
  have "distinct (map fst ns)" using assms(1) by (simp add: ns_def bc_inv_def distinct_map_filter)
  note relay = filter_bc_relay [OF this i(1)]
  have "length (filter (bc_to nodeId j) (mg_calls mg')) \<le> (if seen j mg' then 1 else 0)" for nodeId j
  proof -
    have "length (filter (bc_to nodeId j) (mg_calls mg)) \<le> (if seen j mg then 1 else 0)"
      using assms(1) unfolding bc_inv_def by blast
    then show ?thesis using relay [of nodeId j] i(2) by (cases "j = i") (auto simp: mg' seen_def)
  qed
  then show ?thesis using assms(1) by (simp add: bc_inv_def mg')
qed

lemma bc_inv_bindS:
  assumes "bc_inv mg" "bindS (liftS x) f mg = (mg', r)" "\<And>a. f a mg = (mg', r) \<Longrightarrow> bc_inv mg'"
  shows "bc_inv mg'"
  using assms by (cases x) (auto simp: bindS_def liftS_def)

text \<open>The common shape of the two transaction handlers.\<close>

lemma bc_inv_take:
  assumes "bc_inv mg" "tryS (bindS (liftS x) (\<lambda>t. bindS (on_state (f t)) (\<lambda>ok. if P ok then broadcastMessage m else retS ()))) (drop_session session) mg = (mg', r)"
  shows "bc_inv mg'"
proof -
  obtain mg1 r1 where 1: "bindS (liftS x) (\<lambda>t. bindS (on_state (f t)) (\<lambda>ok. if P ok then broadcastMessage m else retS ())) mg = (mg1, r1)"
    by (metis surj_pair)
  have "bc_inv mg1"
  proof (rule bc_inv_bindS [OF assms(1) 1])
    fix t assume *: "bindS (on_state (f t)) (\<lambda>ok. if P ok then broadcastMessage m else retS ()) mg = (mg1, r1)"
    obtain mg2 r2 where 2: "on_state (f t) mg = (mg2, r2)" by (metis surj_pair)
    have "bc_inv mg2" using bc_inv_quiet [OF assms(1) quiet_on_state [OF 2]] .
    then show "bc_inv mg1" using * 2 by (cases r2) (auto simp: bindS_def retS_def split: if_splits intro: bc_inv_broadcastMessage)
  qed
  then show ?thesis
    using assms(2) 1 by (auto simp: tryS_def split: sum.splits if_splits intro: bc_inv_quiet quiet_drop_session)
qed

lemma bc_inv_take_block:
  assumes "bc_inv mg" "take_block R cr K thrNum m mg = (mg', r)"
  shows "bc_inv mg'"
proof (rule bc_inv_bindS [OF assms(1) assms(2) [unfolded take_block_def]])
  fix b
  assume *: "(if blockExists R (Block_hash cr b) (s_storage (mg_state mg)) \<noteq> NotFound
     then (case latest (s_storage (mg_state mg)) of Inl e \<Rightarrow> (mg, Inl e) | Inr _ \<Rightarrow> (mg, Inr False))
     else bindS (liftS (validateNextBlock cr b (mg_state mg))) (\<lambda>valid.
       if valid then bindS (on_state (processNextBlock cr K b)) (\<lambda>_. retS True) else retS False) mg) = (mg', r)"
  obtain mg1 r1 where 1: "on_state (processNextBlock cr K b) mg = (mg1, r1)" by (metis surj_pair)
  have "bc_inv mg1" using bc_inv_quiet [OF assms(1) quiet_on_state [OF 1]] .
  then show "bc_inv mg'" using * 1 assms(1) by (auto simp: bindS_def liftS_def retS_def split: if_splits sum.splits)
qed

lemma bc_inv_handleBlockBroadcast:
  assumes "bc_inv mg" "handleBlockBroadcast R cr K thrNum session m mg = (mg', r)"
  shows "bc_inv mg'"
proof -
  obtain mg1 r1 where 1: "take_block R cr K thrNum m mg = (mg1, r1)" by (metis surj_pair)
  have inv: "bc_inv mg1" using bc_inv_take_block [OF assms(1) 1] .
  show ?thesis
  proof (cases r1)
    case (Inl e)
    then show ?thesis using assms(2) 1 inv by (cases "e = UndefinedBehaviour") (auto simp: handleBlockBroadcast_def intro: bc_inv_quiet quiet_drop_session)
  next
    case (Inr b)
    then show ?thesis using assms(2) 1 inv by (cases b) (auto simp: handleBlockBroadcast_def intro: bc_inv_broadcastMessage)
  qed
qed

lemma bc_inv_handleBroadcast:
  assumes "bc_inv mg" "handleBroadcast R cr K thrNum session m mg = (mg', r)"
  shows "bc_inv mg'"
proof (cases "mg_closed mg")
  case True
  then show ?thesis using assms by (simp add: handleBroadcast_def)
next
  case False
  show ?thesis
  proof (rule bc_inv_bindS [OF assms(1) assms(2) [unfolded handleBroadcast_def if_not_P [OF False]]])
    fix i
    assume *: "(if (case mg_broadcasted mg i of None \<Rightarrow> False | Some n \<Rightarrow> n > 0) then (mg, Inr ())
        else bindS (liftS (Message_command m)) (\<lambda>c. case c of
            BroadcastValidatorTx \<Rightarrow> handleTxValidatorBroadcast cr session m
          | BroadcastTx \<Rightarrow> handleTxBroadcast cr session m
          | BroadcastBlock \<Rightarrow> handleBlockBroadcast R cr K thrNum session m
          | _ \<Rightarrow> drop_session session) mg) = (mg', r)"
    show "bc_inv mg'"
    proof (cases "seen i mg")
      case True
      then show ?thesis using * assms(1) by (simp add: seen_def)
    next
      case False
      then have "bindS (liftS (Message_command m)) (\<lambda>c. case c of
            BroadcastValidatorTx \<Rightarrow> handleTxValidatorBroadcast cr session m
          | BroadcastTx \<Rightarrow> handleTxBroadcast cr session m
          | BroadcastBlock \<Rightarrow> handleBlockBroadcast R cr K thrNum session m
          | _ \<Rightarrow> drop_session session) mg = (mg', r)" using * by (simp add: seen_def)
      then show ?thesis
      proof (rule bc_inv_bindS [OF assms(1)])
        fix c
        assume "(case c of BroadcastValidatorTx \<Rightarrow> handleTxValidatorBroadcast cr session m | BroadcastTx \<Rightarrow> handleTxBroadcast cr session m
          | BroadcastBlock \<Rightarrow> handleBlockBroadcast R cr K thrNum session m | _ \<Rightarrow> drop_session session) mg = (mg', r)"
        then show "bc_inv mg'"
          using assms(1) by (cases c) (auto simp: handleTxValidatorBroadcast_def handleTxBroadcast_def
              intro: bc_inv_quiet quiet_drop_session bc_inv_handleBlockBroadcast bc_inv_take)
      qed
    qed
  qed
qed


text \<open>The runs of a node: messages from the network and what the rest of the node asks of its manager.\<close>

inductive manager_run :: "'d rocks \<Rightarrow> crypto \<Rightarrow> contracts \<Rightarrow> 'd manager \<Rightarrow> bool" for R cr K where
  init: "mg_sessions mg = [] \<Longrightarrow> mg_calls mg = [] \<Longrightarrow> manager_run R cr K mg"
| message: "manager_run R cr K mg \<Longrightarrow> handleMessage R cr K thrNum version now session m mg = (mg', r) \<Longrightarrow> manager_run R cr K mg'"
| register: "manager_run R cr K mg \<Longrightarrow> manager_run R cr K (fst (registerSession nodeId nodeType mg))"
| unregister: "manager_run R cr K mg \<Longrightarrow> manager_run R cr K (fst (unregisterSession nodeId mg))"
| disconnect: "manager_run R cr K mg \<Longrightarrow> manager_run R cr K (fst (disconnectSession nodeId mg))"
| connect: "manager_run R cr K mg \<Longrightarrow> manager_run R cr K (connectToServer self nodeId mg)"
| start: "manager_run R cr K mg \<Longrightarrow> manager_run R cr K (manager_start mg)"
| stop: "manager_run R cr K mg \<Longrightarrow> manager_run R cr K (manager_stop mg)"
| ping: "manager_run R cr K mg \<Longrightarrow> ping_send rnd nodeId mg = (mg', r) \<Longrightarrow> manager_run R cr K mg'"
| requestNodes: "manager_run R cr K mg \<Longrightarrow> requestNodes_send rnd nodeId mg = (mg', rq) \<Longrightarrow> manager_run R cr K mg'"
| requestValidatorTxs: "manager_run R cr K mg \<Longrightarrow> requestValidatorTxs_send rnd nodeId mg = (mg', rq) \<Longrightarrow> manager_run R cr K mg'"
| requestNodeInfo: "manager_run R cr K mg \<Longrightarrow> requestNodeInfo_send cr version now rnd nodeId mg = (mg', rq) \<Longrightarrow> manager_run R cr K mg'"
| broadcastTxValidator: "manager_run R cr K mg \<Longrightarrow> broadcastTxValidator v mg = (mg', r) \<Longrightarrow> manager_run R cr K mg'"
| broadcastTxBlock: "manager_run R cr K mg \<Longrightarrow> broadcastTxBlock t mg = (mg', r) \<Longrightarrow> manager_run R cr K mg'"
| broadcastBlock: "manager_run R cr K mg \<Longrightarrow> manager_broadcastBlock b mg = (mg', r) \<Longrightarrow> manager_run R cr K mg'"
| state: "manager_run R cr K mg \<Longrightarrow> on_state f mg = (mg', x :: unit res) \<Longrightarrow> manager_run R cr K mg'"

lemma bc_inv_handleMessage:
  assumes "bc_inv mg" "handleMessage R cr K thrNum version now session m mg = (mg', r)"
  shows "bc_inv mg'"
proof (cases "mg_closed mg")
  case True
  then show ?thesis using assms by (simp add: handleMessage_def)
next
  case False
  show ?thesis
  proof (rule bc_inv_bindS [OF assms(1) assms(2) [unfolded handleMessage_def if_not_P [OF False]]])
    fix t
    assume "(case t of Requesting \<Rightarrow> handleRequest cr version now session m | Answering \<Rightarrow> handleAnswer session m
      | Broadcasting \<Rightarrow> handleBroadcast R cr K thrNum session m | _ \<Rightarrow> drop_session session) mg = (mg', r)"
    then show "bc_inv mg'"
      using assms(1) by (cases t) (auto intro: bc_inv_quiet quiet_handleRequest quiet_handleAnswer quiet_drop_session bc_inv_handleBroadcast)
  qed
qed

lemma bc_inv_sessions:
  assumes "bc_inv mg"
  shows "bc_inv (fst (registerSession nodeId nodeType mg))" "bc_inv (fst (unregisterSession nodeId mg))"
    "bc_inv (fst (disconnectSession nodeId mg))" "bc_inv (manager_start mg)" "bc_inv (manager_stop mg)" "bc_inv (connectToServer self nodeId mg)"
proof -
  show "bc_inv (fst (registerSession nodeId nodeType mg))"
    using assms by (auto simp: registerSession_def bc_inv_def has_session_def seen_def)
  have "quiet mg (fst (unregisterSession nodeId mg))"
    by (auto simp: unregisterSession_def erase_session_def quiet_def intro: exI [of _ "\<lambda>_. True"])
  then show "bc_inv (fst (unregisterSession nodeId mg))" by (rule bc_inv_quiet [OF assms])
  have "quiet mg (fst (disconnectSession nodeId mg))" using quiet_drop_session [of "Some nodeId" mg] by (simp add: drop_session_def)
  then show "bc_inv (fst (disconnectSession nodeId mg))" by (rule bc_inv_quiet [OF assms])
  have "quiet mg (connectToServer self nodeId mg)"
    by (auto simp: connectToServer_def mg_call_def quiet_def is_broadcast_def intro: exI [of _ "\<lambda>_. True"])
  then show "bc_inv (connectToServer self nodeId mg)" by (rule bc_inv_quiet [OF assms])
  show "bc_inv (manager_start mg)" using assms by (simp add: manager_start_def bc_inv_def seen_def)
  have "filter (bc_to nodeId i) (map (CloseSession \<circ> fst) (mg_sessions mg)) = []" for nodeId i by (auto simp: filter_empty_conv bc_to_def)
  then show "bc_inv (manager_stop mg)" using assms by (simp add: manager_stop_def bc_inv_def seen_def)
qed

lemma bc_inv_send:
  assumes "bc_inv mg" "bindS (liftS x) (sendRequestTo nodeId) mg = (mg', r)" "\<And>a. x = Inr a \<Longrightarrow> Message_type a \<noteq> Inr Broadcasting"
  shows "bc_inv mg'"
  using assms by (cases x) (auto simp: bindS_def liftS_def intro: bc_inv_quiet quiet_sendRequestTo)

lemma manager_run_inv: "manager_run R cr K mg \<Longrightarrow> bc_inv mg"
proof (induction rule: manager_run.induct)
  case (ping mg rnd nodeId mg' r)
  obtain a where a: "RequestEncoder_ping rnd = Inr a \<or> mg' = mg" using ping(2) by (cases "RequestEncoder_ping rnd") (auto simp: ping_send_def bindS_def liftS_def)
  obtain mg1 r1 where 1: "sendRequestTo nodeId a mg = (mg1, r1)" by (metis surj_pair)
  have "mg' = mg1 \<or> mg' = mg"
    using ping(2) a 1 by (auto simp: ping_send_def bindS_def liftS_def throwS_def retS_def split: sum.splits option.splits)
  then show ?case using a quiet_sendRequestTo [OF 1] requests_not_broadcast(1) bc_inv_quiet [OF ping(3)] ping(3) by blast
next
  case (requestNodeInfo mg version now rnd nodeId mg' rq)
  have eq: "bindS (readS g) (\<lambda>r. bindS (liftS r) f) mg = bindS (liftS (g mg)) f mg" for g and f :: "p2p_message \<Rightarrow> ('a manager, request option) sres"
    by (simp add: bindS_def readS_def)
  show ?case
    by (rule bc_inv_send [OF requestNodeInfo(3) requestNodeInfo(2) [unfolded requestNodeInfo_send_def eq]])
      (auto simp: res_simps dest: requests_not_broadcast)
next
  case (requestNodes mg rnd nodeId mg' rq)
  show ?case by (rule bc_inv_send [OF requestNodes(3) requestNodes(2) [unfolded requestNodes_send_def] requests_not_broadcast(2)])
next
  case (requestValidatorTxs mg rnd nodeId mg' rq)
  show ?case by (rule bc_inv_send [OF requestValidatorTxs(3) requestValidatorTxs(2) [unfolded requestValidatorTxs_send_def] requests_not_broadcast(3)])
next
  case (broadcastTxValidator mg v mg' r)
  show ?case by (rule bc_inv_bindS [OF broadcastTxValidator(3) broadcastTxValidator(2) [unfolded broadcastTxValidator_def] bc_inv_broadcastMessage [OF broadcastTxValidator(3)]])
next
  case (broadcastTxBlock mg t mg' r)
  show ?case by (rule bc_inv_bindS [OF broadcastTxBlock(3) broadcastTxBlock(2) [unfolded broadcastTxBlock_def] bc_inv_broadcastMessage [OF broadcastTxBlock(3)]])
next
  case (broadcastBlock mg b mg' r)
  show ?case by (rule bc_inv_bindS [OF broadcastBlock(3) broadcastBlock(2) [unfolded manager_broadcastBlock_def] bc_inv_broadcastMessage [OF broadcastBlock(3)]])
next
  case (state mg f mg' x)
  show ?case by (rule bc_inv_quiet [OF state(3) quiet_on_state [OF state(2)]])
next
  case (message mg thrNum version now session m mg' r)
  show ?case by (rule bc_inv_handleMessage [OF message(3,2)])
next
  case (init mg)
  then show ?case by (simp add: bc_inv_def)
qed (simp_all only: bc_inv_sessions)


subsection \<open>A block travels\<close>

lemma append_block_ok:
  assumes "append_block cr K b s = (s', Inr ())"
  shows "validateNextBlock cr b s = Inr True" "processNextBlock cr K b s = (s', Inr ())"
  using assms by (auto simp: append_block_def res_simps bindS_def readS_def liftS_def throwS_def retS_def Let_def split: prod.splits sum.splits if_splits)

lemma processNextBlock_appends:
  assumes "processNextBlock cr K b s = (s', Inr ())"
  shows "last (st_chain (s_storage s')) = b"
proof -
  obtain s1 where "on_storage (pushBackInternal cr b) s1 = (s', Inr ())"
    using assms by (auto simp: processNextBlock_def res_simps bindS_def readS_def liftS_def throwS_def split: prod.splits sum.splits if_splits)
  then show ?thesis by (auto simp: on_storage_def pushBackInternal_def index_block_chain split: prod.splits if_splits)
qed

lemma finalize_signs: "finalize cr key ts b0 = (b, Inr True) \<Longrightarrow> sign cr (Block_hash cr b) key = Inr (b_validatorSig b)"
  by (auto simp: finalize_def Let_def Block_hash_def serializeHeader_def split: if_splits sum.splits)

lemma doValidatorBlock_ok:
  assumes "doValidatorBlock cr K key now s = Some (s', Inr ())"
  obtains b0 b where "finalize cr key now b0 = (b, Inr True)" "b_prevBlockHash b0 = Block_hash cr (last (st_chain (s_storage s)))"
    "append_block cr K b s = (s', Inr ())" "b_txs b0 = b_txs b" "b_txValidators b0 = b_txValidators b" "b_nHeight b0 = b_nHeight b"
    "b_txs b = map snd (s_mempool s)" "set (b_txValidators b) \<subseteq> snd ` set (r_validatorMempool (s_rdpos s))"
    "b_nHeight b = b_nHeight (last (st_chain (s_storage s))) + 1" "sign cr (Block_hash cr b) key = Inr (b_validatorSig b)"
proof -
  let ?rl = "r_randomList (s_rdpos s)" and ?m = "r_validatorMempool (s_rdpos s)"
  obtain hs ss b where b: "build_block cr key now hs ss s = Inr b" "append_block cr K b s = (s', Inr ())"
    and coll: "collect_txs ?rl [0xcf, 0xff, 0xe7, 0x46] ?m 1 [] = Some (Inr hs)" "collect_txs ?rl [0x6f, 0xc5, 0xa2, 0xd6] ?m 1 [] = Some (Inr ss)"
    using assms by (auto simp: doValidatorBlock_def functor_literals Let_def split: if_splits sum.splits option.splits prod.splits)
  have mem: "set (hs @ ss) \<subseteq> snd ` set ?m" using collect_txs_mem [OF coll(1)] collect_txs_mem [OF coll(2)] by simp
  obtain l where l: "latest (s_storage s) = Inr l" using b(1) by (auto simp: build_block_def res_simps)
  define b0 where "b0 = fillBlockWithTransactions (foldl (\<lambda>b t. fst (appendTxValidator t b)) (foldl (\<lambda>b t. fst (appendTxValidator t b))
      (Block_new (Block_hash cr l) (b_timestamp l) (b_nHeight l + 1)) hs) ss) s"
  obtain r where r: "finalize cr key now b0 = (b, Inr r)"
    using b(1) l by (auto simp: build_block_def signBlock_def b0_def Let_def split: prod.splits sum.splits)
  have "b_finalized b"
    using append_block_ok(1) [OF b(2)] by (auto simp: validateNextBlock_def validateBlock_def res_simps split: if_splits)
  moreover have "b_prevBlockHash b0 = Block_hash cr l" "\<not> b_finalized b0" "b_txs b0 = map snd (s_mempool s)" "b_txValidators b0 = hs @ ss"
    "b_nHeight b0 = b_nHeight l + 1"
    by (simp_all add: b0_def append_validators fill_block Block_new_def)
  moreover have "l = last (st_chain (s_storage s))" using l by (simp add: latest_def split: if_splits)
  moreover have "b_txs b0 = b_txs b" "b_txValidators b0 = b_txValidators b" "b_nHeight b0 = b_nHeight b"
    using r by (auto simp: finalize_def Let_def split: if_splits sum.splits)
  moreover have t: "r = True" using r \<open>b_finalized b\<close> \<open>\<not> b_finalized b0\<close> by (auto elim: finalize_cases)
  moreover have "sign cr (Block_hash cr b) key = Inr (b_validatorSig b)" using r unfolding t by (rule finalize_signs)
  ultimately show thesis using that [of b0 b] r b(2) mem by simp
qed

lemma take_fresh_block:
  assumes "BroadcastDecoder_broadcastBlock cr thrNum m = Inr b" "blockExists R (Block_hash cr b) (s_storage (mg_state mg)) = NotFound"
    "append_block cr K b (mg_state mg) = (s', Inr ())"
  shows "take_block R cr K thrNum m mg = (mg\<lparr>mg_state := s'\<rparr>, Inr True)"
  using assms append_block_ok [OF assms(3)] by (simp add: take_block_def bindS_def liftS_def retS_def on_state_def)

text \<open>A block that the node has already is not relayed, whatever its height: the early return leaves the function.\<close>

lemma known_block_not_relayed:
  assumes "BroadcastDecoder_broadcastBlock cr thrNum m = Inr b" "blockExists R (Block_hash cr b) (s_storage (mg_state mg)) \<noteq> NotFound"
    "latest (s_storage (mg_state mg)) = Inr l"
  shows "handleBlockBroadcast R cr K thrNum session m mg = (mg, Inr ())"
  using assms by (simp add: handleBlockBroadcast_def take_block_def bindS_def liftS_def)

text \<open>Exceptions that escape from the handlers: an \<open>Info\<close> request of the wrong size, and a second answer to a request.\<close>

lemma short_info_escapes:
  assumes "\<not> mg_closed mg" "Message_type m = Inr Requesting" "Message_command m = Inr Info" "length m \<noteq> 67"
  shows "handleMessage R cr K thrNum version now session m mg = (mg, Inl (RuntimeError ''Invalid Info message size.''))"
  using assms by (simp add: handleMessage_def handleRequest_def handleInfoRequest_def RequestDecoder_info_def bindS_def liftS_def)

lemma second_answer_escapes:
  assumes "\<not> mg_closed mg" "Message_type m = Inr Answering" "Message_command m = Inr Ping" "Message_id m = Inr i"
    "mg_requests mg i = Some rq" "rq_answer rq \<noteq> None"
  shows "\<exists>e. handleMessage R cr K thrNum version now session m mg = (mg, Inl e)"
  using assms by (simp add: handleMessage_def handleAnswer_def answer_handlers handle_answer_def setAnswer_def bindS_def liftS_def)

section \<open>Properties\<close>


text \<open>
  C7. A broadcast is relayed once: whatever messages arrive, in any order and from any nodes, and whatever the node itself
  broadcasts, no node is sent two broadcasts with the same identifier.
\<close>

theorem broadcast_once:
  assumes "manager_run R cr K mg"
  shows "length (filter (\<lambda>c. \<exists>m. c = WriteTo nodeId m \<and> Message_type m = Inr Broadcasting \<and> bindR (Message_id m) toUint64 = Inr i) (mg_calls mg)) \<le> 1"
proof -
  have "(\<exists>m. c = WriteTo nodeId m \<and> Message_type m = Inr Broadcasting \<and> bindR (Message_id m) toUint64 = Inr i) \<longleftrightarrow> bc_to nodeId i c" for c
    by (auto simp: bc_to_def broadcast_id_def split: manager_call.splits)
  moreover have "length (filter (bc_to nodeId i) (mg_calls mg)) \<le> (if seen i mg then 1 else 0)"
    using manager_run_inv [OF assms] unfolding bc_inv_def by blast
  ultimately show ?thesis by (simp split: if_splits)
qed


subsection \<open>A concrete network\<close>

lemma demo_live_unsigned: "TxValidator_hash demo_live_crypto False ((demo_live_tx [a, b, c, d] i)\<lparr>tv_from := x\<rparr>) = replicate 32 i"
proof -
  let ?t = "(demo_live_tx [a, b, c, d] i)\<lparr>tv_from := x\<rparr>"
  have "TxValidator_total_size False ?t = 41"
    by (simp add: TxValidator_total_size_def demo_live_tx_def demo_round_tx_def data_size_def uint_size_def)
  moreover have "tv_data ?t = [a, b, c, d] @ replicate 32 i" by (simp add: demo_live_tx_def demo_round_tx_def)
  ultimately show ?thesis
    by (simp add: TxValidator_hash_def demo_live_crypto_def demo_round_crypto_def TxValidator_rlpSerialize_def put_list_header_def put_data_def)
qed

lemma demo_live_address: "toAddress demo_live_crypto (4 # replicate 64 k) = replicate 20 k"
  by (simp add: toAddress_def demo_live_crypto_def demo_round_crypto_def)

lemma demo_live_tx_wire: "TxValidator_parse demo_live_crypto (TxValidator_rlpSerialize True (demo_live_tx [a, b, c, d] i)) = Inr (demo_live_tx [a, b, c, d] i)"
  "length (TxValidator_rlpSerialize True (demo_live_tx [a, b, c, d] i)) = 107"
proof -
  let ?t = "demo_live_tx [a, b, c, d] i"
  have f: "tv_data ?t = [a, b, c, d] @ replicate 32 i" "tv_v ?t = 37" "tv_chainId ?t = 1" "tv_r ?t = 2 ^ 248" "tv_s ?t = 2 ^ 248"
    "tv_from ?t = replicate 20 i" by (simp_all add: demo_live_tx_def demo_round_tx_def)
  have id: "TxValidator_recoveryId 37 1 = Inr 0" "TxValidator_chainId 37 = Inr 1" using TxValidator_v [of 0 1] by simp_all
  have key: "recover demo_live_crypto (makeSig (2 ^ 248) (2 ^ 248) 0) (TxValidator_hash demo_live_crypto False (?t\<lparr>tv_from := x\<rparr>)) = 4 # replicate 64 i" for x
    using demo_live_recover [of 0 "2 ^ 248" "2 ^ 248" "replicate 32 i"] by (simp add: demo_live_unsigned)
  have "hd (replicate 65 0 :: byte list) \<noteq> hd (4 # replicate 64 i)" by simp
  then have "4 # replicate 64 i \<noteq> (replicate 65 0 :: byte list)" by metis
  then have "TxValidator_verify demo_live_crypto (?t\<lparr>tv_from := replicate 20 0\<rparr>) = Inr (?t\<lparr>tv_from := replicate 20 i\<rparr>)"
    using key [of "replicate 20 0"]
    by (simp add: TxValidator_verify_def f id verifySig_def ecConst_def Let_def no_UPubKey_def demo_live_address)
  moreover have "?t\<lparr>tv_from := replicate 20 i\<rparr> = ?t" by (simp add: f(6) [symmetric])
  ultimately show "TxValidator_parse demo_live_crypto (TxValidator_rlpSerialize True ?t) = Inr ?t"
    using TxValidator_parse_put [of ?t demo_live_crypto] by (simp add: f id demo_live_size)
  have "bytesRequired (105 :: uint64) = 1" by (simp add: bytesRequired_step)
  then show "length (TxValidator_rlpSerialize True ?t) = 107"
    using demo_live_size [of a b c d i] by (simp add: TxValidator_rlpSerialize_def f put_list_header_def) (simp add: TxValidator_total_size_def f)
qed


lemma TxBlock_parse_signed:
  assumes t: "tx_wire t" "length (t_data t) < 2 ^ 32" "length (t_data t) \<noteq> 55" "55 < TxBlock_total_size True t"
    and sig: "verifySig (t_r t) (t_s t) (t_v t)" "recover cr (makeSig (t_r t) (t_s t) (t_v t)) (TxBlock_hash cr False t) = key"
      "list_ex (\<lambda>b. b \<noteq> 0) key" "t_from t = toAddress cr key"
  shows "TxBlock_parse cr (TxBlock_rlpSerialize True t) = Inr t"
proof -
  have more: "length (t_data t) < 2 ^ 64" "t_v t \<le> 1" using t(2) sig(1) by (simp_all add: verifySig_def)
  obtain d j where at: "at_pos d j (put_data (t_data t) @ [192] @ TxBlock_sig t)"
    and parse: "TxBlock_parse cr (TxBlock_rlpSerialize True t) = bindR (TxBlock_tail d j) (\<lambda>(data, v, r, s).
       TxBlock_verify cr (t\<lparr>t_from := replicate 20 0, t_data := data, t_v := v, t_r := r, t_s := s\<rparr>))"
    using TxBlock_parse_start [OF t(1,2,4)] by blast
  have "t\<lparr>t_from := toAddress cr key\<rparr> = t" by (rule tx_block.equality) (simp_all add: sig(4))
  then have "TxBlock_verify cr (t\<lparr>t_from := replicate 20 0\<rparr>) = Inr t"
    using sig(1-3) by (simp add: TxBlock_verify_def Let_def TxBlock_hash_def TxBlock_payload_frame)
  then show ?thesis using TxBlock_tail_put [OF t(3) more at] parse by simp
qed

lemma demo_live_pay_wire: "TxBlock_parse demo_live_crypto (TxBlock_rlpSerialize True demo_live_pay) = Inr demo_live_pay"
  "length (TxBlock_rlpSerialize True demo_live_pay) < 1000"
proof -
  have f: "t_r demo_live_pay = 2 ^ 250" "t_s demo_live_pay = 2 ^ 248" "t_v demo_live_pay = 0" "t_data demo_live_pay = []" "t_from demo_live_pay = replicate 20 9"
    by (simp_all add: demo_live_pay_def demo_pay_def)
  have wire: "tx_wire demo_live_pay" by (simp add: tx_wire_def demo_live_pay_def demo_pay_def)
  have "55 < TxBlock_total_size True demo_live_pay" by (simp add: TxBlock_total_size_def demo_live_pay_def demo_pay_def bytesRequired_step)
  then show "TxBlock_parse demo_live_crypto (TxBlock_rlpSerialize True demo_live_pay) = Inr demo_live_pay"
    using demo_live_recover [of 0 "2 ^ 250" "2 ^ 248" "TxBlock_hash demo_live_crypto False demo_live_pay"] wire
    by (intro TxBlock_parse_signed [where key = "4 # replicate 64 9"]) (simp_all add: f verifySig_def ecConst_def demo_live_address)
  have "TxBlock_total_size True demo_live_pay \<le> 330" using TxBlock_total_size_le [of True demo_live_pay] by (simp add: f)
  moreover have "length (put_list_header n) \<le> 10" for n
    using bytesRequired_64 [of "of_nat n"] by (simp add: put_list_header_def)
  ultimately show "length (TxBlock_rlpSerialize True demo_live_pay) < 1000"
    using TxBlock_body_size(1) [OF wire] unfolding TxBlock_serialized by (simp add: f add_le_mono [THEN le_less_trans, of _ 10 _ 330])
qed


definition demo_empty_db :: "unit rocks" where
  "demo_empty_db = \<lparr>rk_seek = (\<lambda>_ _. []), rk_put = (\<lambda>d _ _. d), rk_delete = (\<lambda>d _. d)\<rparr>"

definition demo_peer :: "unit manager" where
  "demo_peer = \<lparr>mg_closed = False, mg_sessions = [((V4 [127, 0, 0, 1], 8080), NORMAL_NODE), ((V4 [127, 0, 0, 2], 8080), DISCOVERY_NODE)],
     mg_requests = Map.empty, mg_calls = [], mg_broadcasted = Map.empty, mg_state = demo_live_state\<rparr>"

lemma demo_live_block_wire:
  assumes "doValidatorBlock demo_live_crypto demo_contracts [] 9 demo_live_state = Some (s', Inr ())" "b = last (st_chain (s_storage s'))"
  shows "txs_wire demo_live_crypto b" "217 + length (txs_bytes b) < 2 ^ 64" "b_validatorSig b = makeSig 5 1 1"
proof -
  obtain b1 where app: "append_block demo_live_crypto demo_contracts b1 demo_live_state = (s', Inr ())"
    and txs: "b_txs b1 = map snd (s_mempool demo_live_state)" "set (b_txValidators b1) \<subseteq> snd ` set (r_validatorMempool (s_rdpos demo_live_state))"
      "b_nHeight b1 = b_nHeight (last (st_chain (s_storage demo_live_state))) + 1"
    and sig: "sign demo_live_crypto (Block_hash demo_live_crypto b1) [] = Inr (b_validatorSig b1)"
    using doValidatorBlock_ok [OF assms(1)] by metis
  have b: "b1 = b" using processNextBlock_appends [OF append_block_ok(2) [OF app]] assms(2) by simp
  have one: "b_txs b = [demo_live_pay]" "b_nHeight b = 7"
    using txs(1,3) by (simp_all add: b demo_live_ready(12)) (simp_all add: demo_live_fields demo_prev_def Block_new_def)
  have "\<exists>a b c d i. t = demo_live_tx [a, b, c, d] i" if "t \<in> set (b_txValidators b)" for t
    using that txs(2) by (force simp: b demo_live_fields demo_live_rdpos_def demo_live_pool_def)
  moreover have "tv_nHeight (demo_live_tx f i) = 7" for f i by (simp add: demo_live_tx_def demo_round_tx_def)
  ultimately have "length (TxValidator_rlpSerialize True t) < 2 ^ 32 \<and> tv_nHeight t = b_nHeight b \<and>
      TxValidator_parse demo_live_crypto (TxValidator_rlpSerialize True t) = Inr t" if "t \<in> set (b_txValidators b)" for t
    using that demo_live_tx_wire one(2) by fastforce
  then show "txs_wire demo_live_crypto b" using demo_live_pay_wire by (simp add: txs_wire_def one)
  show "217 + length (txs_bytes b) < 2 ^ 64" using demo_live_pay_wire(2) by (simp add: txs_bytes_def one length_put_sized)
  have "sign demo_live_crypto h [] = Inr (makeSig 5 1 1)" for h
    by (simp add: sign_def demo_live_crypto_def demo_round_crypto_def demo_crypto_def subspan_def c256.enc_length c256.dec_enc ecConst_def checked_sub_def)
  then show "b_validatorSig b = makeSig 5 1 1" using sig by (simp add: b)
qed


theorem broadcast_once_witness:
  "\<forall>i. length (filter (\<lambda>c. \<exists>m. c = WriteTo (V4 [127, 0, 0, 1], 8080) m \<and> Message_type m = Inr Broadcasting \<and> bindR (Message_id m) toUint64 = Inr i)
     (mg_calls (fst (broadcastTxBlock demo_live_pay (fst (broadcastTxBlock demo_live_pay
        (fst (registerSession (V4 [127, 0, 0, 1], 8080) NORMAL_NODE (demo_peer\<lparr>mg_sessions := []\<rparr>))))))))) \<le> 1"
proof -
  let ?run = "manager_run demo_empty_db demo_live_crypto demo_contracts"
  have step: "?run mg \<Longrightarrow> ?run (fst (broadcastTxBlock demo_live_pay mg))" for mg
    using manager_run.broadcastTxBlock [of _ _ _ mg demo_live_pay] by (metis prod.collapse)
  have "?run (demo_peer\<lparr>mg_sessions := []\<rparr>)" by (rule manager_run.init) (simp_all add: demo_peer_def)
  then have "?run (fst (broadcastTxBlock demo_live_pay (fst (broadcastTxBlock demo_live_pay
      (fst (registerSession (V4 [127, 0, 0, 1], 8080) NORMAL_NODE (demo_peer\<lparr>mg_sessions := []\<rparr>)))))))"
    by (intro step manager_run.register)
  then show ?thesis by (intro allI) (rule broadcast_once)
qed

end
