(* ===== verification/Spec2Isabelle.thy ===== *)
theory Spec2Isabelle
  imports Utils SafeArray Wrappers DexPair Factory Router StateDisk P2PManager
begin

text \<open>
  \<^bold>\<open>Verification of the OrbiterSDK node\<close> (the C++ sources under \<^verbatim>\<open>src/src\<close>).

  The program is a blockchain node. Nodes exchange messages over sessions (\<^verbatim>\<open>net/p2p\<close>). A manager hands broadcast
  transactions and blocks to the \<^verbatim>\<open>State\<close> (\<^verbatim>\<open>core/state.cpp\<close>), which owns accounts and the pool, asks \<^verbatim>\<open>rdPoS\<close>
  (\<^verbatim>\<open>core/rdpos.cpp\<close>) for the validators of a block, runs contracts through the \<^verbatim>\<open>ContractManager\<close>
  (\<^verbatim>\<open>contract/contractmanager.cpp\<close>) and appends blocks to the \<^verbatim>\<open>Storage\<close> (\<^verbatim>\<open>core/storage.cpp\<close>), which saves them through
  \<^verbatim>\<open>DB\<close> (\<^verbatim>\<open>utils/db.cpp\<close>). A validator produces blocks in the \<^verbatim>\<open>Syncer\<close> (\<^verbatim>\<open>core/blockchain.cpp\<close>). Contracts keep their
  state in safe variables (\<^verbatim>\<open>contract/variables\<close>), whose changes are committed or reverted at the end of a call.

  \<^bold>\<open>How the code is modelled.\<close> A class is a record, an enumeration a datatype, and an operation one definition with
  the name of the source, prefixed where names clash. Integers are words of their width; the checked integers of Boost
  throw where the result does not fit. Byte strings are lists of 8-bit words. A function that throws returns
  \<open>error + 'a\<close> (\<open>'a res\<close>), one that also changes state \<open>'s \<Rightarrow> 's \<times> 'a res\<close> (\<open>('s, 'a) sres\<close>), so that the state an
  exception leaves behind is part of the result. Reading outside a buffer, through a null pointer or from an
  uninitialized variable is the error \<open>UndefinedBehaviour\<close>, which no handler catches. A loop of the source that may run
  forever is a \<^theory_text>\<open>partial_function (option)\<close>, with \<open>None\<close> for not returning; all other functions are total, with a
  measure where the recursion is not structural, and no fuel is used. Locks and thread pools are not modelled: an operation
  under a lock is one step, and an execution of a node is a sequence of steps.

  \<^bold>\<open>Parameters.\<close> Code outside the sources is an argument: \<open>crypto\<close> (Keccak and libsecp256k1: hash, signing, recovery),
  \<open>rocks\<close> (RocksDB: an ordered map with \<open>seek\<close>, \<open>put\<close> and \<open>delete\<close>, with the documented behaviour as the hypothesis
  \<open>rocks_ok\<close>), clocks and random bytes. \<open>contracts\<close> and \<open>router_env\<close> stand for the arbitrary contracts that a
  call reaches. Theorems with such hypotheses have witnesses with concrete functions for them.

  \<^bold>\<open>Theories\<close>, in the order of their dependence.

  \<^item> \<open>Prelude\<close>: types, errors, sequencing, checked arithmetic and spans, with their lemmas. \<open>Utils\<close>
    (\<^verbatim>\<open>utils/utils.cpp\<close>): integer codecs, big-endian loops and padding; the codecs are bijections onto their width.
    \<open>Hex\<close>, \<open>Strings\<close> (\<^verbatim>\<open>utils/hex.cpp\<close>, \<^verbatim>\<open>utils/strings.cpp\<close>): text of byte strings, checksummed addresses, the order of
    hashes. \<open>Ecdsa\<close> (\<^verbatim>\<open>utils/ecdsa.cpp\<close>): layout of signatures, canonical signing. \<open>Rlp\<close>, \<open>Tx\<close> (\<^verbatim>\<open>utils/tx.cpp\<close>):
    parsing and serializing of both transaction types, which round trip.
  \<^item> \<open>SafeBase\<close>, \<open>SafeUint\<close>, \<open>SafeScalars\<close>, \<open>SafeUnorderedMap\<close>, \<open>SafeVector\<close>, \<open>SafeArray\<close>
    (\<^verbatim>\<open>contract/variables\<close>): each variable refines its plain value, list or map; commit and revert obey the locales
    \<open>safe_variable\<close> and \<open>tx_variable\<close>; integer operators are exact or throw; the reentrancy guard excludes nested calls.
  \<^item> \<open>Erc20\<close>, \<open>ContractCall\<close>, \<open>ContractManager\<close>, \<open>Wrappers\<close> (\<^verbatim>\<open>contract\<close>): tokens conserve their supply, a call
    commits or reverts all variables it used and pays exactly the recorded balances, wrappers stay solvent.
    \<open>Abi\<close> (\<^verbatim>\<open>contract/abi.cpp\<close>): what is encoded is decoded again.
  \<^item> \<open>Dex\<close>, \<open>DexPair\<close>, \<open>Factory\<close>, \<open>Router\<close> (\<^verbatim>\<open>contract/dexv2\<close>): prices round in favour of the pool, swaps keep the
    product of the reserves, minting never dilutes and burning pays pro rata, the registry of pairs is symmetric and
    injective, and the router keeps the bounds of its callers.
  \<^item> \<open>Merkle\<close>, \<open>Block\<close>, \<open>RandomGen\<close>, \<open>RdPoS\<close> (\<^verbatim>\<open>utils/merkle.cpp\<close>, \<^verbatim>\<open>utils/block.cpp\<close>, \<^verbatim>\<open>utils/randomgen.cpp\<close>,
    \<^verbatim>\<open>core/rdpos.cpp\<close>): roots bind leaves and proofs verify, blocks round trip and their hashes bind their contents,
    validation of a block is characterised exactly, and the pool of validator transactions keeps its invariant. That a
    hash binds its input is stated as: equal hashes give equal inputs or an explicit collision.
  \<^item> \<open>Db\<close>, \<open>Storage\<close>, \<open>StorageDisk\<close>, \<open>State\<close>, \<open>StateDisk\<close>, \<open>Syncer\<close> (\<^verbatim>\<open>utils/db.cpp\<close>, \<^verbatim>\<open>core\<close>): the database is
    a map, the chain stays linked and indexed, a validated block settles exactly its transfers, the pool stays payable,
    a restart keeps chain and accounts, and a validator that has all commitments and seeds produces a valid block.
  \<^item> \<open>P2PEncoding\<close>, \<open>P2PSession\<close>, \<open>P2PManager\<close> (\<^verbatim>\<open>net/p2p\<close>): messages round trip, a session delivers messages in
    order and once, no node is sent a broadcast twice, and a produced block brings every receiving node to the state of
    its producer.

  A theory ends with its properties, each after a paragraph with its number. Lemmas under the heading of what the code does not
  do or check show the behaviours that the sources do not intend.

  \<^bold>\<open>Bounds.\<close> Sizes are bounded where the code stores them in a fixed width: lists and containers below \<open>2 ^ 64\<close>, ABI
  arguments below \<open>2 ^ 30\<close> bytes because the encoder counts padding in a 32-bit \<^verbatim>\<open>int\<close>, transactions and blocks
  below \<open>2 ^ 64\<close> bytes.

  \<^bold>\<open>Not modelled.\<close> The HTTP server and JSON-RPC (Boost.Beast and a JSON library around queries that are modelled),
  Snowman VM and gRPC (generated message classes that are not in the sources), sockets and worker threads of the P2P server,
  client and discovery, contract reflection and JSON ABI files (templates that fill tables at start-up), the base
  classes of contracts (getters and template dispatch), options, logging and the \<^verbatim>\<open>main\<close> programs, and bundled
  libraries. Of modelled parts: saving and loading of tokens, wrappers and pairs, creation of contracts by transactions,
  string operations of \<^verbatim>\<open>SafeString\<close> beyond assignment, iterators that only expose a container, waiting loops of
  the validator and of node discovery, and the order of hash tables, which is an argument where the code depends on it.
\<close>

end
